(* ===== verification/Prelude.thy ===== *)
theory Prelude
  imports Main "HOL-Library.Word" "HOL-Library.AList" "HOL-Library.Multiset" "HOL-Library.Sublist"
begin

text \<open>
  Shared vocabulary of the development.

  Rust strings are modelled by their UTF-8 bytes: a value of type \<^typ>\<open>string\<close> is a list of
  \<^typ>\<open>char\<close>, one per byte, so \<open>str::len\<close> is \<^const>\<open>length\<close> and the ASCII case operations
  of the standard library act byte by byte.  Results are sums with the error on the left.
  Hash maps whose iteration order is observable are association lists with distinct keys, and the
  code that iterates over one takes the (arbitrary) order as a parameter.

  The theory collects: ASCII case folding, splitting, joining and trimming of strings; decimal and
  hexadecimal rendering with their injectivity; the result monad; and the interface locale
  \<open>invariant_system\<close> through which every state machine of the development obtains
  invariants of its reachable states.
\<close>

named_theorems str_simps \<open>rewriting of string operations\<close>
named_theorems res_simps \<open>unfolding of the result monad\<close>

type_synonym u8 = "8 word"
type_synonym u16 = "16 word"
type_synonym u32 = "32 word"
type_synonym u64 = "64 word"

subsection \<open>ASCII case folding\<close>

definition ascii_lower_char :: "char \<Rightarrow> char" where
  "ascii_lower_char c =
     (let n = (of_char c :: nat) in if 65 \<le> n \<and> n \<le> 90 then char_of (n + 32) else c)"

definition to_ascii_lowercase :: "string \<Rightarrow> string" where
  "to_ascii_lowercase s = map ascii_lower_char s"

definition eq_ignore_ascii_case :: "string \<Rightarrow> string \<Rightarrow> bool" where
  "eq_ignore_ascii_case a b \<longleftrightarrow> to_ascii_lowercase a = to_ascii_lowercase b"

definition is_ascii_digit :: "char \<Rightarrow> bool" where
  "is_ascii_digit c \<longleftrightarrow> (let n = (of_char c :: nat) in 48 \<le> n \<and> n \<le> 57)"

definition is_ascii_alphanumeric :: "char \<Rightarrow> bool" where
  "is_ascii_alphanumeric c \<longleftrightarrow>
     (let n = (of_char c :: nat)
      in (48 \<le> n \<and> n \<le> 57) \<or> (65 \<le> n \<and> n \<le> 90) \<or> (97 \<le> n \<and> n \<le> 122))"

subsection \<open>Splitting, joining and searching\<close>

text \<open>\<open>split_on p s\<close> is \<open>str::split\<close> with a character predicate: the pieces between separators.\<close>

fun split_on :: "(char \<Rightarrow> bool) \<Rightarrow> string \<Rightarrow> string list" where
  "split_on p [] = [[]]"
| "split_on p (c # cs) =
     (if p c then [] # split_on p cs
      else (case split_on p cs of [] \<Rightarrow> [[c]] | w # ws \<Rightarrow> (c # w) # ws))"

text \<open>The piece after the last separator: \<open>rsplit(c).next()\<close>.\<close>

definition after_last :: "char \<Rightarrow> string \<Rightarrow> string" where
  "after_last c s = rev (takeWhile (\<lambda>x. x \<noteq> c) (rev s))"

text \<open>\<open>str::split_once\<close> at the first separator.\<close>

fun split_once :: "char \<Rightarrow> string \<Rightarrow> (string \<times> string) option" where
  "split_once c [] = None"
| "split_once c (x # xs) =
     (if x = c then Some ([], xs)
      else map_option (\<lambda>(a, b). (x # a, b)) (split_once c xs))"

fun join_with :: "string \<Rightarrow> string list \<Rightarrow> string" where
  "join_with sep [] = []"
| "join_with sep [x] = x"
| "join_with sep (x # y # ys) = x @ sep @ join_with sep (y # ys)"

definition strip_prefix :: "string \<Rightarrow> string \<Rightarrow> string option" where
  "strip_prefix p s = (if prefix p s then Some (drop (length p) s) else None)"

definition contains_str :: "string \<Rightarrow> string \<Rightarrow> bool" where
  "contains_str s pat \<longleftrightarrow> (\<exists>t \<in> set (suffixes s). prefix pat t)"

text \<open>\<open>str::replace\<close> of one character by a string.\<close>

definition replace_char :: "char \<Rightarrow> string \<Rightarrow> string \<Rightarrow> string" where
  "replace_char c r s = concat (map (\<lambda>x. if x = c then r else [x]) s)"

subsection \<open>White space\<close>

text \<open>
  The UTF-8 encodings of the characters with the Unicode property \<open>White_Space\<close>, which
  \<open>trim\<close>, \<open>trim_end\<close> and \<open>split_whitespace\<close> test for.
\<close>

definition ws_chars :: "string list" where
  "ws_chars =
     [[CHR 0x20], [CHR 0x09], [CHR 0x0A], [CHR 0x0B], [CHR 0x0C], [CHR 0x0D],
      [CHR 0xC2, CHR 0x85], [CHR 0xC2, CHR 0xA0], [CHR 0xE1, CHR 0x9A, CHR 0x80],
      [CHR 0xE2, CHR 0x80, CHR 0x80], [CHR 0xE2, CHR 0x80, CHR 0x81],
      [CHR 0xE2, CHR 0x80, CHR 0x82], [CHR 0xE2, CHR 0x80, CHR 0x83],
      [CHR 0xE2, CHR 0x80, CHR 0x84], [CHR 0xE2, CHR 0x80, CHR 0x85],
      [CHR 0xE2, CHR 0x80, CHR 0x86], [CHR 0xE2, CHR 0x80, CHR 0x87],
      [CHR 0xE2, CHR 0x80, CHR 0x88], [CHR 0xE2, CHR 0x80, CHR 0x89],
      [CHR 0xE2, CHR 0x80, CHR 0x8A], [CHR 0xE2, CHR 0x80, CHR 0xA8],
      [CHR 0xE2, CHR 0x80, CHR 0xA9], [CHR 0xE2, CHR 0x80, CHR 0xAF],
      [CHR 0xE2, CHR 0x81, CHR 0x9F], [CHR 0xE3, CHR 0x80, CHR 0x80]]"

definition leading_ws :: "string \<Rightarrow> string option" where
  "leading_ws s = List.find (\<lambda>w. prefix w s) ws_chars"

lemma find_SomeD: "List.find P xs = Some x \<Longrightarrow> x \<in> set xs \<and> P x"
  by (auto simp: find_Some_iff)

lemma ws_chars_nonempty: "w \<in> set ws_chars \<Longrightarrow> w \<noteq> []"
  by (auto simp: ws_chars_def)

lemma leading_ws_shorter: "leading_ws s = Some w \<Longrightarrow> s \<noteq> [] \<and> w \<noteq> []"
  by (auto simp: leading_ws_def dest!: find_SomeD ws_chars_nonempty)

function trim_start :: "string \<Rightarrow> string" where
  "trim_start s = (case leading_ws s of None \<Rightarrow> s | Some w \<Rightarrow> trim_start (drop (length w) s))"
  by pat_completeness auto
termination
  by (relation "measure length") (auto dest: leading_ws_shorter)

declare trim_start.simps [simp del]

definition trailing_ws :: "string \<Rightarrow> string option" where
  "trailing_ws s = List.find (\<lambda>w. suffix w s) ws_chars"

lemma trailing_ws_shorter: "trailing_ws s = Some w \<Longrightarrow> s \<noteq> [] \<and> w \<noteq> []"
  by (auto simp: trailing_ws_def dest!: find_SomeD ws_chars_nonempty)

function trim_end :: "string \<Rightarrow> string" where
  "trim_end s =
     (case trailing_ws s of None \<Rightarrow> s | Some w \<Rightarrow> trim_end (take (length s - length w) s))"
  by pat_completeness auto
termination
  by (relation "measure length") (auto dest: trailing_ws_shorter)

declare trim_end.simps [simp del]

definition trim :: "string \<Rightarrow> string" where
  "trim s = trim_end (trim_start s)"

text \<open>\<open>trim_end_matches(c)\<close> for one character.\<close>

definition trim_end_char :: "char \<Rightarrow> string \<Rightarrow> string" where
  "trim_end_char c s = rev (dropWhile (\<lambda>x. x = c) (rev s))"

text \<open>The words of a string: \<open>split_whitespace\<close>, with the word read so far as an accumulator.\<close>

function ws_words :: "string \<Rightarrow> string \<Rightarrow> string list" where
  "ws_words acc [] = (if acc = [] then [] else [acc])"
| "ws_words acc (c # cs) =
     (case leading_ws (c # cs) of
        Some w \<Rightarrow> (if acc = [] then [] else [acc]) @ ws_words [] (drop (length w) (c # cs))
      | None \<Rightarrow> ws_words (acc @ [c]) cs)"
  by pat_completeness auto
termination
  by (relation "measure (\<lambda>(acc, s). length s)") (auto dest: leading_ws_shorter)

definition split_whitespace :: "string \<Rightarrow> string list" where
  "split_whitespace s = ws_words [] s"

subsection \<open>Rendering of unsigned numbers\<close>

function digits_in :: "nat \<Rightarrow> nat \<Rightarrow> nat list" where
  "digits_in b n = (if b < 2 \<or> n < b then [n] else digits_in b (n div b) @ [n mod b])"
  by pat_completeness auto
termination
  by (relation "measure (\<lambda>(b, n). n)") auto

declare digits_in.simps [simp del]

definition digit_char :: "nat \<Rightarrow> char" where
  "digit_char d = (if d < 10 then char_of (48 + d) else char_of (87 + d))"

definition show_nat :: "nat \<Rightarrow> string" where
  "show_nat n = map digit_char (digits_in 10 n)"

text \<open>\<open>{:x}\<close> and \<open>{:016x}\<close> of a \<open>u64\<close>.\<close>

definition show_hex :: "u64 \<Rightarrow> string" where
  "show_hex w = map digit_char (digits_in 16 (unat w))"

definition show_hex16 :: "u64 \<Rightarrow> string" where
  "show_hex16 w = replicate (16 - length (show_hex w)) (CHR ''0'') @ show_hex w"

subsection \<open>The result monad and iteration orders\<close>

definition bind_res :: "'e + 'a \<Rightarrow> ('a \<Rightarrow> 'e + 'b) \<Rightarrow> 'e + 'b" where
  "bind_res r f = (case r of Inl e \<Rightarrow> Inl e | Inr a \<Rightarrow> f a)"

definition map_err :: "('e \<Rightarrow> 'f) \<Rightarrow> 'e + 'a \<Rightarrow> 'f + 'a" where
  "map_err f r = (case r of Inl e \<Rightarrow> Inl (f e) | Inr a \<Rightarrow> Inr a)"

definition is_ok :: "'e + 'a \<Rightarrow> bool" where
  "is_ok r = (case r of Inl _ \<Rightarrow> False | Inr _ \<Rightarrow> True)"

text \<open>An iteration order of a hash map visits every entry once, in some order.\<close>

type_synonym 'a iter = "'a list \<Rightarrow> 'a list"

definition fair_iter :: "'a iter \<Rightarrow> bool" where
  "fair_iter it \<longleftrightarrow> (\<forall>xs. mset (it xs) = mset xs)"

subsection \<open>Lemmas on strings\<close>

lemma of_char_bound: "(of_char c :: nat) < 256"
proof -
  have "(of_char c :: nat) \<in> range of_char" by simp
  then show ?thesis by (simp add: range_nat_of_char)
qed

lemma of_char_char_of_small: "n < 256 \<Longrightarrow> (of_char (char_of n) :: nat) = n"
  by (simp add: of_char_of)

lemma ascii_lower_char_idem [simp]: "ascii_lower_char (ascii_lower_char c) = ascii_lower_char c"
  by (auto simp: ascii_lower_char_def Let_def of_char_char_of_small)

lemma lower_idem [simp, str_simps]:
  "to_ascii_lowercase (to_ascii_lowercase s) = to_ascii_lowercase s"
  by (simp add: to_ascii_lowercase_def)

lemma length_lower [simp]: "length (to_ascii_lowercase s) = length s"
  by (simp add: to_ascii_lowercase_def)

lemma lower_append [str_simps]:
  "to_ascii_lowercase (a @ b) = to_ascii_lowercase a @ to_ascii_lowercase b"
  by (simp add: to_ascii_lowercase_def)

lemma split_on_not_Nil [simp]: "split_on p s \<noteq> []"
  by (induction s) (auto split: list.splits)

lemma split_on_no_sep:
  "\<forall>c \<in> set s. \<not> p c \<Longrightarrow> split_on p s = [s]"
  by (induction s) auto

lemma hd_split_on: "hd (split_on p s) = takeWhile (\<lambda>c. \<not> p c) s"
  by (induction s) (auto split: list.splits)

lemma after_last_no_sep: "c \<notin> set s \<Longrightarrow> after_last c s = s"
proof -
  assume "c \<notin> set s"
  then have "takeWhile (\<lambda>x. x \<noteq> c) (rev s) = rev s"
    by (intro takeWhile_eq_all_conv [THEN iffD2]) auto
  then show ?thesis by (simp only: after_last_def rev_rev_ident)
qed

lemma after_last_sep: "c \<notin> set t \<Longrightarrow> after_last c (s @ c # t) = t"
  by (simp add: after_last_def takeWhile_append)

lemma after_last_free: "c \<notin> set (after_last c s)"
  by (auto simp: after_last_def dest: set_takeWhileD)

lemma split_once_Some:
  "split_once c s = Some (a, b) \<longleftrightarrow> s = a @ c # b \<and> c \<notin> set a"
proof (induction s arbitrary: a)
  case Nil
  then show ?case by simp
next
  case (Cons x xs)
  show ?case
  proof (cases a)
    case Nil
    then show ?thesis by (auto split: option.splits)
  next
    case (Cons y ys)
    then show ?thesis using Cons.IH[of ys] by auto
  qed
qed

lemma contains_str_iff: "contains_str s pat \<longleftrightarrow> (\<exists>a b. s = a @ pat @ b)"
proof
  assume "contains_str s pat"
  then obtain t where "suffix t s" "prefix pat t" by (auto simp: contains_str_def)
  then show "\<exists>a b. s = a @ pat @ b" by (auto simp: suffix_def prefix_def)
next
  assume "\<exists>a b. s = a @ pat @ b"
  then obtain a b where "s = a @ (pat @ b)" by auto
  then have "suffix (pat @ b) s" by (simp add: suffix_def)
  then show "contains_str s pat"
    unfolding contains_str_def by (intro bexI [of _ "pat @ b"]) auto
qed

subsection \<open>Lemmas on number rendering\<close>

lemma digits_in_small: "n < b \<Longrightarrow> digits_in b n = [n]"
  by (simp add: digits_in.simps)

lemma digits_in_step: "2 \<le> b \<Longrightarrow> b \<le> n \<Longrightarrow> digits_in b n = digits_in b (n div b) @ [n mod b]"
  by (subst digits_in.simps) simp

lemma digits_in_less: "2 \<le> b \<Longrightarrow> \<forall>d \<in> set (digits_in b n). d < b"
proof (induction b n rule: digits_in.induct)
  case (1 b n)
  show ?case
  proof (cases "n < b")
    case True
    then show ?thesis by (simp add: digits_in_small)
  next
    case False
    then have "\<forall>d \<in> set (digits_in b (n div b)). d < b"
      using "1.IH" "1.prems" by fastforce
    moreover have "n mod b < b" using "1.prems" by simp
    ultimately show ?thesis using False "1.prems" by (auto simp: digits_in_step [of b n])
  qed
qed

lemma digits_in_not_Nil [simp]: "digits_in b n \<noteq> []"
  by (subst digits_in.simps) simp

lemma digits_in_value: "2 \<le> b \<Longrightarrow> foldl (\<lambda>a d. a * b + d) 0 (digits_in b n) = n"
proof (induction b n rule: digits_in.induct)
  case (1 b n)
  show ?case
  proof (cases "n < b")
    case True
    then show ?thesis by (simp add: digits_in_small)
  next
    case False
    then have "foldl (\<lambda>a d. a * b + d) 0 (digits_in b (n div b)) = n div b"
      using 1 by simp
    then show ?thesis using False "1.prems" by (simp add: digits_in_step [of b n])
  qed
qed

lemma digits_in_inject: "2 \<le> b \<Longrightarrow> digits_in b m = digits_in b n \<Longrightarrow> m = n"
  by (metis digits_in_value)

lemma digit_char_code: "d < 16 \<Longrightarrow> (of_char (digit_char d) :: nat) = (if d < 10 then 48 + d else 87 + d)"
  by (simp add: digit_char_def of_char_char_of_small)

lemma digit_char_inj: "inj_on digit_char {..<16}"
proof (rule inj_onI)
  fix x y :: nat
  assume xy: "x \<in> {..<16}" "y \<in> {..<16}" and eq: "digit_char x = digit_char y"
  have "(if x < 10 then 48 + x else 87 + x) = (if y < 10 then 48 + y else 87 + y)"
    using xy digit_char_code [of x] digit_char_code [of y] by (simp only: eq lessThan_iff)
  then show "x = y" using xy by (simp split: if_splits)
qed

lemma map_digit_char_inject:
  assumes "b \<le> 16" and "2 \<le> b"
    and "map digit_char (digits_in b m) = map digit_char (digits_in b n)"
  shows "m = n"
proof -
  have "set (digits_in b m) \<subseteq> {..<16}" "set (digits_in b n) \<subseteq> {..<16}"
    using assms(1,2) digits_in_less by fastforce+
  then have "inj_on digit_char (set (digits_in b m) \<union> set (digits_in b n))"
    using digit_char_inj by (blast intro: inj_on_subset)
  then have "digits_in b m = digits_in b n"
    using assms(3) by (simp add: inj_on_map_eq_map)
  then show ?thesis using assms(2) digits_in_inject by blast
qed

lemma show_nat_inject [simp]: "show_nat m = show_nat n \<longleftrightarrow> m = n"
  using map_digit_char_inject [of 10 m n] by (auto simp: show_nat_def)

lemma show_hex_inject [simp]: "show_hex v = show_hex w \<longleftrightarrow> v = w"
proof
  assume "show_hex v = show_hex w"
  then have "unat v = unat w"
    using map_digit_char_inject [of 16 "unat v" "unat w"] by (simp add: show_hex_def)
  then show "v = w" by (simp add: word_unat_eq_iff)
qed simp

lemma digit_chars_code:
  assumes "c \<in> set (map digit_char (digits_in b n))" and "2 \<le> b" and "b \<le> 16"
  shows "(48 \<le> (of_char c :: nat) \<and> of_char c \<le> (57 :: nat)) \<or>
         (97 \<le> (of_char c :: nat) \<and> of_char c \<le> (102 :: nat))"
proof -
  from assms(1) obtain d where d: "d \<in> set (digits_in b n)" "c = digit_char d" by auto
  then have "d < 16" using digits_in_less assms(2,3) by fastforce
  then show ?thesis using d(2) digit_char_code by auto
qed

lemma show_hex_chars:
  "c \<in> set (show_hex w) \<Longrightarrow>
     (48 \<le> (of_char c :: nat) \<and> of_char c \<le> (57 :: nat)) \<or>
     (97 \<le> (of_char c :: nat) \<and> of_char c \<le> (102 :: nat))"
  unfolding show_hex_def by (rule digit_chars_code) auto

lemma show_hex_no_colon: "CHR '':'' \<notin> set (show_hex w)"
  using show_hex_chars [of "CHR '':''" w] by auto

lemma digits_in_length_bound: "2 \<le> b \<Longrightarrow> n < b ^ k \<Longrightarrow> 0 < k \<Longrightarrow> length (digits_in b n) \<le> k"
proof (induction b n arbitrary: k rule: digits_in.induct)
  case (1 b n)
  show ?case
  proof (cases "n < b")
    case True
    then show ?thesis using "1.prems" by (simp add: digits_in_small)
  next
    case False
    with "1.prems" obtain j where k: "k = Suc j" "0 < j"
      by (cases k; cases "k - 1") auto
    have "n div b < b ^ j"
      using "1.prems" k by (simp add: less_mult_imp_div_less mult.commute)
    then have "length (digits_in b (n div b)) \<le> j"
      using "1.IH" "1.prems" False k by simp
    then show ?thesis using False "1.prems" k by (simp add: digits_in.simps [of b n])
  qed
qed

lemma show_hex_length: "length (show_hex w) \<le> 16"
proof -
  have "unat w < 16 ^ 16" using unsigned_less [of w] by simp
  then show ?thesis unfolding show_hex_def
    using digits_in_length_bound [of 16 "unat w" 16] by simp
qed

lemma foldl_leading_zeros: "foldl (\<lambda>a d. a * b + d) 0 (replicate k 0 @ ds) = foldl (\<lambda>a d. a * b + d) (0 :: nat) ds"
  by (induction k) simp_all

lemma show_hex16_inject [simp]: "show_hex16 v = show_hex16 w \<longleftrightarrow> v = w"
proof
  let ?pad = "\<lambda>w :: u64. replicate (16 - length (show_hex w)) 0 @ digits_in 16 (unat w)"
  have "digit_char 0 = CHR ''0''" by code_simp
  then have pad: "show_hex16 w = map digit_char (?pad w)" for w
    by (simp add: show_hex16_def show_hex_def)
  assume "show_hex16 v = show_hex16 w"
  then have eq: "map digit_char (?pad v) = map digit_char (?pad w)" by (simp only: pad)
  have "set (?pad w) \<subseteq> {..<16}" for w using digits_in_less [of 16 "unat w"] by auto
  then have "inj_on digit_char (set (?pad v) \<union> set (?pad w))"
    using digit_char_inj by (blast intro: inj_on_subset)
  from inj_on_map_eq_map [OF this] eq have "?pad v = ?pad w" by blast
  then have "foldl (\<lambda>a d. a * 16 + d) 0 (?pad v) = foldl (\<lambda>a d. a * 16 + d) 0 (?pad w)" by simp
  then have "unat v = unat w" by (simp only: foldl_leading_zeros) (simp add: digits_in_value)
  then show "v = w" by (simp add: word_unat_eq_iff)
qed simp

lemma show_hex16_length [simp]: "length (show_hex16 w) = 16"
  using show_hex_length by (simp add: show_hex16_def)

subsection \<open>Lemmas on results, iteration orders and association lists\<close>

lemma bind_res_simps [simp, res_simps]:
  "bind_res (Inl e) f = Inl e" "bind_res (Inr a) f = f a"
  by (simp_all add: bind_res_def)

lemma map_err_simps [simp, res_simps]:
  "map_err h (Inl e) = Inl (h e)" "map_err h (Inr a) = Inr a"
  by (simp_all add: map_err_def)

lemma is_ok_simps [simp, res_simps]: "\<not> is_ok (Inl e)" "is_ok (Inr a)"
  by (simp_all add: is_ok_def)

lemma bind_res_Inr_iff: "bind_res r f = Inr b \<longleftrightarrow> (\<exists>a. r = Inr a \<and> f a = Inr b)"
  by (cases r) auto

lemma bind_res_Inl_iff:
  "bind_res r f = Inl e \<longleftrightarrow> r = Inl e \<or> (\<exists>a. r = Inr a \<and> f a = Inl e)"
  by (cases r) auto

lemma map_err_Inr_iff [simp]: "map_err h r = Inr a \<longleftrightarrow> r = Inr a"
  by (cases r) auto

lemma map_err_Inl_iff: "map_err h r = Inl e \<longleftrightarrow> (\<exists>e'. r = Inl e' \<and> e = h e')"
  by (cases r) auto

lemma fair_iter_id: "fair_iter (\<lambda>xs. xs)"
  by (simp add: fair_iter_def)

lemma fair_iter_rev: "fair_iter rev"
  by (simp add: fair_iter_def)

lemma fair_iter_set: "fair_iter it \<Longrightarrow> set (it xs) = set xs"
  by (metis fair_iter_def set_mset_mset)

lemma fair_iter_length: "fair_iter it \<Longrightarrow> length (it xs) = length xs"
  by (metis fair_iter_def size_mset)

lemma fair_iter_distinct_keys:
  assumes "fair_iter it" shows "distinct (map fst (it xs)) \<longleftrightarrow> distinct (map fst xs)"
proof -
  have "mset (map fst (it xs)) = mset (map fst xs)"
    using assms by (simp add: fair_iter_def)
  then show ?thesis by (rule mset_eq_imp_distinct_iff)
qed

lemma fair_iter_map_of:
  assumes "fair_iter it" and "distinct (map fst xs)"
  shows "map_of (it xs) = map_of xs"
  using assms fair_iter_set fair_iter_distinct_keys by (metis map_of_inject_set)

lemma set_map_filter_iff: "y \<in> set (List.map_filter f xs) \<longleftrightarrow> (\<exists>x \<in> set xs. f x = Some y)"
  by (force simp: List.map_filter_def image_iff)

lemma map_of_update [simp]: "map_of (AList.update k v al) = (map_of al)(k \<mapsto> v)"
  by (rule update_conv')

lemma map_of_delete [simp]: "map_of (AList.delete k al) = (map_of al)(k := None)"
  by (rule delete_conv')

subsection \<open>Invariants of transition systems\<close>

text \<open>
  The interface every state machine of the development is read through: a set of start states, a
  step relation, and a predicate that the start states satisfy and every step keeps.  Its client
  lemma is proved once: the predicate holds in every reachable state.
\<close>

locale invariant_system =
  fixes init :: "'s \<Rightarrow> bool"
    and step :: "'s \<Rightarrow> 's \<Rightarrow> bool"
    and inv :: "'s \<Rightarrow> bool"
  assumes inv_init: "init s \<Longrightarrow> inv s"
    and inv_step: "inv s \<Longrightarrow> step s t \<Longrightarrow> inv t"
begin

lemma inv_steps: "inv s \<Longrightarrow> step\<^sup>*\<^sup>* s t \<Longrightarrow> inv t"
  by (rotate_tac, induction rule: rtranclp_induct) (auto intro: inv_step)

lemma inv_reachable: "init s \<Longrightarrow> step\<^sup>*\<^sup>* s t \<Longrightarrow> inv t"
  by (blast intro: inv_steps inv_init)

end

end
