(* ===== verification/Json.thy ===== *)
theory Json
  imports Prelude "HOL-Library.Char_ord" "HOL-Library.List_Lexorder" "HOL-Library.Countable"
begin

text \<open>
  The JSON values the program passes around (the data type \<open>serde_json::Value\<close>) and the
  accessors it applies to them.  An object is a \<open>BTreeMap\<close>: an association list kept in the
  order of its keys.  Integers carry their Rust width; a float is carried by its bit pattern.
  Printing and parsing of JSON text are code of the \<open>serde_json\<close> package, so they are parameters
  wherever they occur: \<open>json_text\<close> for \<open>to_string\<close> and \<open>from_str\<close> for the parser.  The laws
  the program relies on, that a printed value parses back and is printed on one line, are the
  hypothesis \<open>json_roundtrip\<close>; \<open>sample_json_roundtrip\<close> shows that it can hold.
\<close>

datatype json_number = PosInt u64 | NegInt u64 | Float u64

datatype json =
    Null
  | Bool bool
  | Number json_number
  | String string
  | Array "json list"
  | Object "(string \<times> json) list"

subsection \<open>Objects in key order\<close>

fun btree_insert :: "string \<Rightarrow> 'v \<Rightarrow> (string \<times> 'v) list \<Rightarrow> (string \<times> 'v) list" where
  "btree_insert k v [] = [(k, v)]"
| "btree_insert k v ((k', v') # m) =
     (if k < k' then (k, v) # (k', v') # m
      else if k = k' then (k, v) # m
      else (k', v') # btree_insert k v m)"

definition mk_object :: "(string \<times> json) list \<Rightarrow> json" where
  "mk_object kvs = Object (fold (\<lambda>(k, v). btree_insert k v) kvs [])"

subsection \<open>Accessors\<close>

text \<open>\<open>Value::get\<close> with a string index: only an object has members.\<close>

fun json_get :: "string \<Rightarrow> json \<Rightarrow> json option" where
  "json_get k (Object m) = map_of m k"
| "json_get k _ = None"

fun as_str :: "json \<Rightarrow> string option" where
  "as_str (String s) = Some s"
| "as_str _ = None"

fun as_array :: "json \<Rightarrow> json list option" where
  "as_array (Array xs) = Some xs"
| "as_array _ = None"

text \<open>\<open>i64\<close> values are integers; \<open>2 ^ 63\<close> is the first unsigned value that is not one.\<close>

fun number_as_i64 :: "json_number \<Rightarrow> int option" where
  "number_as_i64 (PosInt n) = (if unat n < 2 ^ 63 then Some (uint n) else None)"
| "number_as_i64 (NegInt n) = Some (sint n)"
| "number_as_i64 (Float _) = None"

fun number_as_u64 :: "json_number \<Rightarrow> u64 option" where
  "number_as_u64 (PosInt n) = Some n"
| "number_as_u64 _ = None"

definition is_i64 :: "json_number \<Rightarrow> bool" where
  "is_i64 n \<longleftrightarrow> number_as_i64 n \<noteq> None"

definition is_u64 :: "json_number \<Rightarrow> bool" where
  "is_u64 n \<longleftrightarrow> number_as_u64 n \<noteq> None"

fun as_i64 :: "json \<Rightarrow> int option" where
  "as_i64 (Number n) = number_as_i64 n"
| "as_i64 _ = None"

fun as_u64 :: "json \<Rightarrow> u64 option" where
  "as_u64 (Number n) = number_as_u64 n"
| "as_u64 _ = None"

subsection \<open>Text\<close>

type_synonym json_printer = "json \<Rightarrow> string"
type_synonym json_parser = "string \<Rightarrow> json option"

text \<open>
  The values whose text determines them exactly: the keys of an object are strictly sorted (the map
  of the Rust type is sorted), a negative number is negative, and there is no fractional number.  A
  fractional number is printed and read through a decimal text that \<open>serde_json\<close> does not promise to
  round-trip without its \<open>float_roundtrip\<close> feature, which the build does not enable.
\<close>

fun number_plain :: "json_number \<Rightarrow> bool" where
  "number_plain (PosInt _) = True"
| "number_plain (NegInt w) = (sint w < 0)"
| "number_plain (Float w) = False"

fun json_plain :: "json \<Rightarrow> bool" where
  "json_plain (Number n) = number_plain n"
| "json_plain (Array xs) = (\<forall>x \<in> set xs. json_plain x)"
| "json_plain (Object m) = (sorted_wrt (<) (map fst m) \<and> (\<forall>p \<in> set m. json_plain (snd p)))"
| "json_plain _ = True"

text \<open>The nesting of arrays and objects; the parser refuses more than \<open>json_limit\<close> levels.\<close>

fun json_depth :: "json \<Rightarrow> nat" where
  "json_depth (Array xs) = Suc (Max (insert 0 (json_depth ` set xs)))"
| "json_depth (Object m) = Suc (Max (insert 0 ((\<lambda>p. json_depth (snd p)) ` set m)))"
| "json_depth _ = 0"

definition json_limit :: nat where
  "json_limit = 127"

text \<open>
  The law of the codec.  The parser is taken on texts without fractional numbers: what it yields is
  plain and within the limit.  A plain value is printed on one line, and its text is read back as the
  value when it is within the limit and refused otherwise.
\<close>

definition json_roundtrip :: "json_printer \<Rightarrow> json_parser \<Rightarrow> bool" where
  "json_roundtrip json_text from_str \<longleftrightarrow>
     (\<forall>v. json_plain v \<longrightarrow>
        from_str (json_text v) = (if json_depth v \<le> json_limit then Some v else None) \<and> CHR 0x0A \<notin> set (json_text v)) \<and>
     (\<forall>s v. from_str s = Some v \<longrightarrow> json_plain v \<and> json_depth v \<le> json_limit)"

text \<open>A value that may be a member of a printed object.\<close>

definition json_member :: "json \<Rightarrow> bool" where
  "json_member v \<longleftrightarrow> json_plain v \<and> json_depth v < json_limit"

subsection \<open>Lemmas\<close>

lemma map_of_btree_insert [simp]: "map_of (btree_insert k v m) = (map_of m)(k \<mapsto> v)"
  by (induction m) (auto simp: fun_eq_iff)

lemma map_of_fold_btree_insert:
  "map_of (fold (\<lambda>(k, v). btree_insert k v) kvs m) = map_of m ++ map_of (rev kvs)"
  by (induction kvs arbitrary: m) auto

lemma json_get_mk_object [simp]: "json_get k (mk_object kvs) = map_of (rev kvs) k"
  by (simp add: mk_object_def map_of_fold_btree_insert)

lemma set_btree_insert_keys:
  "fst ` set (btree_insert k v m) = insert k (fst ` set m)"
proof (induction m)
  case Nil
  then show ?case by simp
next
  case (Cons p m)
  then show ?case by (cases p) (auto simp del: set_map)
qed

lemma btree_insert_sorted:
  "sorted_wrt (<) (map fst m) \<Longrightarrow> sorted_wrt (<) (map fst (btree_insert k v m))"
proof (induction m)
  case Nil
  then show ?case by simp
next
  case (Cons p m)
  then show ?case
    using set_btree_insert_keys [of k v m] by (cases p) auto
qed

lemma number_as_i64_range: "number_as_i64 n = Some i \<Longrightarrow> - (2 ^ 63) \<le> i \<and> i < 2 ^ 63"
proof (cases n)
  case (PosInt w)
  assume "number_as_i64 n = Some i"
  with PosInt have w: "unat w < 2 ^ 63" and i: "i = uint w" by (auto split: if_splits)
  from w have "int (unat w) < int (2 ^ 63)" by (simp only: of_nat_less_iff)
  then have "uint w < 2 ^ 63" by (subst uint_nat) simp
  moreover have "0 \<le> uint w" by simp
  ultimately show ?thesis using i by linarith
next
  case (NegInt w)
  assume "number_as_i64 n = Some i"
  with NegInt show ?thesis
    using sint_ge [of w] sint_lt [of w] by simp
qed simp

lemma set_btree_insert: "set (btree_insert k v m) \<subseteq> insert (k, v) (set m)"
  by (induction m) (auto split: if_splits)

lemma json_plain_mk_object:
  assumes "\<forall>p \<in> set kvs. json_plain (snd p)"
  shows "json_plain (mk_object kvs)"
proof -
  have wf: "\<forall>p \<in> set m. json_plain (snd p) \<Longrightarrow> json_plain v \<Longrightarrow> \<forall>p \<in> set (btree_insert k v m). json_plain (snd p)" for k v m
    using set_btree_insert [of k v m] by auto
  have "json_plain (Object m) \<Longrightarrow> \<forall>p \<in> set kvs. json_plain (snd p) \<Longrightarrow>
          json_plain (Object (fold (\<lambda>(k, v). btree_insert k v) kvs m))" for m
  proof (induction kvs arbitrary: m)
    case Nil
    then show ?case by simp
  next
    case (Cons p kvs)
    obtain k v where p: "p = (k, v)" by (cases p)
    have "json_plain (Object (btree_insert k v m))"
      using Cons.prems wf [of m v k] btree_insert_sorted [of m k v] p by simp
    then show ?case using Cons p by simp
  qed
  from this [of "[]"] show ?thesis using assms by (simp add: mk_object_def)
qed

lemma json_depth_mk_object:
  assumes "\<forall>p \<in> set kvs. json_depth (snd p) < n" and "0 < n"
  shows "json_depth (mk_object kvs) \<le> n"
proof -
  have "set (fold (\<lambda>(k, v). btree_insert k v) kvs m) \<subseteq> set kvs \<union> set m" for m
  proof (induction kvs arbitrary: m)
    case Nil
    then show ?case by simp
  next
    case (Cons p kvs)
    obtain k v where p: "p = (k, v)" by (cases p)
    show ?case using Cons [of "btree_insert k v m"] set_btree_insert [of k v m] p by auto
  qed
  from this [of "[]"] have "\<forall>p \<in> set (fold (\<lambda>(k, v). btree_insert k v) kvs []). json_depth (snd p) < n"
    using assms(1) by auto
  then show ?thesis using assms(2) by (simp add: mk_object_def Suc_le_eq)
qed

lemma json_depth_member: "p \<in> set m \<Longrightarrow> json_depth (snd p) < json_depth (Object m)"
  by (simp add: less_Suc_eq_le)

lemma json_depth_element: "x \<in> set xs \<Longrightarrow> json_depth x < json_depth (Array xs)"
  by (simp add: less_Suc_eq_le)

lemma json_member_simps [simp]:
  "json_member Null" "json_member (Bool b)" "json_member (String s)" "json_member (Number (PosInt w))" "json_member (Array [])"
  by (simp_all add: json_member_def json_limit_def)

lemma json_object_readable:
  assumes "\<forall>p \<in> set kvs. json_member (snd p)"
  shows "json_plain (mk_object kvs) \<and> json_depth (mk_object kvs) \<le> json_limit"
  using json_plain_mk_object [of kvs] json_depth_mk_object [of kvs json_limit] assms
  by (simp add: json_member_def json_limit_def)

lemma json_roundtrip_print:
  "json_roundtrip json_text from_str \<Longrightarrow> json_plain v \<Longrightarrow> json_depth v \<le> json_limit \<Longrightarrow> from_str (json_text v) = Some v"
  by (simp add: json_roundtrip_def)

lemma json_roundtrip_object:
  "json_roundtrip json_text from_str \<Longrightarrow> \<forall>p \<in> set kvs. json_member (snd p) \<Longrightarrow>
   from_str (json_text (mk_object kvs)) = Some (mk_object kvs)"
  by (simp add: json_roundtrip_print json_object_readable)

lemma json_roundtrip_read:
  "json_roundtrip json_text from_str \<Longrightarrow> from_str s = Some v \<Longrightarrow> json_plain v \<and> json_depth v \<le> json_limit"
  by (simp add: json_roundtrip_def)

subsection \<open>A codec that satisfies the laws\<close>

instance json_number :: countable
  by countable_datatype

instance json :: countable
  by countable_datatype

definition sample_json_text :: json_printer where
  "sample_json_text v = replicate (to_nat v) (CHR ''x'')"

definition sample_from_str :: json_parser where
  "sample_from_str s =
     (let v = (from_nat (length s) :: json) in if json_plain v \<and> json_depth v \<le> json_limit \<and> sample_json_text v = s then Some v else None)"

lemma sample_json_roundtrip: "json_roundtrip sample_json_text sample_from_str"
  by (auto simp: json_roundtrip_def sample_json_text_def sample_from_str_def Let_def split: if_splits)

end
