(* ===== verification/Error.thy ===== *)
theory Error
  imports Json
begin

text \<open>
  \<open>src/error.rs\<close>: the error type every operation of the program returns, its Display text, its
  name on the wire and the JSON envelope that carries both.  The error values of the engine
  (\<open>pglite::Error\<close>) are data of a package; the ones the program inspects have constructors of
  their own, and their Display text is the parameter \<open>pg_display\<close>.
\<close>

datatype pg_error =
    Database string string "string option" "string option"
      \<comment> \<open>\<open>sqlstate\<close>, \<open>message\<close>, \<open>detail\<close>, \<open>hint\<close>\<close>
  | PostmasterStart string
  | PoolExhausted
  | Closed
  | Protocol string
  | OtherPg string

datatype io_error = NotFound string | OtherIo string

text \<open>The Display text of an I/O error, which the model carries with it.\<close>

fun io_display :: "io_error \<Rightarrow> string" where
  "io_display (NotFound m) = m"
| "io_display (OtherIo m) = m"

datatype lifecycle_error_kind =
    DataDirectoryBusy
  | InvalidConfiguration
  | Startup
  | Connection
  | Topology
  | Shutdown
  | Recovery

datatype cache_error =
    Pglite pg_error
  | Upstream string
  | Parse string
  | Rejected string
  | Config string
  | Cache string
  | Halted string
  | Unauthorized string
  | Forbidden string
  | Io io_error
  | Lifecycle lifecycle_error_kind string

type_synonym 'a result = "cache_error + 'a"

fun lifecycle_kind :: "cache_error \<Rightarrow> lifecycle_error_kind option" where
  "lifecycle_kind (Config _) = Some InvalidConfiguration"
| "lifecycle_kind (Lifecycle kind _) = Some kind"
| "lifecycle_kind _ = None"

text \<open>\<open>CacheError::lifecycle\<close> takes the error's Display text.\<close>

definition lifecycle :: "lifecycle_error_kind \<Rightarrow> string \<Rightarrow> cache_error" where
  "lifecycle kind error = Lifecycle kind error"

fun error_name :: "cache_error \<Rightarrow> string" where
  "error_name (Pglite _) = ''PgliteError''"
| "error_name (Upstream _) = ''UpstreamError''"
| "error_name (Parse _) = ''ParseError''"
| "error_name (Rejected _) = ''RejectedError''"
| "error_name (Config _) = ''ConfigError''"
| "error_name (Cache _) = ''CacheError''"
| "error_name (Halted _) = ''HaltedError''"
| "error_name (Unauthorized _) = ''UnauthorizedError''"
| "error_name (Forbidden _) = ''ForbiddenError''"
| "error_name (Io _) = ''IoError''"
| "error_name (Lifecycle _ _) = ''LifecycleError''"

text \<open>The Debug text of a kind, used by the Display text of a lifecycle error.\<close>

fun kind_debug :: "lifecycle_error_kind \<Rightarrow> string" where
  "kind_debug DataDirectoryBusy = ''DataDirectoryBusy''"
| "kind_debug InvalidConfiguration = ''InvalidConfiguration''"
| "kind_debug Startup = ''Startup''"
| "kind_debug Connection = ''Connection''"
| "kind_debug Topology = ''Topology''"
| "kind_debug Shutdown = ''Shutdown''"
| "kind_debug Recovery = ''Recovery''"

fun error_display :: "(pg_error \<Rightarrow> string) \<Rightarrow> cache_error \<Rightarrow> string" where
  "error_display pg_display (Pglite e) = pg_display e"
| "error_display pg_display (Upstream m) = ''upstream: '' @ m"
| "error_display pg_display (Parse m) = ''parse: '' @ m"
| "error_display pg_display (Rejected m) = ''rejected: '' @ m"
| "error_display pg_display (Config m) = m"
| "error_display pg_display (Cache m) = ''cache: '' @ m"
| "error_display pg_display (Halted m) = ''replica halted: '' @ m"
| "error_display pg_display (Unauthorized m) = ''unauthorized: '' @ m"
| "error_display pg_display (Forbidden m) = ''forbidden: '' @ m"
| "error_display pg_display (Io e) = io_display e"
| "error_display pg_display (Lifecycle k m) = kind_debug k @ '': '' @ m"

definition envelope :: "json_printer \<Rightarrow> (pg_error \<Rightarrow> string) \<Rightarrow> cache_error \<Rightarrow> string" where
  "envelope json_text pg_display e =
     json_text (mk_object [(''name'', String (error_name e)),
                           (''message'', String (error_display pg_display e))])"

lemma envelope_members:
  assumes "json_roundtrip json_text from_str"
  shows "\<exists>v. from_str (envelope json_text pg_display e) = Some v \<and>
             json_get ''name'' v = Some (String (error_name e)) \<and>
             json_get ''message'' v = Some (String (error_display pg_display e))"
  using json_roundtrip_object [OF assms] by (simp add: envelope_def)

end
