(* ===== verification/Engine.thy ===== *)
theory Engine
  imports Error
begin

text \<open>
  The interface to the embedded PostgreSQL engine (\<open>pglite::PGlite\<close>), which is a package and
  therefore a parameter: a function from a command and the state of the outside world to the
  engine's reply and the next state.  Programs thread that world and, beside it, the trace of the
  commands they issued.  Every theorem about a trace holds for every engine, that is, for every
  sequence of replies and failures.

  A transaction handle that goes out of scope without a commit or a rollback is dropped; the model
  issues \<open>DropTx\<close> at that point.  The value of a column is read with a type (\<open>row.get::<T>\<close>),
  which fails on a value of another type.
\<close>

named_theorems prog_simps \<open>unfolding of programs\<close>

datatype cell = CNull | CText string | CInt int | CBool bool

record row =
  row_columns :: "string list"
  row_cells :: "cell list"

datatype sql_param = PJson json | PText string | PTexts "string list"

text \<open>
  The same trace records the calls to the rest of the host: opening and closing the engine, the
  upstream server, the process that holds a data directory, and the network bindings.  What such a
  call answers is the parameter \<open>host\<close>.  \<open>Acquired\<close> is a history entry, made when a call handed out a
  resource that has to be given back; \<open>still_held\<close> reads off a trace what is still out.
\<close>

record db_options =
  opt_database :: string
  opt_min_connections :: nat
  opt_max_connections :: nat
  opt_listen :: "string option"
  opt_port :: "u16 option"

datatype ssl_mode = SslDisable | SslPrefer | SslRequire | SslVerifyFull

record upstream_config =
  up_host :: string
  up_port :: u16
  up_user :: string
  up_password :: string
  up_database :: string
  up_sslmode :: string

datatype resource = RDb | RListen | RReplica | RHttp | RTopology nat

datatype host_act =
    UpConnect upstream_config
  | UpQuery string "string list"
  | UpExec string
  | RemoveFile string
  | ReplicaStart upstream_config string string ssl_mode
  | ReplicaStop
  | CdcSpawn
  | CdcStop
  | HttpBind string
  | HttpStop
  | HttpJoin
  | NodeBuild nat
  | TopologyStart nat
  | TopologyWait nat
  | TopologyShutdown nat

datatype db_cmd =
    Query string "sql_param list"
  | Exec string
  | Begin
  | TxQuery string "sql_param list"
  | TxExec string
  | Commit
  | Rollback
  | DropTx
  | Open string db_options
  | Close
  | ShutdownDb
  | Listen string
  | Unlisten string
  | Host host_act
  | Acquired resource

type_synonym 'w engine = "db_cmd \<Rightarrow> 'w \<Rightarrow> (pg_error + row list) \<times> 'w"

record 'w io =
  world :: 'w
  trace :: "db_cmd list"

type_synonym ('w, 'a) prog = "'w io \<Rightarrow> 'a result \<times> 'w io"

subsection \<open>Programs\<close>

definition return_prog :: "'a \<Rightarrow> ('w, 'a) prog" where
  "return_prog a s = (Inr a, s)"

definition fail_prog :: "cache_error \<Rightarrow> ('w, 'a) prog" where
  "fail_prog e s = (Inl e, s)"

definition lift_prog :: "'a result \<Rightarrow> ('w, 'a) prog" where
  "lift_prog r s = (r, s)"

definition bind_prog :: "('w, 'a) prog \<Rightarrow> ('a \<Rightarrow> ('w, 'b) prog) \<Rightarrow> ('w, 'b) prog" where
  "bind_prog m f s = (case m s of (Inl e, s') \<Rightarrow> (Inl e, s') | (Inr a, s') \<Rightarrow> f a s')"

text \<open>The program with its error rewritten: \<open>map_err\<close>.\<close>

definition map_err_prog :: "(cache_error \<Rightarrow> cache_error) \<Rightarrow> ('w, 'a) prog \<Rightarrow> ('w, 'a) prog" where
  "map_err_prog h m s = (case m s of (r, s') \<Rightarrow> (map_err h r, s'))"

text \<open>One command: issued, recorded, and its engine error converted (\<open>From<pglite::Error>\<close>).\<close>

definition issue :: "'w engine \<Rightarrow> db_cmd \<Rightarrow> ('w, row list) prog" where
  "issue eng c s =
     (case eng c (world s) of
        (r, w) \<Rightarrow> (map_err Pglite r, s\<lparr>world := w, trace := trace s @ [c]\<rparr>))"

text \<open>A command whose reply is discarded (\<open>let _ = ...\<close>).\<close>

definition issue_ignored :: "'w engine \<Rightarrow> db_cmd \<Rightarrow> ('w, unit) prog" where
  "issue_ignored eng c s = (Inr (), snd (issue eng c s))"

text \<open>A call to the host; its error is converted by \<open>on_error\<close>.  An entry for an acquired resource.\<close>

type_synonym 'w host = "host_act \<Rightarrow> 'w \<Rightarrow> (io_error + row list) \<times> 'w"

definition perform :: "'w host \<Rightarrow> (io_error \<Rightarrow> cache_error) \<Rightarrow> host_act \<Rightarrow> ('w, row list) prog" where
  "perform hst on_error a s =
     (case hst a (world s) of
        (r, w) \<Rightarrow> (map_err on_error r, s\<lparr>world := w, trace := trace s @ [Host a]\<rparr>))"

definition perform_ignored :: "'w host \<Rightarrow> host_act \<Rightarrow> ('w, unit) prog" where
  "perform_ignored hst a s = (Inr (), snd (perform hst Io a s))"

definition acquire :: "resource \<Rightarrow> ('w, unit) prog" where
  "acquire r s = (Inr (), s\<lparr>trace := trace s @ [Acquired r]\<rparr>)"

text \<open>A program whose error is looked at by the caller: \<open>match\<close> on its result.\<close>

definition try_prog :: "('w, 'a) prog \<Rightarrow> ('w, 'a result) prog" where
  "try_prog m s = (case m s of (r, s') \<Rightarrow> (Inr r, s'))"

fun hold :: "resource set \<Rightarrow> db_cmd \<Rightarrow> resource set" where
  "hold H (Acquired r) = insert r H"
| "hold H Close = H - {RDb}"
| "hold H ShutdownDb = H - {RDb}"
| "hold H (Unlisten _) = H - {RListen}"
| "hold H (Host ReplicaStop) = H - {RReplica}"
| "hold H (Host HttpStop) = H - {RHttp}"
| "hold H (Host (TopologyShutdown i)) = H - {RTopology i}"
| "hold H _ = H"

definition still_held :: "db_cmd list \<Rightarrow> resource set \<Rightarrow> resource set" where
  "still_held cs H = foldl hold H cs"

text \<open>A program over a transaction handle: when it fails, the handle is dropped.\<close>

definition in_tx :: "'w engine \<Rightarrow> ('w, 'a) prog \<Rightarrow> ('w, 'a) prog" where
  "in_tx eng m s =
     (case m s of
        (Inl e, s') \<Rightarrow> (Inl e, snd (issue eng DropTx s'))
      | (Inr a, s') \<Rightarrow> (Inr a, s'))"

subsection \<open>Reading rows\<close>

definition cell_at :: "row \<Rightarrow> nat \<Rightarrow> cell option" where
  "cell_at r i = (if i < length (row_cells r) then Some (row_cells r ! i) else None)"

definition get_text :: "row \<Rightarrow> nat \<Rightarrow> string result" where
  "get_text r i = (case cell_at r i of Some (CText t) \<Rightarrow> Inr t | _ \<Rightarrow> Inl (Pglite (OtherPg ''column'')))"

definition get_opt_text :: "row \<Rightarrow> nat \<Rightarrow> string option result" where
  "get_opt_text r i =
     (case cell_at r i of
        Some (CText t) \<Rightarrow> Inr (Some t)
      | Some CNull \<Rightarrow> Inr None
      | _ \<Rightarrow> Inl (Pglite (OtherPg ''column'')))"

definition get_int :: "row \<Rightarrow> nat \<Rightarrow> int result" where
  "get_int r i = (case cell_at r i of Some (CInt n) \<Rightarrow> Inr n | _ \<Rightarrow> Inl (Pglite (OtherPg ''column'')))"

definition get_opt_int :: "row \<Rightarrow> nat \<Rightarrow> int option result" where
  "get_opt_int r i =
     (case cell_at r i of
        Some (CInt n) \<Rightarrow> Inr (Some n)
      | Some CNull \<Rightarrow> Inr None
      | _ \<Rightarrow> Inl (Pglite (OtherPg ''column'')))"

definition get_opt_bool :: "row \<Rightarrow> nat \<Rightarrow> bool option result" where
  "get_opt_bool r i =
     (case cell_at r i of
        Some (CBool b) \<Rightarrow> Inr (Some b)
      | Some CNull \<Rightarrow> Inr None
      | _ \<Rightarrow> Inl (Pglite (OtherPg ''column'')))"

text \<open>Evaluate a row reader on every row, stopping at the first failure.\<close>

fun read_rows :: "('r \<Rightarrow> 'a result) \<Rightarrow> 'r list \<Rightarrow> 'a list result" where
  "read_rows f [] = Inr []"
| "read_rows f (r # rs) = bind_res (f r) (\<lambda>a. bind_res (read_rows f rs) (\<lambda>as. Inr (a # as)))"

subsection \<open>Lemmas\<close>

lemma return_prog_apply [simp, prog_simps]: "return_prog a s = (Inr a, s)"
  by (simp add: return_prog_def)

lemma fail_prog_apply [simp, prog_simps]: "fail_prog e s = (Inl e, s)"
  by (simp add: fail_prog_def)

lemma lift_prog_apply [simp, prog_simps]: "lift_prog r s = (r, s)"
  by (simp add: lift_prog_def)

lemma bind_prog_Inl: "m s = (Inl e, s') \<Longrightarrow> bind_prog m f s = (Inl e, s')"
  by (simp add: bind_prog_def)

lemma bind_prog_Inr: "m s = (Inr a, s') \<Longrightarrow> bind_prog m f s = f a s'"
  by (simp add: bind_prog_def)

lemma bind_prog_ok: "fst (m s) = Inr a \<Longrightarrow> bind_prog m f s = f a (snd (m s))"
  by (cases "m s") (simp add: bind_prog_def)

lemma bind_prog_cases:
  assumes "bind_prog m f s = (r, t)"
  obtains e where "m s = (Inl e, t)" "r = Inl e"
        | a s' where "m s = (Inr a, s')" "f a s' = (r, t)"
  using assms by (cases "m s") (auto simp: bind_prog_def split: sum.splits)

lemma bind_prog_Inr_iff:
  "bind_prog m f s = (Inr b, t) \<longleftrightarrow> (\<exists>a s'. m s = (Inr a, s') \<and> f a s' = (Inr b, t))"
  by (cases "m s") (auto simp: bind_prog_def split: sum.splits)

lemma bind_prog_return [simp]: "bind_prog m return_prog = m"
  by (rule ext) (auto simp: bind_prog_def split: prod.splits sum.splits)

lemma map_err_prog_Inr_iff [simp]:
  "map_err_prog h m s = (Inr a, t) \<longleftrightarrow> m s = (Inr a, t)"
  by (cases "m s") (auto simp: map_err_prog_def)

lemma map_err_prog_snd [simp]: "snd (map_err_prog h m s) = snd (m s)"
  by (cases "m s") (auto simp: map_err_prog_def)

lemma issue_trace [simp]: "trace (snd (issue eng c s)) = trace s @ [c]"
  by (simp add: issue_def split: prod.splits)

lemma issue_traceD: "issue eng c s = (r, t) \<Longrightarrow> trace t = trace s @ [c]"
  by (metis issue_trace snd_conv)

lemma issue_ignored_traceD: "issue_ignored eng c s = (r, t) \<Longrightarrow> trace t = trace s @ [c]"
  by (auto simp: issue_ignored_def)

lemma in_tx_Inr_iff [simp]: "in_tx eng m s = (Inr a, t) \<longleftrightarrow> m s = (Inr a, t)"
  by (cases "m s") (auto simp: in_tx_def split: sum.splits)

lemma in_tx_cases:
  assumes "in_tx eng m s = (r, t)"
  obtains e s' where "m s = (Inl e, s')" "r = Inl e" "trace t = trace s' @ [DropTx]"
        | a where "m s = (Inr a, t)" "r = Inr a"
  using assms by (cases "m s") (auto simp: in_tx_def split: sum.splits)

lemma read_rows_length: "read_rows f rs = Inr as \<Longrightarrow> length as = length rs"
  by (induction rs arbitrary: as) (auto simp: bind_res_Inr_iff)

lemma read_rows_map: "read_rows f rs = Inr as \<longleftrightarrow> map f rs = map Inr as"
  by (induction rs arbitrary: as) (auto simp: bind_res_Inr_iff Cons_eq_map_conv)

subsection \<open>The commands a program issues\<close>

text \<open>
  \<open>issues m script\<close>: run from any state and against any engine behaviour, \<open>m\<close> issues exactly the
  commands of \<open>script\<close> when it succeeds and a prefix of them when it fails.  \<open>issues_tx\<close> also allows
  the failure to end with the transaction handle dropped.
\<close>

definition issues :: "('w, 'a) prog \<Rightarrow> db_cmd list \<Rightarrow> bool" where
  "issues m script \<longleftrightarrow>
     (\<forall>s. \<exists>cs. trace (snd (m s)) = trace s @ cs \<and>
        (if is_ok (fst (m s)) then cs = script else prefix cs script))"

definition aborted :: "db_cmd list \<Rightarrow> db_cmd list \<Rightarrow> bool" where
  "aborted script cs \<longleftrightarrow> (\<exists>p. prefix p script \<and> (cs = p \<or> cs = p @ [DropTx]))"

definition issues_tx :: "('w, 'a) prog \<Rightarrow> db_cmd list \<Rightarrow> bool" where
  "issues_tx m script \<longleftrightarrow>
     (\<forall>s. \<exists>cs. trace (snd (m s)) = trace s @ cs \<and>
        (if is_ok (fst (m s)) then cs = script else aborted script cs))"

lemma issues_issue: "issues (issue eng c) [c]"
  by (simp add: issues_def)

lemma issues_return: "issues (return_prog a) []"
  by (simp add: issues_def)

lemma issues_lift: "issues (lift_prog r) []"
  by (simp add: issues_def)

lemma issues_fail: "issues (fail_prog e) script"
  by (simp add: issues_def)

lemma issues_bind:
  assumes "issues m xs" and "\<And>a. issues (f a) ys"
  shows "issues (bind_prog m f) (xs @ ys)"
  unfolding issues_def
proof
  fix s
  obtain r s' where m: "m s = (r, s')" by (cases "m s")
  from assms(1) m obtain cs where cs: "trace s' = trace s @ cs" "if is_ok r then cs = xs else prefix cs xs"
    unfolding issues_def by (metis fst_conv snd_conv)
  show "\<exists>cs. trace (snd (bind_prog m f s)) = trace s @ cs \<and>
      (if is_ok (fst (bind_prog m f s)) then cs = xs @ ys else prefix cs (xs @ ys))"
  proof (cases r)
    case (Inl e)
    then show ?thesis using m cs by (intro exI [of _ cs]) (simp add: bind_prog_def)
  next
    case (Inr a)
    from assms(2) [of a] obtain ds where "trace (snd (f a s')) = trace s' @ ds"
        "if is_ok (fst (f a s')) then ds = ys else prefix ds ys"
      unfolding issues_def by blast
    then show ?thesis using m cs Inr by (intro exI [of _ "cs @ ds"]) (simp add: bind_prog_def)
  qed
qed

lemma issues_txI: "issues m script \<Longrightarrow> issues_tx m script"
  unfolding issues_def issues_tx_def aborted_def by metis

lemma aborted_append: "aborted xs cs \<Longrightarrow> aborted (xs @ ys) cs"
  unfolding aborted_def by (metis prefix_prefix)

lemma aborted_after: "aborted ys cs \<Longrightarrow> aborted (xs @ ys) (xs @ cs)"
  unfolding aborted_def by (metis append_assoc same_prefix_prefix)

lemma issues_tx_in_tx:
  assumes "issues m script" shows "issues_tx (in_tx eng m) script"
  unfolding issues_tx_def
proof
  fix s
  obtain r s' where m: "m s = (r, s')" by (cases "m s")
  from assms m obtain cs where cs: "trace s' = trace s @ cs" "if is_ok r then cs = script else prefix cs script"
    unfolding issues_def by (metis fst_conv snd_conv)
  show "\<exists>cs. trace (snd (in_tx eng m s)) = trace s @ cs \<and>
      (if is_ok (fst (in_tx eng m s)) then cs = script else aborted script cs)"
  proof (cases r)
    case (Inl e)
    then show ?thesis using m cs by (intro exI [of _ "cs @ [DropTx]"]) (auto simp: in_tx_def aborted_def)
  next
    case (Inr a)
    then show ?thesis using m cs by (simp add: in_tx_def)
  qed
qed

lemma issues_tx_bind:
  assumes "issues_tx m xs" and "\<And>a. issues_tx (f a) ys"
  shows "issues_tx (bind_prog m f) (xs @ ys)"
  unfolding issues_tx_def
proof
  fix s
  obtain r s' where m: "m s = (r, s')" by (cases "m s")
  from assms(1) m obtain cs where cs: "trace s' = trace s @ cs" "if is_ok r then cs = xs else aborted xs cs"
    unfolding issues_tx_def by (metis fst_conv snd_conv)
  show "\<exists>cs. trace (snd (bind_prog m f s)) = trace s @ cs \<and>
      (if is_ok (fst (bind_prog m f s)) then cs = xs @ ys else aborted (xs @ ys) cs)"
  proof (cases r)
    case (Inl e)
    then show ?thesis using m cs by (intro exI [of _ cs]) (simp add: bind_prog_def aborted_append)
  next
    case (Inr a)
    from assms(2) [of a] obtain ds where "trace (snd (f a s')) = trace s' @ ds"
        "if is_ok (fst (f a s')) then ds = ys else aborted ys ds"
      unfolding issues_tx_def by blast
    then show ?thesis using m cs Inr by (intro exI [of _ "cs @ ds"]) (simp add: bind_prog_def aborted_after)
  qed
qed

lemma issues_txE:
  assumes "issues_tx m script" and "m s = (r, t)"
  obtains cs where "trace t = trace s @ cs" "is_ok r \<Longrightarrow> cs = script" "\<not> is_ok r \<Longrightarrow> aborted script cs"
  using assms unfolding issues_tx_def by (metis fst_conv snd_conv)

lemmas issues_rules = issues_issue issues_return issues_lift issues_fail

subsection \<open>What a program may have issued\<close>

text \<open>
  \<open>yields m Q\<close>: whatever the engine answers, the result of \<open>m\<close> and the commands it issued satisfy
  \<open>Q\<close>.  The rules are backward rules, one per way of composing programs.
\<close>

definition yields :: "('w, 'a) prog \<Rightarrow> ('a result \<Rightarrow> db_cmd list \<Rightarrow> bool) \<Rightarrow> bool" where
  "yields m Q \<longleftrightarrow> (\<forall>s. \<exists>cs. trace (snd (m s)) = trace s @ cs \<and> Q (fst (m s)) cs)"

lemma yieldsD: "yields m Q \<Longrightarrow> m s = (r, t) \<Longrightarrow> \<exists>cs. trace t = trace s @ cs \<and> Q r cs"
  unfolding yields_def by (metis fst_conv snd_conv)

lemma yields_weaken: "yields m P \<Longrightarrow> (\<And>r cs. P r cs \<Longrightarrow> Q r cs) \<Longrightarrow> yields m Q"
  unfolding yields_def by metis

lemma yields_return: "Q (Inr a) [] \<Longrightarrow> yields (return_prog a) Q"
  by (simp add: yields_def)

lemma yields_fail: "Q (Inl e) [] \<Longrightarrow> yields (fail_prog e) Q"
  by (simp add: yields_def)

lemma yields_lift: "Q r [] \<Longrightarrow> yields (lift_prog r) Q"
  by (simp add: yields_def)

lemma yields_issue:
  assumes "\<And>e. Q (Inl e) [c]" and "\<And>rows w w'. eng c w = (Inr rows, w') \<Longrightarrow> Q (Inr rows) [c]"
  shows "yields (issue eng c) Q"
  unfolding yields_def
proof
  fix s
  show "\<exists>cs. trace (snd (issue eng c s)) = trace s @ cs \<and> Q (fst (issue eng c s)) cs"
    by (cases "eng c (world s)"; cases "fst (eng c (world s))") (auto simp: issue_def assms)
qed

lemma yields_issue_ignored: "Q (Inr ()) [c] \<Longrightarrow> yields (issue_ignored eng c) Q"
  by (simp add: yields_def issue_ignored_def)

lemma yields_bind:
  assumes "yields m (\<lambda>r cs. case r of Inl e \<Rightarrow> Q (Inl e) cs | Inr a \<Rightarrow> yields (f a) (\<lambda>r' ds. Q r' (cs @ ds)))"
  shows "yields (bind_prog m f) Q"
  unfolding yields_def
proof
  fix s
  obtain r s' where m: "m s = (r, s')" by (cases "m s")
  from yieldsD [OF assms m] obtain cs where cs: "trace s' = trace s @ cs"
      "case r of Inl e \<Rightarrow> Q (Inl e) cs | Inr a \<Rightarrow> yields (f a) (\<lambda>r' ds. Q r' (cs @ ds))" by blast
  show "\<exists>cs. trace (snd (bind_prog m f s)) = trace s @ cs \<and> Q (fst (bind_prog m f s)) cs"
  proof (cases r)
    case (Inl e)
    then show ?thesis using m cs by (auto simp: bind_prog_def)
  next
    case (Inr a)
    then have "yields (f a) (\<lambda>r' ds. Q r' (cs @ ds))" using cs by simp
    then obtain ds where "trace (snd (f a s')) = trace s' @ ds" "Q (fst (f a s')) (cs @ ds)" unfolding yields_def by blast
    then show ?thesis using m cs(1) Inr by (intro exI [of _ "cs @ ds"]) (simp add: bind_prog_def)
  qed
qed

lemma yields_perform:
  assumes "\<And>e. Q (Inl (on_error e)) [Host a]" and "\<And>rows. Q (Inr rows) [Host a]"
  shows "yields (perform hst on_error a) Q"
  unfolding yields_def
proof
  fix s
  show "\<exists>cs. trace (snd (perform hst on_error a s)) = trace s @ cs \<and> Q (fst (perform hst on_error a s)) cs"
    by (cases "hst a (world s)"; cases "fst (hst a (world s))") (auto simp: perform_def assms)
qed

lemma yields_perform_ignored: "Q (Inr ()) [Host a] \<Longrightarrow> yields (perform_ignored hst a) Q"
  by (simp add: yields_def perform_ignored_def perform_def split: prod.splits)

lemma yields_acquire: "Q (Inr ()) [Acquired r] \<Longrightarrow> yields (acquire r) Q"
  by (simp add: yields_def acquire_def)

lemma yields_try: "yields m (\<lambda>r cs. Q (Inr r) cs) \<Longrightarrow> yields (try_prog m) Q"
  unfolding yields_def try_prog_def by (auto split: prod.splits) (metis fst_conv snd_conv)

lemma yields_map_err: "yields m (\<lambda>r cs. Q (map_err h r) cs) \<Longrightarrow> yields (map_err_prog h m) Q"
  unfolding yields_def map_err_prog_def by (auto split: prod.splits) (metis fst_conv snd_conv)

lemmas yields_rules = yields_bind yields_return yields_fail yields_lift yields_issue yields_issue_ignored
  yields_perform yields_perform_ignored yields_acquire yields_try yields_map_err

lemma still_held_simps [simp]:
  "still_held [] H = H" "still_held (c # cs) H = still_held cs (hold H c)" "still_held (cs @ ds) H = still_held ds (still_held cs H)"
  by (simp_all add: still_held_def)

subsection \<open>What a program leaves held\<close>

text \<open>
  \<open>leaves m H Q\<close>: started with the resources \<open>H\<close> out, \<open>m\<close> ends with a result and a set of resources
  that satisfy \<open>Q\<close>, whatever the engine and the host answer.
\<close>

definition leaves :: "('w, 'a) prog \<Rightarrow> resource set \<Rightarrow> ('a result \<Rightarrow> resource set \<Rightarrow> bool) \<Rightarrow> bool" where
  "leaves m H Q \<longleftrightarrow> yields m (\<lambda>r cs. Q r (still_held cs H))"

lemma leavesD: "leaves m H Q \<Longrightarrow> m s = (r, t) \<Longrightarrow> \<exists>cs. trace t = trace s @ cs \<and> Q r (still_held cs H)"
  unfolding leaves_def by (rule yieldsD)

lemma leaves_weaken: "leaves m H P \<Longrightarrow> (\<And>r G. P r G \<Longrightarrow> Q r G) \<Longrightarrow> leaves m H Q"
  unfolding leaves_def by (erule yields_weaken) simp

lemma leaves_bind:
  assumes "leaves m H P" and "\<And>e G. P (Inl e) G \<Longrightarrow> Q (Inl e) G" and "\<And>a G. P (Inr a) G \<Longrightarrow> leaves (f a) G Q"
  shows "leaves (bind_prog m f) H Q"
  unfolding leaves_def
proof (rule yields_bind, rule yields_weaken)
  show "yields m (\<lambda>r cs. P r (still_held cs H))" using assms(1) by (simp add: leaves_def)
  fix r cs
  assume "P r (still_held cs H)"
  then show "case r of Inl e \<Rightarrow> Q (Inl e) (still_held cs H) | Inr a \<Rightarrow> yields (f a) (\<lambda>r' ds. Q r' (still_held (cs @ ds) H))"
    using assms(2,3) by (cases r) (simp_all add: leaves_def)
qed

text \<open>Programs that hand out and give back nothing.\<close>

definition neutral :: "('w, 'a) prog \<Rightarrow> bool" where
  "neutral m \<longleftrightarrow> (\<forall>H. leaves m H (\<lambda>r G. G = H))"

lemma neutralD: "neutral m \<Longrightarrow> leaves m H (\<lambda>r G. G = H)"
  by (simp add: neutral_def)

lemma neutral_return [simp, intro]: "neutral (return_prog a)"
  by (simp add: neutral_def leaves_def yields_return)

lemma neutral_fail [simp, intro]: "neutral (fail_prog e)"
  by (simp add: neutral_def leaves_def yields_fail)

lemma neutral_lift [simp, intro]: "neutral (lift_prog r)"
  by (simp add: neutral_def leaves_def yields_lift)

lemma neutral_bind [intro]: "neutral m \<Longrightarrow> (\<And>a. neutral (f a)) \<Longrightarrow> neutral (bind_prog m f)"
  unfolding neutral_def by (blast intro: leaves_bind)

lemma leaves_issue: "leaves (issue eng c) H (\<lambda>r G. G = hold H c)"
  by (simp add: leaves_def yields_def)

lemma leaves_issue_ignored: "leaves (issue_ignored eng c) H (\<lambda>r G. is_ok r \<and> G = hold H c)"
  by (simp add: leaves_def yields_def issue_ignored_def)

lemma leaves_perform: "leaves (perform hst on_error a) H (\<lambda>r G. G = hold H (Host a))"
  unfolding leaves_def by (rule yields_perform) simp_all

lemma leaves_perform_ignored: "leaves (perform_ignored hst a) H (\<lambda>r G. is_ok r \<and> G = hold H (Host a))"
  unfolding leaves_def by (rule yields_perform_ignored) simp

lemma leaves_acquire: "leaves (acquire x) H (\<lambda>r G. is_ok r \<and> G = insert x H)"
  by (simp add: leaves_def yields_acquire)

lemma leaves_try: "leaves m H P \<Longrightarrow> leaves (try_prog m) H (\<lambda>r G. \<exists>r'. r = Inr r' \<and> P r' G)"
  unfolding leaves_def by (rule yields_try) simp

lemma leaves_map_err: "leaves m H (\<lambda>r G. Q (map_err h r) G) \<Longrightarrow> leaves (map_err_prog h m) H Q"
  unfolding leaves_def by (rule yields_map_err)

lemma neutral_issue: "(\<And>H. hold H c = H) \<Longrightarrow> neutral (issue eng c)"
  unfolding neutral_def using leaves_issue [of eng c] by (auto intro: leaves_weaken)

lemma neutral_perform: "(\<And>H. hold H (Host a) = H) \<Longrightarrow> neutral (perform hst on_error a)"
  unfolding neutral_def using leaves_perform [of hst on_error a] by (auto intro: leaves_weaken)

lemma leaves_return: "Q (Inr a) H \<Longrightarrow> leaves (return_prog a) H Q"
  by (simp add: leaves_def yields_return)

lemma leaves_fail: "Q (Inl e) H \<Longrightarrow> leaves (fail_prog e) H Q"
  by (simp add: leaves_def yields_fail)

lemma leaves_neutral: "neutral m \<Longrightarrow> (\<And>r. Q r H) \<Longrightarrow> leaves m H Q"
  by (rule leaves_weaken [OF neutralD]) auto

text \<open>Sequencing after the basic programs.\<close>

lemma leaves_neutral_then:
  "neutral m \<Longrightarrow> (\<And>e. Q (Inl e) H) \<Longrightarrow> (\<And>a. leaves (f a) H Q) \<Longrightarrow> leaves (bind_prog m f) H Q"
  by (rule leaves_bind [OF neutralD]) auto

lemma leaves_issue_then:
  "(\<And>e. Q (Inl e) (hold H c)) \<Longrightarrow> (\<And>a. leaves (f a) (hold H c) Q) \<Longrightarrow> leaves (bind_prog (issue eng c) f) H Q"
  by (rule leaves_bind [OF leaves_issue]) auto

lemma leaves_issue_ignored_then:
  "leaves (f ()) (hold H c) Q \<Longrightarrow> leaves (bind_prog (issue_ignored eng c) f) H Q"
  by (rule leaves_bind [OF leaves_issue_ignored]) auto

lemma leaves_perform_then:
  "(\<And>e. Q (Inl e) (hold H (Host a))) \<Longrightarrow> (\<And>rows. leaves (f rows) (hold H (Host a)) Q) \<Longrightarrow>
   leaves (bind_prog (perform hst on_error a) f) H Q"
  by (rule leaves_bind [OF leaves_perform]) auto

lemma leaves_perform_ignored_then:
  "leaves (f ()) (hold H (Host a)) Q \<Longrightarrow> leaves (bind_prog (perform_ignored hst a) f) H Q"
  by (rule leaves_bind [OF leaves_perform_ignored]) auto

lemma leaves_acquire_then: "leaves (f ()) (insert x H) Q \<Longrightarrow> leaves (bind_prog (acquire x) f) H Q"
  by (rule leaves_bind [OF leaves_acquire]) auto

lemma leaves_try_then:
  "leaves m H (\<lambda>r G. leaves (f r) G Q) \<Longrightarrow> leaves (bind_prog (try_prog m) f) H Q"
  by (rule leaves_bind [OF leaves_try]) auto

lemmas leaves_rules = leaves_return leaves_fail leaves_issue_then leaves_issue_ignored_then leaves_perform_then
  leaves_perform_ignored_then leaves_acquire_then leaves_try_then

end
