(* ===== verification/Cache.thy ===== *)
theory Cache
  imports Engine
begin

text \<open>
  \<open>src/capability/cache.rs\<close>: the result cache.  The bounded concurrent map (\<open>moka\<close>) is a package,
  the parameter record \<open>moka\<close> over a state of any type.  What the program relies on is
  \<open>moka_ok\<close>: a lookup returns only what was inserted last under its key, and entries may vanish at
  any time.  The lemmas show that every result ever returned is one that was computed for its key.
\<close>

record cached_result =
  etag :: string
  c_body :: string

record 'm moka =
  m_build :: "u64 \<Rightarrow> (string \<Rightarrow> cached_result \<Rightarrow> u32) \<Rightarrow> 'm"
  m_get :: "string \<Rightarrow> 'm \<Rightarrow> cached_result option \<times> 'm"
  m_insert :: "string \<Rightarrow> cached_result \<Rightarrow> 'm \<Rightarrow> 'm"

definition weigher :: "string \<Rightarrow> cached_result \<Rightarrow> u32" where
  "weigher key v = of_nat (min (length (c_body v)) (2 ^ 32 - 1))"

definition query_cache_new :: "'m moka \<Rightarrow> u64 \<Rightarrow> 'm" where
  "query_cache_new mk max_bytes = m_build mk max_bytes weigher"

definition query_cache_get :: "'m moka \<Rightarrow> string \<Rightarrow> 'm \<Rightarrow> cached_result option \<times> 'm" where
  "query_cache_get mk key m = m_get mk key m"

text \<open>The computation is a program over the engine; the cache state is threaded beside it.\<close>

definition get_or_compute ::
  "'m moka \<Rightarrow> string \<Rightarrow> ('w, string) prog \<Rightarrow> 'm \<times> 'w io \<Rightarrow> cached_result result \<times> 'm \<times> 'w io" where
  "get_or_compute mk key compute = (\<lambda>(m, s).
     case m_get mk key m of
       (Some hit, m') \<Rightarrow> (Inr hit, m', s)
     | (None, m') \<Rightarrow>
         (case compute s of
            (Inl e, s') \<Rightarrow> (Inl e, m', s')
          | (Inr t, s') \<Rightarrow>
              (let result = \<lparr>etag = key, c_body = t\<rparr>
               in (Inr result, m_insert mk key result m', s'))))"

subsection \<open>The documented behaviour of the map\<close>

definition moka_ok :: "'m moka \<Rightarrow> ('m \<Rightarrow> (string \<times> cached_result) set) \<Rightarrow> bool" where
  "moka_ok mk held \<longleftrightarrow>
     (\<forall>cap wt. held (m_build mk cap wt) = {}) \<and>
     (\<forall>k m r m'. m_get mk k m = (r, m') \<longrightarrow> held m' \<subseteq> held m \<and> (\<forall>v. r = Some v \<longrightarrow> (k, v) \<in> held m)) \<and>
     (\<forall>k v m. held (m_insert mk k v m) \<subseteq> insert (k, v) {e \<in> held m. fst e \<noteq> k})"

text \<open>Every entry carries its key as the etag and a body that \<open>P\<close> relates to the key.\<close>

definition cache_inv :: "('m \<Rightarrow> (string \<times> cached_result) set) \<Rightarrow> (string \<Rightarrow> string \<Rightarrow> bool) \<Rightarrow> 'm \<Rightarrow> bool" where
  "cache_inv held P m \<longleftrightarrow> (\<forall>(k, v) \<in> held m. etag v = k \<and> P k (c_body v))"

lemma cache_inv_new: "moka_ok mk held \<Longrightarrow> cache_inv held P (query_cache_new mk max_bytes)"
  by (simp add: cache_inv_def moka_ok_def query_cache_new_def)

lemma cache_inv_get:
  assumes "moka_ok mk held" and "cache_inv held P m" and "m_get mk k m = (r, m')"
  shows "cache_inv held P m' \<and> (\<forall>v. r = Some v \<longrightarrow> etag v = k \<and> P k (c_body v))"
proof -
  have "held m' \<subseteq> held m \<and> (\<forall>v. r = Some v \<longrightarrow> (k, v) \<in> held m)"
    using assms(1,3) unfolding moka_ok_def by blast
  then show ?thesis using assms(2) unfolding cache_inv_def by blast
qed

lemma cache_inv_insert:
  assumes "moka_ok mk held" and "cache_inv held P m" and "P k t"
  shows "cache_inv held P (m_insert mk k \<lparr>etag = k, c_body = t\<rparr> m)"
proof -
  have "held (m_insert mk k \<lparr>etag = k, c_body = t\<rparr> m) \<subseteq> insert (k, \<lparr>etag = k, c_body = t\<rparr>) (held m)"
    using assms(1) unfolding moka_ok_def by blast
  then show ?thesis using assms(2,3) unfolding cache_inv_def by fastforce
qed

lemma get_or_compute_inv:
  assumes "moka_ok mk held" and "cache_inv held P m"
    and "\<And>t s'. compute s = (Inr t, s') \<Longrightarrow> P key t"
    and "get_or_compute mk key compute (m, s) = (r, m', s')"
  shows "cache_inv held P m' \<and> (\<forall>v. r = Inr v \<longrightarrow> etag v = key \<and> P key (c_body v))"
proof -
  obtain hit m1 where g: "m_get mk key m = (hit, m1)" by (cases "m_get mk key m")
  note inv = cache_inv_get [OF assms(1,2) g]
  show ?thesis
  proof (cases hit)
    case (Some v)
    then show ?thesis using assms(4) g inv by (auto simp: get_or_compute_def)
  next
    case None
    obtain q s1 where c: "compute s = (q, s1)" by (cases "compute s")
    show ?thesis
      using assms(3) [of _ s1] assms(4) g None c inv cache_inv_insert [OF assms(1), of P m1 key]
      by (cases q) (auto simp: get_or_compute_def Let_def)
  qed
qed

lemma get_or_compute_io:
  assumes "get_or_compute mk key compute (m, s) = (r, m', t)"
  shows "t = s \<or> (\<exists>q. compute s = (q, t) \<and> (\<forall>e. r = Inl e \<longleftrightarrow> q = Inl e))"
  using assms by (auto simp: get_or_compute_def Let_def split: prod.splits option.splits sum.splits)

text \<open>A map without eviction, for concrete instances.\<close>

definition alist_moka :: "(string \<times> cached_result) list moka" where
  "alist_moka = \<lparr>m_build = (\<lambda>_ _. []), m_get = (\<lambda>k m. (map_of m k, m)), m_insert = AList.update\<rparr>"

lemma alist_moka_ok: "moka_ok alist_moka (\<lambda>m. {(k, v). map_of m k = Some v})"
  by (auto simp: moka_ok_def alist_moka_def split: if_splits)

subsection \<open>What the cache returns\<close>

text \<open>
  Whatever is computed for a key stays tied to it.  If every stored body satisfies a relation to
  its key and every computation for the key produces a body that does, then the result of
  \<open>get_or_compute\<close>, hit or miss, has the key as its etag and satisfies the relation, the store
  keeps the invariant, and a failed computation stores nothing.
\<close>

lemma cache_returns_what_was_computed:
  assumes "moka_ok mk held" and "cache_inv held P m"
    and "\<forall>t s'. compute s = (Inr t, s') \<longrightarrow> P key t"
    and "get_or_compute mk key compute (m, s) = (r, m', s')"
  shows "cache_inv held P m' \<and>
         (case r of Inr v \<Rightarrow> etag v = key \<and> P key (c_body v) | Inl e \<Rightarrow> held m' \<subseteq> held m)"
proof -
  have "\<forall>e. r = Inl e \<longrightarrow> held m' \<subseteq> held m"
    using assms(1,4) unfolding moka_ok_def
    by (auto simp: get_or_compute_def Let_def split: prod.splits option.splits sum.splits)
  then show ?thesis
    using get_or_compute_inv [OF assms(1,2) _ assms(4)] assms(3) by (cases r) auto
qed

text \<open>
  The weight of an entry is the length of its body, capped at the largest \<open>u32\<close>; the cast never
  wraps.
\<close>

lemma weigher_saturates: "unat (weigher key v) = min (length (c_body v)) (2 ^ 32 - 1)"
proof -
  have "min (length (c_body v)) (2 ^ 32 - 1) < 2 ^ LENGTH(32)" by simp
  then show ?thesis unfolding weigher_def unat_of_nat by (rule mod_less)
qed

end
