(* ===== verification/Sqlast.thy ===== *)
theory Sqlast
  imports Prelude
begin

text \<open>
  The part of the \<open>sqlparser\<close> syntax tree that the program matches on.  The parser, the tree
  visitors and the printer are code of that package: they are the fields of the parameter record
  \<open>sql_front\<close>.  A constructor exists for every variant a \<open>match\<close> of the program names; all others
  are the \<open>Other\<close> constructors.  What a node contains beyond the matched parts is an opaque token,
  so that the visitors may answer differently on trees that agree on the matched parts.
\<close>

datatype sql_value =
    VNumber string bool
  | SingleQuotedString string
  | Boolean bool
  | Placeholder string
  | OtherValue nat

datatype binary_operator = And | Eq | OtherOp nat

text \<open>Identifiers are carried by their \<open>value\<close>; a function by the text of its name.\<close>

datatype expr =
    Identifier string
  | CompoundIdentifier "string list"
  | Value sql_value
  | BinaryOp expr binary_operator expr
  | Nested expr
  | Function string
  | OtherExpr nat

record select =
  into_present :: bool
  selection :: "expr option"

datatype set_expr = Select select | OtherSetExpr nat

record sql_query =
  with_ctes :: "string list option"
  query_body :: set_expr
  locks :: "nat list"
  query_rest :: nat

datatype select_item =
    UnnamedExpr expr
  | ExprWithAlias expr string
  | QualifiedWildcard nat
  | Wildcard nat

datatype object_type = ObjectTable | ObjectOther nat

datatype alter_table_operation = DropColumn nat | OtherAlter nat

datatype statement =
    SQuery sql_query
  | SInsert "select_item list option"
  | SUpdate "select_item list option"
  | SDelete "select_item list option"
  | SCreateTable | SAlterTable "alter_table_operation list" | SCreateIndex | SCreateView
  | SCreateSchema | SCreateFunction | STruncate | SDrop object_type
  | SStartTransaction | SCommit | SRollback | SSavepoint | SReleaseSavepoint
  | SSetTransaction | SSetVariable | SSetTimeZone | SSetNames | SSetNamesDefault | SSetRole
  | SListen | SNotify | SDiscard | SDeallocate | SPrepare | SExecute | SCopy
  | SOther nat

record sql_front =
  parse_sql :: "string \<Rightarrow> string + statement list"
  visit_expressions :: "statement \<Rightarrow> expr list"
  visit_relations :: "statement \<Rightarrow> string list list"
  statement_text :: "statement \<Rightarrow> string"
  object_text :: "object_type \<Rightarrow> string"

end
