(* ===== verification/Classify.thy ===== *)
theory Classify
  imports Sqlast Error
begin

text \<open>
  \<open>src/capability/classify.rs\<close>: the decision whether a SQL text is one cacheable read, and the
  extraction of what the cache needs from it (tables, equality filters, fingerprint).  The hasher
  of the standard library is the parameter \<open>finish\<close>, a function of the bytes written to it.

  The lemmas show what an accepted query satisfies and that nothing else is accepted, that the
  explicit-stack loop over the \<open>WHERE\<close> clause collects exactly the equalities of its top-level
  conjunction, and that the bytes hashed into the fingerprint determine the query and its
  parameters.
\<close>

record cacheable_query =
  fingerprint :: u64
  q_tables :: "string list"
  eq_filters :: "(string \<times> string) list"
  q_sql :: string
  q_params :: "json list"

definition SIDE_EFFECTING :: "string list" where
  "SIDE_EFFECTING =
     [''nextval'', ''setval'', ''pg_advisory_lock'', ''pg_advisory_xact_lock'',
      ''pg_try_advisory_lock'', ''pg_advisory_unlock'']"

definition VOLATILE_READ :: "string list" where
  "VOLATILE_READ =
     [''now'', ''random'', ''random_normal'', ''clock_timestamp'', ''timeofday'',
      ''statement_timestamp'', ''gen_random_uuid'', ''uuid_generate_v4'']"

definition bare_lower :: "string \<Rightarrow> string" where
  "bare_lower name = to_ascii_lowercase (after_last (CHR ''.'') name)"

record read_classifier =
  replicated :: "string set"

definition read_classifier_new :: "string list \<Rightarrow> read_classifier" where
  "read_classifier_new ts = \<lparr>replicated = set (map bare_lower ts)\<rparr>"

subsection \<open>Values of equality filters\<close>

text \<open>\<open>str::parse::<usize>\<close>: an optional plus sign, then digits, within 64 bits.\<close>

definition digits_value :: "string \<Rightarrow> nat" where
  "digits_value s = foldl (\<lambda>a c. a * 10 + (of_char c - 48)) 0 s"

definition parse_unsigned :: "nat \<Rightarrow> string \<Rightarrow> nat option" where
  "parse_unsigned bound s =
     (let ds = (case s of c # cs \<Rightarrow> if c = CHR ''+'' then cs else s | [] \<Rightarrow> [])
      in if ds \<noteq> [] \<and> (\<forall>c \<in> set ds. is_ascii_digit c) \<and> digits_value ds < bound
         then Some (digits_value ds) else None)"

fun literal_value :: "expr \<Rightarrow> string option" where
  "literal_value (Value (VNumber number _)) = Some number"
| "literal_value (Value (SingleQuotedString text)) = Some text"
| "literal_value (Value (Boolean flag)) = Some (if flag then ''true'' else ''false'')"
| "literal_value _ = None"

fun bound_text :: "json_printer \<Rightarrow> json \<Rightarrow> string option" where
  "bound_text json_text (Number number) =
     (if is_i64 number \<or> is_u64 number then Some (json_text (Number number)) else None)"
| "bound_text json_text (String text) = Some text"
| "bound_text json_text _ = None"

fun placeholder_value :: "json_printer \<Rightarrow> expr \<Rightarrow> json list \<Rightarrow> string option" where
  "placeholder_value json_text (Value (Placeholder text)) params =
     Option.bind (strip_prefix ''$'' text) (\<lambda>digits.
     Option.bind (parse_unsigned (2 ^ 64) digits) (\<lambda>index.
       if index = 0 then None
       else if index - 1 < length params then bound_text json_text (params ! (index - 1))
       else None))"
| "placeholder_value json_text _ params = None"

definition filter_value :: "json_printer \<Rightarrow> expr \<Rightarrow> json list \<Rightarrow> string option" where
  "filter_value json_text e params =
     (case literal_value e of Some v \<Rightarrow> Some v | None \<Rightarrow> placeholder_value json_text e params)"

fun ident_name :: "expr \<Rightarrow> string option" where
  "ident_name (Identifier ident) = Some (to_ascii_lowercase ident)"
| "ident_name (CompoundIdentifier parts) =
     (if parts = [] then None else Some (to_ascii_lowercase (last parts)))"
| "ident_name _ = None"

subsection \<open>The stack loop over the selection\<close>

text \<open>What one equality contributes: the column on the left if the right is a value, or conversely.\<close>

definition eq_filter :: "json_printer \<Rightarrow> json list \<Rightarrow> expr \<Rightarrow> expr \<Rightarrow> (string \<times> string) list" where
  "eq_filter json_text params left right =
     (case (ident_name left, filter_value json_text right params) of
        (Some column, Some value) \<Rightarrow> [(column, value)]
      | _ \<Rightarrow> (case (ident_name right, filter_value json_text left params) of
                (Some column, Some value) \<Rightarrow> [(column, value)]
              | _ \<Rightarrow> []))"

text \<open>The head of the list is the top of the stack, so the operand pushed last is popped first.\<close>

function collect_loop ::
  "json_printer \<Rightarrow> json list \<Rightarrow> expr list \<Rightarrow> (string \<times> string) list \<Rightarrow> (string \<times> string) list" where
  "collect_loop json_text params [] out = out"
| "collect_loop json_text params (e # stack) out =
     (case e of
        BinaryOp left And right \<Rightarrow> collect_loop json_text params (right # left # stack) out
      | BinaryOp left Eq right \<Rightarrow>
          collect_loop json_text params stack (out @ eq_filter json_text params left right)
      | Nested inner \<Rightarrow> collect_loop json_text params (inner # stack) out
      | _ \<Rightarrow> collect_loop json_text params stack out)"
  by pat_completeness auto
termination
  by (relation "measure (\<lambda>(_, _, stack, _). sum_list (map (\<lambda>e. 2 * size e + 1) stack))") auto

definition collect_eq_filters :: "json_printer \<Rightarrow> expr \<Rightarrow> json list \<Rightarrow> (string \<times> string) list" where
  "collect_eq_filters json_text root params = collect_loop json_text params [root] []"

subsection \<open>Classification\<close>

definition select_of :: "sql_query \<Rightarrow> select option" where
  "select_of q = (case query_body q of Select s \<Rightarrow> Some s | OtherSetExpr _ \<Rightarrow> None)"

definition cte_names :: "sql_query \<Rightarrow> string set" where
  "cte_names q = (case with_ctes q of None \<Rightarrow> {} | Some ctes \<Rightarrow> set (map bare_lower ctes))"

definition function_names :: "expr list \<Rightarrow> string list" where
  "function_names es =
     List.map_filter (\<lambda>e. case e of Function name \<Rightarrow> Some (bare_lower name) | _ \<Rightarrow> None) es"

text \<open>The visitor closure over the relations: the last identifier, once per name, CTE names left out.\<close>

definition relation_name :: "string list \<Rightarrow> string" where
  "relation_name name = (if name = [] then [] else to_ascii_lowercase (last name))"

fun collect_tables :: "string set \<Rightarrow> string list list \<Rightarrow> string list \<Rightarrow> string list" where
  "collect_tables ctes [] ts = ts"
| "collect_tables ctes (name # names) ts =
     (let table = relation_name name
      in collect_tables ctes names (if table \<notin> ctes \<and> table \<notin> set ts then ts @ [table] else ts))"

text \<open>\<open>str::hash\<close> writes the bytes of the string and a terminating \<open>0xff\<close>.\<close>

definition hash_stream :: "string list \<Rightarrow> string" where
  "hash_stream texts = concat (map (\<lambda>t. t @ [CHR 0xFF]) texts)"

definition rejected :: "string \<Rightarrow> 'a result" where
  "rejected m = Inl (Rejected m)"

definition classify ::
  "sql_front \<Rightarrow> json_printer \<Rightarrow> (string \<Rightarrow> u64) \<Rightarrow> read_classifier \<Rightarrow> string \<Rightarrow> json list \<Rightarrow>
   cacheable_query result" where
  "classify front json_text finish cl sql params =
     (case parse_sql front sql of
        Inl _ \<Rightarrow> rejected ''could not parse as a read-only SELECT; this server caches read queries only''
      | Inr [statement] \<Rightarrow>
          (case statement of
             SQuery query \<Rightarrow>
               if locks query \<noteq> [] then
                 rejected ''locking reads (FOR UPDATE / FOR SHARE) are not supported on a read-only cache''
               else if (case select_of query of Some s \<Rightarrow> into_present s | None \<Rightarrow> False) then
                 rejected ''SELECT INTO is not supported because it writes''
               else
                 (let functions = function_names (visit_expressions front statement)
                  in case List.find (\<lambda>f. f \<in> set SIDE_EFFECTING) functions of
                       Some name \<Rightarrow> rejected (''function `'' @ name @ ''` has side effects and cannot be cached'')
                     | None \<Rightarrow>
                        (case List.find (\<lambda>f. f \<in> set VOLATILE_READ) functions of
                           Some name \<Rightarrow> rejected (''non-deterministic function `'' @ name @ ''` cannot be cached or kept realtime'')
                         | None \<Rightarrow>
                            (let ts = collect_tables (cte_names query) (visit_relations front statement) []
                             in case List.find (\<lambda>t. t \<notin> replicated cl) ts of
                                  Some table \<Rightarrow> rejected (''table `'' @ table @ ''` is not available in this cache (not replicated)'')
                                | None \<Rightarrow>
                                    Inr \<lparr>fingerprint = finish (hash_stream (statement_text front statement # map json_text params)),
                                         q_tables = ts,
                                         eq_filters =
                                           (case select_of query of
                                              Some s \<Rightarrow> (case selection s of
                                                           Some sel \<Rightarrow> collect_eq_filters json_text sel params
                                                         | None \<Rightarrow> [])
                                            | None \<Rightarrow> []),
                                         q_sql = sql,
                                         q_params = params\<rparr>)))
           | _ \<Rightarrow> rejected ''only read-only SELECT queries are cacheable; writes and DDL are not supported'')
      | Inr _ \<Rightarrow> rejected ''only a single SELECT statement is supported'')"

subsection \<open>The loop collects the conjunction\<close>

text \<open>The conjuncts of an expression, in the order the loop meets them.\<close>

fun conjuncts :: "expr \<Rightarrow> expr list" where
  "conjuncts (BinaryOp l And r) = conjuncts r @ conjuncts l"
| "conjuncts (Nested e) = conjuncts e"
| "conjuncts e = [e]"

fun conjunct_filter :: "json_printer \<Rightarrow> json list \<Rightarrow> expr \<Rightarrow> (string \<times> string) list" where
  "conjunct_filter json_text params (BinaryOp l Eq r) = eq_filter json_text params l r"
| "conjunct_filter json_text params _ = []"

lemma collect_loop_spec:
  "collect_loop json_text params stack out =
     out @ concat (map (\<lambda>e. concat (map (conjunct_filter json_text params) (conjuncts e))) stack)"
  by (induction json_text params stack out rule: collect_loop.induct)
    (auto split: expr.splits binary_operator.splits)

text \<open>Truth of a selection under a truth assignment to its atoms.\<close>

fun holds :: "(expr \<Rightarrow> bool) \<Rightarrow> expr \<Rightarrow> bool" where
  "holds v (BinaryOp l And r) = (holds v l \<and> holds v r)"
| "holds v (Nested e) = holds v e"
| "holds v e = v e"

lemma holds_conjuncts: "holds v e \<longleftrightarrow> (\<forall>a \<in> set (conjuncts e). v a)"
  by (induction v e rule: holds.induct) auto

lemma eq_filter_member:
  "(c, x) \<in> set (eq_filter json_text params l r) \<Longrightarrow>
     (ident_name l = Some c \<and> filter_value json_text r params = Some x) \<or>
     (ident_name r = Some c \<and> filter_value json_text l params = Some x)"
  by (auto simp: eq_filter_def split: option.splits)

subsection \<open>Tables, functions and the fingerprint\<close>

lemma set_collect_tables:
  "set (collect_tables ctes names ts) = set ts \<union> (relation_name ` set names - ctes)"
  by (induction ctes names ts rule: collect_tables.induct) (auto simp: Let_def)

lemma distinct_collect_tables: "distinct ts \<Longrightarrow> distinct (collect_tables ctes names ts)"
  by (induction ctes names ts rule: collect_tables.induct) (auto simp: Let_def)

lemma find_None_set: "List.find P xs = None \<longleftrightarrow> (\<forall>x \<in> set xs. \<not> P x)"
  by (auto simp: find_None_iff)

lemma hash_stream_Cons: "hash_stream (t # ts) = t @ CHR 0xFF # hash_stream ts"
  by (simp add: hash_stream_def)

lemma hash_stream_inject:
  assumes "\<forall>t \<in> set xs. CHR 0xFF \<notin> set t" and "\<forall>t \<in> set ys. CHR 0xFF \<notin> set t"
    and "hash_stream xs = hash_stream ys"
  shows "xs = ys"
  using assms
proof (induction xs arbitrary: ys)
  case Nil
  then show ?case by (cases ys) (auto simp: hash_stream_def)
next
  case (Cons x xs)
  from Cons.prems(3) obtain y zs where ys: "ys = y # zs"
    by (cases ys) (auto simp: hash_stream_def)
  have eq: "split_once (CHR 0xFF) (x @ CHR 0xFF # hash_stream xs) =
            split_once (CHR 0xFF) (y @ CHR 0xFF # hash_stream zs)"
    using Cons.prems(3) ys by (simp only: hash_stream_Cons)
  have sx: "split_once (CHR 0xFF) (x @ CHR 0xFF # hash_stream xs) = Some (x, hash_stream xs)"
    using Cons.prems(1) by (subst split_once_Some) auto
  have sy: "split_once (CHR 0xFF) (y @ CHR 0xFF # hash_stream zs) = Some (y, hash_stream zs)"
    using Cons.prems(2) ys by (subst split_once_Some) auto
  have "x = y" and rest: "hash_stream xs = hash_stream zs"
    using eq unfolding sx sy by blast+
  moreover have "xs = zs"
    by (rule Cons.IH [OF _ _ rest]) (use Cons.prems(1,2) ys in auto)
  ultimately show ?case using ys by simp
qed

subsection \<open>What an accepted query satisfies\<close>

definition query_of :: "sql_front \<Rightarrow> string \<Rightarrow> sql_query option" where
  "query_of front sql = (case parse_sql front sql of Inr [SQuery q] \<Rightarrow> Some q | _ \<Rightarrow> None)"

definition cacheable :: "sql_front \<Rightarrow> read_classifier \<Rightarrow> sql_query \<Rightarrow> bool" where
  "cacheable front cl q \<longleftrightarrow>
     locks q = [] \<and>
     (\<forall>s. query_body q = Select s \<longrightarrow> \<not> into_present s) \<and>
     (\<forall>name. Function name \<in> set (visit_expressions front (SQuery q)) \<longrightarrow>
        bare_lower name \<notin> set SIDE_EFFECTING \<and> bare_lower name \<notin> set VOLATILE_READ) \<and>
     (\<forall>rel \<in> set (visit_relations front (SQuery q)).
        relation_name rel \<in> replicated cl \<or> relation_name rel \<in> cte_names q)"

definition query_filters :: "json_printer \<Rightarrow> json list \<Rightarrow> sql_query \<Rightarrow> (string \<times> string) list" where
  "query_filters json_text params q =
     (case select_of q of
        Some s \<Rightarrow> (case selection s of Some sel \<Rightarrow> collect_eq_filters json_text sel params | None \<Rightarrow> [])
      | None \<Rightarrow> [])"

definition classified ::
  "sql_front \<Rightarrow> json_printer \<Rightarrow> (string \<Rightarrow> u64) \<Rightarrow> string \<Rightarrow> json list \<Rightarrow> sql_query \<Rightarrow> cacheable_query" where
  "classified front json_text finish sql params q =
     \<lparr>fingerprint = finish (hash_stream (statement_text front (SQuery q) # map json_text params)),
      q_tables = collect_tables (cte_names q) (visit_relations front (SQuery q)) [],
      eq_filters = query_filters json_text params q,
      q_sql = sql, q_params = params\<rparr>"

lemma function_names_mem:
  "f \<in> set (function_names es) \<longleftrightarrow> (\<exists>name. Function name \<in> set es \<and> f = bare_lower name)"
proof -
  have "(case e of Function name \<Rightarrow> Some (bare_lower name) | _ \<Rightarrow> None) = Some f \<longleftrightarrow>
          (\<exists>name. e = Function name \<and> f = bare_lower name)" for e
    by (cases e) auto
  then show ?thesis by (auto simp: function_names_def set_map_filter_iff)
qed


lemma cacheable_alt:
  "cacheable front cl q \<longleftrightarrow>
     locks q = [] \<and>
     \<not> (case select_of q of Some s \<Rightarrow> into_present s | None \<Rightarrow> False) \<and>
     List.find (\<lambda>f. f \<in> set SIDE_EFFECTING) (function_names (visit_expressions front (SQuery q))) = None \<and>
     List.find (\<lambda>f. f \<in> set VOLATILE_READ) (function_names (visit_expressions front (SQuery q))) = None \<and>
     List.find (\<lambda>t. t \<notin> replicated cl) (collect_tables (cte_names q) (visit_relations front (SQuery q)) []) = None"
proof -
  have "(\<forall>s. query_body q = Select s \<longrightarrow> \<not> into_present s) \<longleftrightarrow>
        \<not> (case select_of q of Some s \<Rightarrow> into_present s | None \<Rightarrow> False)"
    by (cases "query_body q") (auto simp: select_of_def)
  moreover have "(\<forall>name. Function name \<in> set (visit_expressions front (SQuery q)) \<longrightarrow>
        bare_lower name \<notin> set SIDE_EFFECTING \<and> bare_lower name \<notin> set VOLATILE_READ) \<longleftrightarrow>
      (\<forall>f \<in> set (function_names (visit_expressions front (SQuery q))). f \<notin> set SIDE_EFFECTING) \<and>
      (\<forall>f \<in> set (function_names (visit_expressions front (SQuery q))). f \<notin> set VOLATILE_READ)"
    unfolding Ball_def function_names_mem by blast
  moreover have "(\<forall>rel \<in> set (visit_relations front (SQuery q)).
        relation_name rel \<in> replicated cl \<or> relation_name rel \<in> cte_names q) \<longleftrightarrow>
      (\<forall>t \<in> set (collect_tables (cte_names q) (visit_relations front (SQuery q)) []). t \<in> replicated cl)"
    by (auto simp: set_collect_tables)
  ultimately show ?thesis unfolding cacheable_def find_None_set by simp
qed

lemma classify_query:
  assumes "parse_sql front sql = Inr [SQuery q]"
  shows "cacheable front cl q \<Longrightarrow>
     classify front json_text finish cl sql params = Inr (classified front json_text finish sql params q)"
    and "\<not> cacheable front cl q \<Longrightarrow> \<exists>m. classify front json_text finish cl sql params = Inl (Rejected m)"
  using assms unfolding cacheable_alt
  by (auto simp: classify_def classified_def query_filters_def rejected_def Let_def split: option.splits)

lemma classify_other:
  assumes "query_of front sql = None"
  shows "\<exists>m. classify front json_text finish cl sql params = Inl (Rejected m)"
  using assms
  by (auto simp: classify_def query_of_def rejected_def split: sum.splits list.splits statement.splits)

lemma query_of_Some: "query_of front sql = Some q \<longleftrightarrow> parse_sql front sql = Inr [SQuery q]"
  by (auto simp: query_of_def split: sum.splits list.splits statement.splits)

subsection \<open>Properties\<close>

text \<open>
  C14: a text is accepted exactly when it parses to one \<open>SELECT\<close>-class statement without locking
  clause and \<open>INTO\<close>, calling none of the listed side-effecting or volatile functions, whose
  relations are replicated or named like one of its CTEs; everything else is \<open>Rejected\<close>.
\<close>

theorem classify_accepts_iff:
  "case classify front json_text finish cl sql params of
     Inr r \<Rightarrow> (\<exists>q. parse_sql front sql = Inr [SQuery q] \<and> cacheable front cl q \<and>
                   r = classified front json_text finish sql params q \<and>
                   distinct (q_tables r) \<and> set (q_tables r) \<subseteq> replicated cl)
   | Inl e \<Rightarrow> (\<exists>m. e = Rejected m) \<and> \<not> (\<exists>q. parse_sql front sql = Inr [SQuery q] \<and> cacheable front cl q)"
proof (cases "query_of front sql")
  case None
  then have "\<not> (\<exists>q. parse_sql front sql = Inr [SQuery q])" using query_of_Some by (metis option.distinct(1))
  with classify_other [OF None, of json_text finish cl params] show ?thesis by auto
next
  case (Some q)
  then have p: "parse_sql front sql = Inr [SQuery q]" by (simp add: query_of_Some)
  show ?thesis
  proof (cases "cacheable front cl q")
    case True
    then have "set (collect_tables (cte_names q) (visit_relations front (SQuery q)) []) \<subseteq> replicated cl"
      unfolding cacheable_alt find_None_set by blast
    with True p classify_query(1) [OF p True] show ?thesis
      by (auto simp: classified_def distinct_collect_tables)
  next
    case False
    with p classify_query(2) [OF p False, of json_text finish params] show ?thesis by auto
  qed
qed

text \<open>
  C26: every equality filter the stack loop extracts comes from an equality between a column and a
  literal or bound parameter that holds whenever the whole selection holds, and the loop loses no
  such conjunct.
\<close>

theorem eq_filters_are_conjuncts:
  "collect_eq_filters json_text sel params = concat (map (conjunct_filter json_text params) (conjuncts sel)) \<and>
   (\<forall>(c, x) \<in> set (collect_eq_filters json_text sel params).
      \<exists>l r. ((ident_name l = Some c \<and> filter_value json_text r params = Some x) \<or>
             (ident_name r = Some c \<and> filter_value json_text l params = Some x)) \<and>
            (\<forall>v. holds v sel \<longrightarrow> v (BinaryOp l Eq r)))"
proof
  show spec: "collect_eq_filters json_text sel params =
      concat (map (conjunct_filter json_text params) (conjuncts sel))"
    by (simp add: collect_eq_filters_def collect_loop_spec)
  show "\<forall>(c, x) \<in> set (collect_eq_filters json_text sel params).
      \<exists>l r. ((ident_name l = Some c \<and> filter_value json_text r params = Some x) \<or>
             (ident_name r = Some c \<and> filter_value json_text l params = Some x)) \<and>
            (\<forall>v. holds v sel \<longrightarrow> v (BinaryOp l Eq r))"
  proof clarify
    fix c x
    assume "(c, x) \<in> set (collect_eq_filters json_text sel params)"
    then obtain a where a: "a \<in> set (conjuncts sel)" "(c, x) \<in> set (conjunct_filter json_text params a)"
      by (auto simp: spec)
    then obtain l r where lr: "a = BinaryOp l Eq r" "(c, x) \<in> set (eq_filter json_text params l r)"
      by (cases "(json_text, params, a)" rule: conjunct_filter.cases) auto
    then show "\<exists>l r. ((ident_name l = Some c \<and> filter_value json_text r params = Some x) \<or>
             (ident_name r = Some c \<and> filter_value json_text l params = Some x)) \<and>
            (\<forall>v. holds v sel \<longrightarrow> v (BinaryOp l Eq r))"
      using eq_filter_member a(1) holds_conjuncts by blast
  qed
qed

theorem eq_filters_are_conjuncts_witness:
  "collect_eq_filters (\<lambda>_. ''7'')
     (BinaryOp (Nested (BinaryOp (Identifier ''Name'') Eq (Value (SingleQuotedString ''ada'')))) And
        (BinaryOp (Value (Placeholder ''$1'')) Eq (CompoundIdentifier [''u'', ''ID''])))
     [Number (PosInt 7)] = [(''id'', ''7''), (''name'', ''ada'')]"
proof -
  have "parse_unsigned (2 ^ 64) ''1'' = Some 1"
    by (simp add: parse_unsigned_def digits_value_def is_ascii_digit_def)
  moreover have "to_ascii_lowercase ''ID'' = ''id''" "to_ascii_lowercase ''Name'' = ''name''"
    by code_simp+
  ultimately show ?thesis
    by (simp only: eq_filters_are_conjuncts [THEN conjunct1])
      (simp add: eq_filter_def filter_value_def strip_prefix_def is_i64_def is_u64_def)
qed

text \<open>The texts a query contributes to its fingerprint.\<close>

definition hashed_texts :: "sql_front \<Rightarrow> json_printer \<Rightarrow> string \<Rightarrow> json list \<Rightarrow> string list" where
  "hashed_texts front json_text sql params =
     (case query_of front sql of
        Some q \<Rightarrow> statement_text front (SQuery q) # map json_text params
      | None \<Rightarrow> [])"

lemma classify_Inr:
  assumes "classify front json_text finish cl sql params = Inr r"
  obtains q where "parse_sql front sql = Inr [SQuery q]" "cacheable front cl q"
    "r = classified front json_text finish sql params q"
proof (cases "query_of front sql")
  case None
  with assms classify_other [OF None, of json_text finish cl params] show ?thesis by auto
next
  case (Some q)
  then have p: "parse_sql front sql = Inr [SQuery q]" by (simp add: query_of_Some)
  with assms classify_query [OF p, of cl json_text finish params] that show ?thesis
    by (cases "cacheable front cl q") auto
qed

lemma classified_fingerprint:
  assumes "classify front json_text finish cl sql params = Inr r"
  shows "fingerprint r = finish (hash_stream (hashed_texts front json_text sql params))"
  using assms by (rule classify_Inr) (simp add: classified_def hashed_texts_def query_of_def)

text \<open>
  C27: two accepted queries with the same fingerprint have the same statement text and the same
  parameters, unless the 64-bit hash itself collides on the two byte streams; UTF-8 text has no
  byte \<open>0xff\<close>, so the streams keep statement and parameters apart.
\<close>

theorem fingerprint_separates_queries:
  assumes "classify front json_text finish cl sql params = Inr r"
    and "classify front json_text finish cl sql' params' = Inr r'"
    and "\<forall>t \<in> set (hashed_texts front json_text sql params) \<union> set (hashed_texts front json_text sql' params').
           CHR 0xFF \<notin> set t"
    and "inj_on finish {hash_stream (hashed_texts front json_text sql params),
                        hash_stream (hashed_texts front json_text sql' params')}"
    and "fingerprint r = fingerprint r'"
  shows "hashed_texts front json_text sql params = hashed_texts front json_text sql' params'"
proof (rule hash_stream_inject)
  show "hash_stream (hashed_texts front json_text sql params) = hash_stream (hashed_texts front json_text sql' params')"
  proof (rule inj_onD [OF assms(4)])
    show "finish (hash_stream (hashed_texts front json_text sql params)) =
          finish (hash_stream (hashed_texts front json_text sql' params'))"
      using assms(5) classified_fingerprint [OF assms(1)] classified_fingerprint [OF assms(2)] by simp
  qed simp_all
qed (use assms(3) in auto)

text \<open>A front end that parses every text to one given query, for concrete instances.\<close>

definition sample_front :: "sql_query \<Rightarrow> expr list \<Rightarrow> string list list \<Rightarrow> sql_front" where
  "sample_front q es rels =
     \<lparr>parse_sql = (\<lambda>_. Inr [SQuery q]), visit_expressions = (\<lambda>_. es), visit_relations = (\<lambda>_. rels),
      statement_text = (\<lambda>_. ''SELECT''), object_text = (\<lambda>_. ''TABLE'')\<rparr>"

definition sample_query :: "string list \<Rightarrow> expr option \<Rightarrow> sql_query" where
  "sample_query ctes sel =
     \<lparr>with_ctes = (if ctes = [] then None else Some ctes),
      query_body = Select \<lparr>into_present = False, selection = sel\<rparr>, locks = [], query_rest = 0\<rparr>"

theorem fingerprint_separates_queries_witness:
  "hashed_texts (sample_front (sample_query [] None) [] [[''users'']]) (\<lambda>_. ''1'') ''select 1'' [Null] =
   hashed_texts (sample_front (sample_query [] None) [] [[''users'']]) (\<lambda>_. ''1'') ''SELECT 1'' [Null]"
proof -
  let ?f = "sample_front (sample_query [] None) [] [[''users'']]"
  have c: "cacheable ?f (read_classifier_new [''public.Users'']) (sample_query [] None)"
  proof -
    have "relation_name [''users''] = bare_lower ''public.Users''" by code_simp
    then show ?thesis by (simp add: cacheable_def sample_front_def sample_query_def read_classifier_new_def)
  qed
  have p: "parse_sql ?f sql = Inr [SQuery (sample_query [] None)]" for sql by (simp add: sample_front_def)
  let ?h = "\<lambda>s. of_nat (length s) :: u64" and ?cl = "read_classifier_new [''public.Users'']"
  have t: "hashed_texts ?f (\<lambda>_. ''1'') sql [Null] = [''SELECT'', ''1'']" for sql
    by (simp add: hashed_texts_def query_of_Some [THEN iffD2, OF p]) (simp add: sample_front_def)
  have a: "classify ?f (\<lambda>_. ''1'') ?h ?cl sql [Null] =
      Inr (classified ?f (\<lambda>_. ''1'') ?h sql [Null] (sample_query [] None))" for sql
    by (rule classify_query(1) [OF p c])
  show ?thesis
    by (rule fingerprint_separates_queries [OF a [of "''select 1''"] a [of "''SELECT 1''"]])
      (simp_all add: t classified_def)
qed

end
