(* ===== verification/Diff.thy ===== *)
theory Diff
  imports Classify
begin

text \<open>
  \<open>src/capability/diff.rs\<close>: keying the rows of a snapshot and computing the deltas between two
  snapshots.  A snapshot is a hash map from row keys to rows, modelled as an association list with
  distinct keys; the arbitrary order in which \<open>diff\<close> visits the two maps is its first argument.

  The contract towards the live hub is the locale \<open>delta_stream\<close>: replaying the deltas of a
  chain of snapshots on the first one gives the last one.  \<open>dlt\<close> interprets it on \<open>diff\<close>.
\<close>

type_synonym snapshot = "(string \<times> json) list"

datatype delta =
    Delta_Insert string json
  | Delta_Update string json
  | Delta_Delete string json

definition diff_next :: "snapshot \<Rightarrow> string \<times> json \<Rightarrow> delta list" where
  "diff_next prev = (\<lambda>(key, row).
     case map_of prev key of
       None \<Rightarrow> [Delta_Insert key row]
     | Some old \<Rightarrow> (if old \<noteq> row then [Delta_Update key row] else []))"

definition diff_prev :: "snapshot \<Rightarrow> string \<times> json \<Rightarrow> delta list" where
  "diff_prev nxt = (\<lambda>(key, row). if map_of nxt key = None then [Delta_Delete key row] else [])"

definition diff :: "(string \<times> json) iter \<Rightarrow> snapshot \<Rightarrow> snapshot \<Rightarrow> delta list" where
  "diff it prev nxt = concat (map (diff_next prev) (it nxt)) @ concat (map (diff_prev nxt) (it prev))"

fun value_key :: "json_printer \<Rightarrow> json \<Rightarrow> string" where
  "value_key json_text (String text) = text"
| "value_key json_text other = json_text other"

definition row_hash :: "json_printer \<Rightarrow> (string \<Rightarrow> u64) \<Rightarrow> json \<Rightarrow> string" where
  "row_hash json_text finish row = show_hex (finish (hash_stream [json_text row]))"

definition row_key :: "json_printer \<Rightarrow> (string \<Rightarrow> u64) \<Rightarrow> string option \<Rightarrow> json \<Rightarrow> string" where
  "row_key json_text finish pk row =
     (case Option.bind pk (\<lambda>column. json_get column row) of
        Some v \<Rightarrow> value_key json_text v
      | None \<Rightarrow> row_hash json_text finish row)"

definition keyed_rows :: "json_printer \<Rightarrow> (string \<Rightarrow> u64) \<Rightarrow> string option \<Rightarrow> json list \<Rightarrow> snapshot" where
  "keyed_rows json_text finish pk rows =
     foldl (\<lambda>m row. AList.update (row_key json_text finish pk row) row m) [] rows"

definition keyed_map ::
  "json_printer \<Rightarrow> json_parser \<Rightarrow> (string \<Rightarrow> u64) \<Rightarrow> string \<Rightarrow> string option \<Rightarrow> snapshot" where
  "keyed_map json_text from_str finish json_array pk =
     (case from_str json_array of
        Some (Array rows) \<Rightarrow> keyed_rows json_text finish pk rows
      | _ \<Rightarrow> [])"

subsection \<open>The subscriber's side\<close>

text \<open>What a subscriber does with a delta: the reference semantics the deltas are checked against.\<close>

fun apply_delta :: "(string \<rightharpoonup> json) \<Rightarrow> delta \<Rightarrow> (string \<rightharpoonup> json)" where
  "apply_delta m (Delta_Insert key row) = m(key \<mapsto> row)"
| "apply_delta m (Delta_Update key row) = m(key \<mapsto> row)"
| "apply_delta m (Delta_Delete key row) = m(key := None)"

fun delta_key :: "delta \<Rightarrow> string" where
  "delta_key (Delta_Insert key _) = key"
| "delta_key (Delta_Update key _) = key"
| "delta_key (Delta_Delete key _) = key"

definition wf_snapshot :: "snapshot \<Rightarrow> bool" where
  "wf_snapshot m \<longleftrightarrow> distinct (map fst m)"

locale delta_stream =
  fixes diff_op :: "'o \<Rightarrow> 'm \<Rightarrow> 'm \<Rightarrow> 'd list"
    and fair :: "'o \<Rightarrow> bool"
    and valid :: "'m \<Rightarrow> bool"
    and view :: "'m \<Rightarrow> 'v"
    and app :: "'v \<Rightarrow> 'd \<Rightarrow> 'v"
  assumes replay_diff: "fair ord \<Longrightarrow> valid p \<Longrightarrow> valid n \<Longrightarrow> foldl app (view p) (diff_op ord p n) = view n"
begin

fun deltas :: "'m \<Rightarrow> ('o \<times> 'm) list \<Rightarrow> 'd list" where
  "deltas p [] = []"
| "deltas p ((ord, n) # steps) = diff_op ord p n @ deltas n steps"

lemma replay_chain:
  "valid p \<Longrightarrow> (\<forall>(ord, n) \<in> set steps. fair ord \<and> valid n) \<Longrightarrow>
     foldl app (view p) (deltas p steps) = view (last (p # map snd steps))"
proof (induction steps arbitrary: p)
  case Nil
  then show ?case by simp
next
  case (Cons st steps)
  then show ?case using replay_diff by (cases st) auto
qed

end

subsection \<open>Lemmas\<close>

lemma wf_keyed_rows: "wf_snapshot (keyed_rows json_text finish pk rows)"
proof -
  have "wf_snapshot m \<Longrightarrow>
      wf_snapshot (foldl (\<lambda>m row. AList.update (row_key json_text finish pk row) row m) m rows)" for m
    by (induction rows arbitrary: m) (auto simp: wf_snapshot_def distinct_update)
  then show ?thesis by (simp add: keyed_rows_def wf_snapshot_def)
qed

lemma wf_keyed_map: "wf_snapshot (keyed_map json_text from_str finish json_array pk)"
  using wf_keyed_rows by (auto simp: keyed_map_def wf_snapshot_def split: option.splits json.splits)

lemma diff_next_keys: "d \<in> set (diff_next prev (k, row)) \<Longrightarrow> delta_key d = k"
  by (auto simp: diff_next_def split: option.splits if_splits)

lemma diff_prev_keys: "d \<in> set (diff_prev nxt (k, row)) \<Longrightarrow> delta_key d = k \<and> map_of nxt k = None"
  by (auto simp: diff_prev_def split: if_splits)

lemma replay_other_keys: "\<forall>d \<in> set ds. delta_key d \<noteq> k \<Longrightarrow> foldl apply_delta m ds k = m k"
proof (induction ds arbitrary: m)
  case Nil
  then show ?case by simp
next
  case (Cons d ds)
  then show ?case by (cases d) auto
qed

lemma replay_next:
  assumes "distinct (map fst xs)"
    and "\<forall>k row. (k, row) \<in> set xs \<longrightarrow> m k = map_of prev k"
  shows "foldl apply_delta m (concat (map (diff_next prev) xs)) k =
           (case map_of xs k of Some row \<Rightarrow> Some row | None \<Rightarrow> m k)"
  using assms
proof (induction xs arbitrary: m)
  case Nil
  then show ?case by simp
next
  case (Cons x xs)
  obtain k' row where x: "x = (k', row)" by (cases x)
  let ?m = "foldl apply_delta m (diff_next prev x)"
  have m': "?m = m(k' \<mapsto> row)"
    using Cons.prems(2) x by (auto simp: diff_next_def fun_eq_iff split: option.splits)
  have "foldl apply_delta ?m (concat (map (diff_next prev) xs)) k =
          (case map_of xs k of Some row \<Rightarrow> Some row | None \<Rightarrow> ?m k)"
  proof (rule Cons.IH)
    show "distinct (map fst xs)" using Cons.prems(1) by simp
    show "\<forall>k row. (k, row) \<in> set xs \<longrightarrow> ?m k = map_of prev k"
      using Cons.prems x m' by (force simp: image_iff)
  qed
  moreover have "map_of xs k' = None"
    using Cons.prems(1) x by (auto simp: map_of_eq_None_iff)
  ultimately show ?case using x m' by (auto split: option.splits)
qed

lemma replay_prev:
  "foldl apply_delta m (concat (map (diff_prev nxt) xs)) k =
     (if map_of nxt k = None \<and> k \<in> fst ` set xs then None else m k)"
proof (induction xs arbitrary: m)
  case Nil
  then show ?case by simp
next
  case (Cons x xs)
  then show ?case by (cases x) (auto simp: diff_prev_def)
qed

lemma diff_replay:
  assumes "fair_iter it" and "wf_snapshot prev" and "wf_snapshot nxt"
  shows "foldl apply_delta (map_of prev) (diff it prev nxt) = map_of nxt"
proof
  fix k
  have nxt: "distinct (map fst (it nxt))" "map_of (it nxt) = map_of nxt"
    using assms fair_iter_distinct_keys fair_iter_map_of by (auto simp: wf_snapshot_def)
  have prev: "set (it prev) = set prev" using assms(1) by (rule fair_iter_set)
  have "foldl apply_delta (map_of prev) (concat (map (diff_next prev) (it nxt))) j =
          (case map_of nxt j of Some row \<Rightarrow> Some row | None \<Rightarrow> map_of prev j)" for j
    using replay_next [OF nxt(1), of "map_of prev" prev] nxt(2) by simp
  then show "foldl apply_delta (map_of prev) (diff it prev nxt) k = map_of nxt k"
    by (cases "map_of nxt k"; cases "map_of prev k")
      (auto simp: diff_def replay_prev prev dest: map_of_SomeD intro: rev_image_eqI)
qed

interpretation dlt: delta_stream diff fair_iter wf_snapshot map_of apply_delta
  by unfold_locales (rule diff_replay)

lemma diff_keys_iff:
  assumes "fair_iter it" and "wf_snapshot prev" and "wf_snapshot nxt"
  shows "k \<in> delta_key ` set (diff it prev nxt) \<longleftrightarrow> map_of prev k \<noteq> map_of nxt k"
proof
  assume "map_of prev k \<noteq> map_of nxt k"
  then show "k \<in> delta_key ` set (diff it prev nxt)"
    using replay_other_keys [of "diff it prev nxt" k "map_of prev"] diff_replay [OF assms] by force
next
  assume "k \<in> delta_key ` set (diff it prev nxt)"
  then obtain row where "(k, row) \<in> set nxt \<and> diff_next prev (k, row) \<noteq> [] \<or>
                         (k, row) \<in> set prev \<and> diff_prev nxt (k, row) \<noteq> []"
    using fair_iter_set [OF assms(1)] diff_next_keys diff_prev_keys
    by (auto simp: diff_def) (metis empty_iff empty_set)+
  then show "map_of prev k \<noteq> map_of nxt k"
    using assms(2,3) eq_key_imp_eq_value
    by (fastforce simp: wf_snapshot_def diff_next_def diff_prev_def split: option.splits if_splits)
qed

lemma distinct_concat_keys:
  assumes "distinct (map fst xs)" and "\<And>k row. (k, row) \<in> set xs \<Longrightarrow> map delta_key (f (k, row)) \<in> {[], [k]}"
  shows "distinct (map delta_key (concat (map f xs)))"
  using assms
proof (induction xs)
  case Nil
  then show ?case by simp
next
  case (Cons x xs)
  obtain k row where x: "x = (k, row)" by (cases x)
  have "k \<notin> delta_key ` set (concat (map f xs))"
  proof
    assume "k \<in> delta_key ` set (concat (map f xs))"
    then obtain k' row' where "(k', row') \<in> set xs" "k \<in> set (map delta_key (f (k', row')))" by auto
    then have "k = k'" using Cons.prems(2) by fastforce
    then show False using \<open>(k', row') \<in> set xs\<close> Cons.prems(1) x by (force simp: image_iff)
  qed
  moreover have "map delta_key (f x) \<in> {[], [k]}" using Cons.prems(2) x by simp
  ultimately show ?case using Cons by (auto simp: image_iff)
qed

lemma diff_keys_distinct:
  assumes "fair_iter it" and "wf_snapshot prev" and "wf_snapshot nxt"
  shows "distinct (map delta_key (diff it prev nxt))"
proof -
  have d: "distinct (map fst (it nxt))" "distinct (map fst (it prev))"
    using assms fair_iter_distinct_keys by (auto simp: wf_snapshot_def)
  have 1: "distinct (map delta_key (concat (map (diff_next prev) (it nxt))))"
    by (rule distinct_concat_keys [OF d(1)]) (auto simp: diff_next_def split: option.splits)
  have 2: "distinct (map delta_key (concat (map (diff_prev nxt) (it prev))))"
    by (rule distinct_concat_keys [OF d(2)]) (auto simp: diff_prev_def)
  have "delta_key d \<in> dom (map_of nxt)" if "d \<in> set (concat (map (diff_next prev) (it nxt)))" for d
  proof -
    from that obtain k row where "(k, row) \<in> set nxt" "d \<in> set (diff_next prev (k, row))"
      using fair_iter_set [OF assms(1)] by auto
    then show ?thesis using diff_next_keys [of d prev k row]
      by (auto simp: dom_map_of_conv_image_fst intro: rev_image_eqI)
  qed
  moreover have "delta_key d \<notin> dom (map_of nxt)" if "d \<in> set (concat (map (diff_prev nxt) (it prev)))" for d
    using that diff_prev_keys by fastforce
  ultimately have "delta_key ` set (concat (map (diff_next prev) (it nxt))) \<inter>
      delta_key ` set (concat (map (diff_prev nxt) (it prev))) = {}"
    by (intro equals0I) (metis IntE imageE)
  with 1 2 show ?thesis unfolding diff_def map_append distinct_append by simp
qed

subsection \<open>Properties\<close>

text \<open>
  C24: replaying the deltas between two snapshots on the first gives the second, whatever order the
  hash maps are visited in.
\<close>

theorem diff_replays_to_next:
  assumes "fair_iter it" and "wf_snapshot prev" and "wf_snapshot nxt"
  shows "foldl apply_delta (map_of prev) (diff it prev nxt) = map_of nxt"
  by (rule dlt.replay_diff [OF assms])

theorem diff_replays_to_next_witness:
  "foldl apply_delta (map_of [(''1'', Bool True), (''9'', Null)])
     (diff rev [(''1'', Bool True), (''9'', Null)] [(''1'', Bool False), (''2'', Null)]) =
   map_of [(''1'', Bool False), (''2'', Null)]"
  using diff_replays_to_next [OF fair_iter_rev, of "[(''1'', Bool True), (''9'', Null)]" "[(''1'', Bool False), (''2'', Null)]"]
  by (simp add: wf_snapshot_def)

text \<open>
  The deltas are minimal: one per key whose row changed, none for a key whose row did not, and
  never two for one key.
\<close>

theorem diff_is_minimal:
  assumes "fair_iter it" and "wf_snapshot prev" and "wf_snapshot nxt"
  shows "distinct (map delta_key (diff it prev nxt)) \<and>
         delta_key ` set (diff it prev nxt) = {k. map_of prev k \<noteq> map_of nxt k}"
  using diff_keys_distinct [OF assms] diff_keys_iff [OF assms] by blast

theorem diff_is_minimal_witness:
  "delta_key ` set (diff rev [(''1'', Bool True), (''9'', Null)] [(''1'', Bool True), (''2'', Null)]) =
     {k. map_of [(''1'', Bool True), (''9'', Null)] k \<noteq> map_of [(''1'', Bool True), (''2'', Null)] k}"
  using diff_is_minimal [OF fair_iter_rev, of "[(''1'', Bool True), (''9'', Null)]" "[(''1'', Bool True), (''2'', Null)]"]
  by (simp add: wf_snapshot_def)

end
