(* ===== verification/Auth.thy ===== *)
theory Auth
  imports Error
begin

text \<open>
  \<open>src/capability/auth.rs\<close>: the authentication configuration, the construction of a token verifier
  from it and the verification of a bearer token.  Key parsing, the default validation settings and
  the decoding of a token are code of the \<open>jsonwebtoken\<close> package, the fields of the parameter
  record \<open>jwt_lib\<close>; the documented behaviour the program relies on is \<open>jwt_pins\<close>.

  The contract of a bearer check towards the two operation groups that use it (reads and SQL) is
  the locale \<open>bearer_gate\<close>; its interpretations are in the theories of those groups.
\<close>

record principal =
  role :: string
  claims_json :: string

record auth_config =
  jwt_secret :: "string option"
  jwt_public_key :: "string option"
  jwt_jwks_url :: "string option"
  cfg_role_claim :: "string option"
  sql_public_role :: "string option"

datatype algorithm = HS256 | RS256 | ES256 | OtherAlg string

record validation =
  algorithms :: "algorithm list"
  validate_exp :: bool
  validate_aud :: bool

record 'k jwt_lib =
  from_secret :: "string \<Rightarrow> 'k"
  from_rsa_pem :: "string \<Rightarrow> string + 'k"
  from_ec_pem :: "string \<Rightarrow> string + 'k"
  validation_new :: "algorithm \<Rightarrow> validation"
  jwt_decode :: "string \<Rightarrow> 'k \<Rightarrow> validation \<Rightarrow> string + json"

record 'k verifier =
  v_key :: 'k
  v_validation :: validation
  v_role_claim :: string

subsection \<open>Configuration\<close>

definition auth_none :: auth_config where
  "auth_none = \<lparr>jwt_secret = None, jwt_public_key = None, jwt_jwks_url = None,
                cfg_role_claim = None, sql_public_role = None\<rparr>"

definition auth_jwt_secret :: "string \<Rightarrow> auth_config" where
  "auth_jwt_secret secret = auth_none\<lparr>jwt_secret := Some secret\<rparr>"

definition auth_jwt_public_key :: "string \<Rightarrow> auth_config" where
  "auth_jwt_public_key pem = auth_none\<lparr>jwt_public_key := Some pem\<rparr>"

definition auth_jwt_jwks_url :: "string \<Rightarrow> auth_config" where
  "auth_jwt_jwks_url url = auth_none\<lparr>jwt_jwks_url := Some url\<rparr>"

definition auth_role_claim :: "string \<Rightarrow> auth_config \<Rightarrow> auth_config" where
  "auth_role_claim claim cfg = cfg\<lparr>cfg_role_claim := Some claim\<rparr>"

subsection \<open>Building a verifier\<close>

definition pinned :: "'k jwt_lib \<Rightarrow> algorithm \<Rightarrow> validation" where
  "pinned jwt alg = (validation_new jwt alg)\<lparr>validate_aud := False\<rparr>"

definition verifier_build ::
  "'k jwt_lib \<Rightarrow> string option \<Rightarrow> string option \<Rightarrow> string option \<Rightarrow> string \<Rightarrow> 'k verifier option result" where
  "verifier_build jwt secret public_key jwks_url claim =
     (let provided = length (filter (\<lambda>s. s) [secret \<noteq> None, public_key \<noteq> None, jwks_url \<noteq> None])
      in if provided > 1 then
           Inl (Config ''set only one of --jwt-secret / --jwt-public-key / --jwt-jwks-url'')
         else case secret of
           Some s \<Rightarrow>
             Inr (Some \<lparr>v_key = from_secret jwt s, v_validation = pinned jwt HS256, v_role_claim = claim\<rparr>)
         | None \<Rightarrow>
             (case public_key of
                Some pem \<Rightarrow>
                  bind_res
                    (map_err (\<lambda>e. Config (''invalid JWT public key PEM: '' @ e))
                      (case from_rsa_pem jwt pem of
                         Inr key \<Rightarrow> Inr (key, RS256)
                       | Inl _ \<Rightarrow> (case from_ec_pem jwt pem of
                                    Inr key \<Rightarrow> Inr (key, ES256)
                                  | Inl e \<Rightarrow> Inl e)))
                    (\<lambda>(key, alg).
                      Inr (Some \<lparr>v_key = key, v_validation = pinned jwt alg, v_role_claim = claim\<rparr>))
              | None \<Rightarrow>
                  if jwks_url \<noteq> None then
                    Inl (Config ''JWKS URL verification is not yet implemented; use --jwt-secret or --jwt-public-key'')
                  else Inr None))"

definition into_verifier :: "'k jwt_lib \<Rightarrow> auth_config \<Rightarrow> 'k verifier option result" where
  "into_verifier jwt cfg =
     verifier_build jwt (jwt_secret cfg) (jwt_public_key cfg) (jwt_jwks_url cfg)
       (case cfg_role_claim cfg of Some c \<Rightarrow> c | None \<Rightarrow> ''role'')"

subsection \<open>Verifying a token\<close>

definition verify :: "'k jwt_lib \<Rightarrow> json_printer \<Rightarrow> 'k verifier \<Rightarrow> string \<Rightarrow> principal result" where
  "verify jwt json_text v token =
     bind_res
       (map_err (\<lambda>e. Unauthorized (''invalid token: '' @ e))
         (jwt_decode jwt token (v_key v) (v_validation v)))
       (\<lambda>claims.
         case Option.bind (json_get (v_role_claim v) claims) as_str of
           None \<Rightarrow> Inl (Unauthorized (''token missing string '' @ [CHR 0x27] @ v_role_claim v @ [CHR 0x27] @ '' claim''))
         | Some r \<Rightarrow> Inr \<lparr>role = r, claims_json = json_text claims\<rparr>)"

subsection \<open>The documented behaviour of the token library\<close>

text \<open>
  A fresh validation allows exactly the given algorithm and checks expiry, and a token decodes only
  if the algorithm of its header (\<open>header_alg\<close>) is allowed.
\<close>

definition jwt_pins :: "'k jwt_lib \<Rightarrow> (string \<Rightarrow> algorithm option) \<Rightarrow> bool" where
  "jwt_pins jwt header_alg \<longleftrightarrow>
     (\<forall>alg. algorithms (validation_new jwt alg) = [alg] \<and> validate_exp (validation_new jwt alg)) \<and>
     (\<forall>token key v claims. jwt_decode jwt token key v = Inr claims \<longrightarrow>
        (\<exists>alg \<in> set (algorithms v). header_alg token = Some alg))"

subsection \<open>Lemmas\<close>

lemma verify_Inr:
  "verify jwt json_text v token = Inr p \<longleftrightarrow>
     (\<exists>claims. jwt_decode jwt token (v_key v) (v_validation v) = Inr claims \<and>
        json_get (v_role_claim v) claims = Some (String (role p)) \<and> claims_json p = json_text claims)"
proof -
  have "Option.bind (json_get c claims) as_str = Some r \<longleftrightarrow> json_get c claims = Some (String r)" for c claims r
    by (cases "json_get c claims"; simp) (case_tac a; simp)
  then show ?thesis
    by (auto simp: verify_def bind_res_Inr_iff split: option.splits)
qed

lemma verify_Inl: "verify jwt json_text v token = Inl e \<Longrightarrow> \<exists>m. e = Unauthorized m"
  by (auto simp: verify_def bind_res_Inl_iff map_err_Inl_iff split: option.splits)

lemma verifier_build_Some:
  assumes "verifier_build jwt secret public_key jwks_url claim = Inr (Some v)"
  shows "v_role_claim v = claim \<and> jwks_url = None \<and>
         ((\<exists>s. secret = Some s \<and> public_key = None \<and> v_validation v = pinned jwt HS256 \<and> v_key v = from_secret jwt s) \<or>
          (\<exists>pem. public_key = Some pem \<and> secret = None \<and>
             (v_validation v = pinned jwt RS256 \<and> from_rsa_pem jwt pem = Inr (v_key v) \<or>
              v_validation v = pinned jwt ES256 \<and> from_ec_pem jwt pem = Inr (v_key v))))"
  using assms
  by (auto simp: verifier_build_def Let_def bind_res_Inr_iff split: option.splits if_splits sum.splits)

lemma pinned_algorithms: "jwt_pins jwt header_alg \<Longrightarrow> algorithms (pinned jwt alg) = [alg] \<and> validate_exp (pinned jwt alg)"
  by (simp add: jwt_pins_def pinned_def)

text \<open>The interface of a bearer check.\<close>

locale bearer_gate =
  fixes gate :: "'k verifier option \<Rightarrow> string option \<Rightarrow> principal option result"
    and check :: "'k verifier \<Rightarrow> string \<Rightarrow> principal result"
  assumes gate_none: "gate vo None = Inr None"
    and gate_some: "gate (Some v) (Some t) = bind_res (check v t) (\<lambda>p. Inr (Some p))"
    and gate_unconfigured: "\<exists>m. gate None (Some t) = Inl (Unauthorized m)"
begin

lemma token_never_anonymous: "gate v (Some t) \<noteq> Inr None"
proof (cases v)
  case None
  then show ?thesis using gate_unconfigured [of t] by auto
next
  case (Some v')
  then show ?thesis by (cases "check v' t") (auto simp: gate_some)
qed

lemma principal_verified: "gate v bearer = Inr (Some p) \<longleftrightarrow> (\<exists>v' t. v = Some v' \<and> bearer = Some t \<and> check v' t = Inr p)"
proof (cases bearer)
  case None
  then show ?thesis by (simp add: gate_none)
next
  case (Some t)
  then show ?thesis using gate_unconfigured [of t]
    by (cases v) (auto simp: gate_some bind_res_Inr_iff)
qed

end

subsection \<open>Properties\<close>

text \<open>
  C21: a configured verifier yields a principal only for a token the library accepted under the
  configured key, whose header algorithm is the one pinned for the kind of key (\<open>HS256\<close> for a
  secret, \<open>RS256\<close> or \<open>ES256\<close> for a public key), whose role claim is the string that becomes the
  database role, and whose full claims are passed on; a token of another algorithm, in particular
  an \<open>HS256\<close> token signed with a public key as the secret, is \<open>Unauthorized\<close>.
\<close>

theorem verify_pins_algorithm:
  assumes "jwt_pins jwt header_alg"
    and "into_verifier jwt cfg = Inr (Some v)"
  shows "(case verify jwt json_text v token of
            Inr p \<Rightarrow>
              (jwt_secret cfg \<noteq> None \<longrightarrow> header_alg token = Some HS256) \<and>
              (jwt_secret cfg = None \<longrightarrow> header_alg token \<in> {Some RS256, Some ES256}) \<and>
              (\<exists>claims. jwt_decode jwt token (v_key v) (v_validation v) = Inr claims \<and>
                 json_get (case cfg_role_claim cfg of Some c \<Rightarrow> c | None \<Rightarrow> ''role'') claims = Some (String (role p)) \<and>
                 claims_json p = json_text claims)
          | Inl e \<Rightarrow> (\<exists>m. e = Unauthorized m)) \<and> validate_exp (v_validation v)"
proof -
  note built = verifier_build_Some [OF assms(2) [unfolded into_verifier_def]]
  have exp: "validate_exp (v_validation v)"
    using built pinned_algorithms [OF assms(1)] by auto
  show ?thesis
  proof (cases "verify jwt json_text v token")
    case (Inl e)
    then show ?thesis using exp verify_Inl [OF Inl] by simp
  next
    case (Inr p)
    then obtain claims where c: "jwt_decode jwt token (v_key v) (v_validation v) = Inr claims"
        "json_get (v_role_claim v) claims = Some (String (role p))" "claims_json p = json_text claims"
      by (auto simp: verify_Inr)
    from assms(1) c(1) obtain alg where alg: "alg \<in> set (algorithms (v_validation v))" "header_alg token = Some alg"
      unfolding jwt_pins_def by blast
    have "(jwt_secret cfg \<noteq> None \<longrightarrow> alg = HS256) \<and> (jwt_secret cfg = None \<longrightarrow> alg \<in> {RS256, ES256})"
      using built alg(1) pinned_algorithms [OF assms(1)] by auto
    then show ?thesis using Inr alg(2) exp c built by auto
  qed
qed

text \<open>A token library over strings: the algorithm is the first letter of the token.\<close>

definition sample_header :: "string \<Rightarrow> algorithm option" where
  "sample_header token =
     (case token of [] \<Rightarrow> None | c # cs \<Rightarrow>
        Some (if c = CHR ''H'' then HS256 else if c = CHR ''R'' then RS256 else ES256))"

definition sample_jwt :: "string jwt_lib" where
  "sample_jwt =
     \<lparr>from_secret = (\<lambda>s. s), from_rsa_pem = Inr, from_ec_pem = Inr,
      validation_new = (\<lambda>alg. \<lparr>algorithms = [alg], validate_exp = True, validate_aud = True\<rparr>),
      jwt_decode = (\<lambda>token key v. case sample_header token of
         Some alg \<Rightarrow> if alg \<in> set (algorithms v) \<and> drop 1 token = key
                     then Inr (mk_object [(''role'', String ''reader'')]) else Inl ''bad''
       | None \<Rightarrow> Inl ''empty'')\<rparr>"

lemma sample_jwt_pins: "jwt_pins sample_jwt sample_header"
  by (auto simp: jwt_pins_def sample_jwt_def split: option.splits if_splits)

theorem verify_pins_algorithm_witness:
  "\<exists>v p. into_verifier sample_jwt (auth_jwt_secret ''k'') = Inr (Some v) \<and>
         verify sample_jwt (\<lambda>_. ''{}'') v ''Hk'' = Inr p \<and> role p = ''reader'' \<and>
         sample_header ''Hk'' = Some HS256 \<and>
         (\<exists>m. verify sample_jwt (\<lambda>_. ''{}'') v ''Rk'' = Inl (Unauthorized m))"
proof -
  let ?v = "\<lparr>v_key = ''k'', v_validation = pinned sample_jwt HS256, v_role_claim = ''role''\<rparr>"
  have v: "into_verifier sample_jwt (auth_jwt_secret ''k'') = Inr (Some ?v)"
    by (simp add: into_verifier_def verifier_build_def auth_jwt_secret_def auth_none_def) (simp add: sample_jwt_def)
  have h: "verify sample_jwt (\<lambda>_. ''{}'') ?v ''Hk'' = Inr \<lparr>role = ''reader'', claims_json = ''{}''\<rparr>"
    by (simp add: verify_def sample_jwt_def sample_header_def pinned_def)
  have r: "\<exists>m. verify sample_jwt (\<lambda>_. ''{}'') ?v ''Rk'' = Inl (Unauthorized m)"
    by (simp add: verify_def sample_jwt_def sample_header_def pinned_def)
  have "sample_header ''Hk'' = Some HS256"
    using verify_pins_algorithm [OF sample_jwt_pins v, where json_text = "\<lambda>_. ''{}''" and token = "''Hk''"]
    unfolding h by (simp add: auth_jwt_secret_def)
  with v h r show ?thesis by (metis principal.select_convs(1))
qed

end
