(* ===== verification/SqlValidate.thy ===== *)
theory SqlValidate
  imports Classify
begin

text \<open>
  \<open>src/capability/sql_validate.rs\<close>: the admission check of the SQL endpoint (one parseable statement
  within the size bound, nothing connection-scoped, no duplicate \<open>RETURNING\<close> column) and the shape
  that decides how the statement is executed.  \<open>str::to_uppercase\<close> works on Unicode and is the
  parameter \<open>to_uppercase\<close>.
\<close>

record validated_sql =
  command :: string
  returns_rows :: bool
  needs_count_wrap :: bool

fun connection_scoped :: "statement \<Rightarrow> string option" where
  "connection_scoped SStartTransaction = Some ''BEGIN''"
| "connection_scoped SCommit = Some ''COMMIT''"
| "connection_scoped SRollback = Some ''ROLLBACK''"
| "connection_scoped SSavepoint = Some ''SAVEPOINT''"
| "connection_scoped SReleaseSavepoint = Some ''RELEASE SAVEPOINT''"
| "connection_scoped SSetTransaction = Some ''SET TRANSACTION''"
| "connection_scoped SSetVariable = Some ''SET''"
| "connection_scoped SSetTimeZone = Some ''SET TIME ZONE''"
| "connection_scoped SSetNames = Some ''SET NAMES''"
| "connection_scoped SSetNamesDefault = Some ''SET NAMES''"
| "connection_scoped SSetRole = Some ''SET ROLE''"
| "connection_scoped SListen = Some ''LISTEN''"
| "connection_scoped SNotify = Some ''NOTIFY''"
| "connection_scoped SDiscard = Some ''DISCARD''"
| "connection_scoped SDeallocate = Some ''DEALLOCATE''"
| "connection_scoped SPrepare = Some ''PREPARE''"
| "connection_scoped SExecute = Some ''EXECUTE''"
| "connection_scoped SCopy = Some ''COPY''"
| "connection_scoped _ = None"

definition dml :: "string \<Rightarrow> bool \<Rightarrow> validated_sql" where
  "dml cmd has_returning =
     \<lparr>command = cmd, returns_rows = has_returning, needs_count_wrap = \<not> has_returning\<rparr>"

definition ddl :: "string \<Rightarrow> validated_sql" where
  "ddl cmd = \<lparr>command = cmd, returns_rows = False, needs_count_wrap = False\<rparr>"

definition first_words :: "(string \<Rightarrow> string) \<Rightarrow> string \<Rightarrow> string" where
  "first_words to_uppercase sql = to_uppercase (join_with '' '' (take 2 (split_whitespace sql)))"

fun shape :: "sql_front \<Rightarrow> (string \<Rightarrow> string) \<Rightarrow> statement \<Rightarrow> string \<Rightarrow> validated_sql" where
  "shape front up (SQuery _) sql = \<lparr>command = ''SELECT'', returns_rows = True, needs_count_wrap = False\<rparr>"
| "shape front up (SInsert returning) sql = dml ''INSERT'' (returning \<noteq> None)"
| "shape front up (SUpdate returning) sql = dml ''UPDATE'' (returning \<noteq> None)"
| "shape front up (SDelete returning) sql = dml ''DELETE'' (returning \<noteq> None)"
| "shape front up SCreateTable sql = ddl ''CREATE TABLE''"
| "shape front up (SAlterTable _) sql = ddl ''ALTER TABLE''"
| "shape front up SCreateIndex sql = ddl ''CREATE INDEX''"
| "shape front up SCreateView sql = ddl ''CREATE VIEW''"
| "shape front up SCreateSchema sql = ddl ''CREATE SCHEMA''"
| "shape front up SCreateFunction sql = ddl ''CREATE FUNCTION''"
| "shape front up STruncate sql = ddl ''TRUNCATE TABLE''"
| "shape front up (SDrop object_type) sql =
     \<lparr>command = up (''DROP '' @ object_text front object_type), returns_rows = False, needs_count_wrap = False\<rparr>"
| "shape front up _ sql =
     \<lparr>command = first_words up sql, returns_rows = False, needs_count_wrap = False\<rparr>"

subsection \<open>Duplicate output columns\<close>

fun returning_of :: "statement \<Rightarrow> select_item list option" where
  "returning_of (SInsert returning) = returning"
| "returning_of (SUpdate returning) = returning"
| "returning_of (SDelete returning) = returning"
| "returning_of _ = None"

fun is_wildcard :: "select_item \<Rightarrow> bool" where
  "is_wildcard (Wildcard _) = True"
| "is_wildcard (QualifiedWildcard _) = True"
| "is_wildcard _ = False"

fun output_name :: "select_item \<Rightarrow> string option" where
  "output_name (ExprWithAlias _ alias) = Some (to_ascii_lowercase alias)"
| "output_name (UnnamedExpr (Identifier ident)) = Some (to_ascii_lowercase ident)"
| "output_name (UnnamedExpr (CompoundIdentifier parts)) =
     Some (if parts = [] then [] else to_ascii_lowercase (last parts))"
| "output_name _ = None"

text \<open>The loop with its set of names seen so far.\<close>

fun check_names :: "string set \<Rightarrow> select_item list \<Rightarrow> unit result" where
  "check_names seen [] = Inr ()"
| "check_names seen (item # items) =
     (case output_name item of
        None \<Rightarrow> check_names seen items
      | Some name \<Rightarrow>
          if name \<in> seen then
            Inl (Rejected (''RETURNING has more than one output column named `'' @ name @
                   ''`; alias the columns so each output name is unique''))
          else check_names (insert name seen) items)"

definition check_returning_duplicates :: "statement \<Rightarrow> unit result" where
  "check_returning_duplicates statement =
     (case returning_of statement of
        None \<Rightarrow> Inr ()
      | Some items \<Rightarrow>
          (let wildcards = length (filter is_wildcard items)
           in if wildcards > 1 \<or> (wildcards = 1 \<and> length items > 1) then
                Inl (Rejected ''RETURNING mixes a wildcard with other output columns; alias every column explicitly so each output name is unique'')
              else check_names {} items))"

subsection \<open>The validation\<close>

definition validate_one_statement ::
  "sql_front \<Rightarrow> (string \<Rightarrow> string) \<Rightarrow> string \<Rightarrow> nat \<Rightarrow> validated_sql result" where
  "validate_one_statement front up sql max_sql_bytes =
     (if length sql > max_sql_bytes then
        Inl (Rejected (''statement is '' @ show_nat (length sql) @ '' bytes; the advertised bound is '' @ show_nat max_sql_bytes))
      else case parse_sql front sql of
        Inl error \<Rightarrow> Inl (Rejected (''pgpaw.sql accepts one parseable PostgreSQL statement: '' @ error))
      | Inr [statement] \<Rightarrow>
          (case connection_scoped statement of
             Some what \<Rightarrow>
               Inl (Rejected (what @ '' is connection-scoped and unsupported: each pgpaw.sql request commits or rolls back independently and no connection state survives the call''))
           | None \<Rightarrow>
               bind_res (check_returning_duplicates statement) (\<lambda>_. Inr (shape front up statement sql)))
      | Inr statements \<Rightarrow>
          Inl (Rejected (''pgpaw.sql executes exactly one statement per request; got '' @ show_nat (length statements))))"

definition count_wrapped :: "string \<Rightarrow> string" where
  "count_wrapped sql =
     (let trimmed = trim_end_char (CHR '';'') (trim_end sql)
      in ''WITH _pgpaw_dml AS ('' @ trimmed @ '' RETURNING 1) SELECT count(*)::int8 AS _pgpaw_affected FROM _pgpaw_dml'')"

subsection \<open>Lemmas\<close>

lemma check_names_spec:
  "check_names seen items = Inr () \<longleftrightarrow>
     distinct (List.map_filter output_name items) \<and> set (List.map_filter output_name items) \<inter> seen = {}"
  by (induction seen items rule: check_names.induct)
    (auto simp: List.map_filter_simps split: option.splits)

lemma check_names_Inl: "check_names seen items = Inl e \<Longrightarrow> \<exists>m. e = Rejected m"
  by (induction seen items rule: check_names.induct) (auto split: option.splits if_splits)

definition returning_ok :: "statement \<Rightarrow> bool" where
  "returning_ok statement \<longleftrightarrow>
     (\<forall>items. returning_of statement = Some items \<longrightarrow>
        (\<forall>item \<in> set items. is_wildcard item \<longrightarrow> length items = 1) \<and>
        distinct (List.map_filter output_name items))"

lemma wildcard_count:
  "\<not> (length (filter is_wildcard items) > 1 \<or> (length (filter is_wildcard items) = 1 \<and> length items > 1)) \<longleftrightarrow>
     (\<forall>item \<in> set items. is_wildcard item \<longrightarrow> length items = 1)"
proof (cases "\<exists>item \<in> set items. is_wildcard item")
  case True
  then have "length (filter is_wildcard items) \<ge> 1"
    by (metis One_nat_def Suc_leI filter_empty_conv length_greater_0_conv)
  moreover have "length (filter is_wildcard items) \<le> length items" by simp
  moreover have "(\<forall>item \<in> set items. is_wildcard item \<longrightarrow> length items = 1) \<longleftrightarrow> length items = 1" using True by auto
  ultimately show ?thesis by linarith
next
  case False
  then have "filter is_wildcard items = []" by (simp add: filter_empty_conv)
  with False show ?thesis by auto
qed

lemma check_returning_spec: "check_returning_duplicates statement = Inr () \<longleftrightarrow> returning_ok statement"
proof (cases "returning_of statement")
  case None
  then show ?thesis by (simp add: check_returning_duplicates_def returning_ok_def)
next
  case (Some items)
  then show ?thesis
    using wildcard_count [of items] check_names_spec [of "{}" items]
    by (auto simp: check_returning_duplicates_def returning_ok_def Let_def)
qed

lemma check_returning_Inl: "check_returning_duplicates statement = Inl e \<Longrightarrow> \<exists>m. e = Rejected m"
  by (auto simp: check_returning_duplicates_def Let_def check_names_Inl split: option.splits if_splits)

definition admitted :: "sql_front \<Rightarrow> string \<Rightarrow> nat \<Rightarrow> statement \<Rightarrow> bool" where
  "admitted front sql bound statement \<longleftrightarrow>
     length sql \<le> bound \<and> parse_sql front sql = Inr [statement] \<and>
     connection_scoped statement = None \<and> returning_ok statement"

lemma validate_Inr:
  "validate_one_statement front up sql bound = Inr v \<longleftrightarrow>
     (\<exists>statement. admitted front sql bound statement \<and> v = shape front up statement sql)"
  by (auto simp: validate_one_statement_def admitted_def bind_res_Inr_iff check_returning_spec
      split: sum.splits list.splits option.splits)

lemma validate_Inl: "validate_one_statement front up sql bound = Inl e \<Longrightarrow> \<exists>m. e = Rejected m"
  by (auto simp: validate_one_statement_def bind_res_Inl_iff check_returning_Inl
      split: if_splits sum.splits list.splits option.splits)

lemma shape_modes:
  "\<not> (returns_rows (shape front up st sql) \<and> needs_count_wrap (shape front up st sql))"
  by (cases st) (auto simp: dml_def ddl_def)

lemma shape_query: "shape front up (SQuery q) sql = \<lparr>command = ''SELECT'', returns_rows = True, needs_count_wrap = False\<rparr>"
  by simp

lemma shape_returning:
  "returns_rows (shape front up st sql) \<longleftrightarrow> (\<exists>q. st = SQuery q) \<or> returning_of st \<noteq> None"
  by (cases st) (auto simp: dml_def ddl_def)

lemma shape_count:
  "needs_count_wrap (shape front up st sql) \<longleftrightarrow> (\<exists>r. st \<in> {SInsert r, SUpdate r, SDelete r}) \<and> returning_of st = None"
  by (cases st) (auto simp: dml_def ddl_def)

subsection \<open>Properties\<close>

text \<open>
  C23: a text is admitted exactly when it is within the bound and parses to one statement that is
  not connection-scoped and whose \<open>RETURNING\<close> names, if any, are distinct with a wildcard only on
  its own; every refusal is \<open>Rejected\<close>.  An admitted statement is executed in one of four modes
  that exclude each other: rows come back from queries and \<open>RETURNING\<close>, and the affected rows are
  counted for data modification without it.
\<close>

theorem validate_admits_iff:
  "case validate_one_statement front up sql bound of
     Inr v \<Rightarrow> (\<exists>st. admitted front sql bound st \<and> v = shape front up st sql \<and>
                 (returns_rows v \<longleftrightarrow> (\<exists>q. st = SQuery q) \<or> returning_of st \<noteq> None) \<and>
                 (needs_count_wrap v \<longleftrightarrow> (\<exists>r. st \<in> {SInsert r, SUpdate r, SDelete r}) \<and> returning_of st = None) \<and>
                 \<not> (returns_rows v \<and> needs_count_wrap v))
   | Inl e \<Rightarrow> (\<exists>m. e = Rejected m) \<and> \<not> (\<exists>st. admitted front sql bound st)"
proof (cases "validate_one_statement front up sql bound")
  case (Inl e)
  then show ?thesis
    using validate_Inl [OF Inl] validate_Inr [of front up sql bound] by auto
next
  case (Inr v)
  then obtain st where "admitted front sql bound st" "v = shape front up st sql" using validate_Inr by blast
  then show ?thesis using Inr shape_modes shape_returning shape_count by auto
qed

theorem validate_admits_iff_witness:
  "\<exists>v. validate_one_statement ((sample_front (sample_query [] None) [] [])\<lparr>parse_sql := \<lambda>_. Inr [SInsert None]\<rparr>) (\<lambda>s. s) ''insert into t values (1)'' 100 = Inr v \<and>
       needs_count_wrap v"
proof -
  let ?front = "(sample_front (sample_query [] None) [] [])\<lparr>parse_sql := \<lambda>_. Inr [SInsert None]\<rparr>"
  let ?r = "validate_one_statement ?front (\<lambda>s. s) ''insert into t values (1)'' 100"
  have adm: "admitted ?front ''insert into t values (1)'' 100 st \<longleftrightarrow> st = SInsert None" for st
    by (auto simp: admitted_def returning_ok_def)
  show ?thesis
    using validate_admits_iff [where front = ?front and up = "\<lambda>s. s" and sql = "''insert into t values (1)''" and bound = 100]
    unfolding adm by (cases ?r) auto
qed

end
