(* ===== verification/Rows.thy ===== *)
theory Rows
  imports Auth Engine SqlValidate
begin

text \<open>
  \<open>src/capability/rows.rs\<close> and the constants of \<open>src/capability/sql.rs\<close>: every query the program
  sends to the engine on behalf of a caller.  A scoped query runs in a transaction whose first
  statements set the time limit, the claims, the headers and the role; \<open>scope_script\<close> is that
  prefix.  The lemmas determine the commands each operation issues, for every engine.

  The quoting of literals and identifiers is stated as the locale \<open>quoting\<close>, interpreted on
  \<open>sql_literal\<close> and \<open>sql_ident\<close>.
\<close>

definition MAX_SQL_BYTES :: nat where
  "MAX_SQL_BYTES = 1024 * 1024"

definition MAX_RESULT_BYTES :: nat where
  "MAX_RESULT_BYTES = 8 * 1024 * 1024"

definition SQL_DEADLINE_SECS :: nat where
  "SQL_DEADLINE_SECS = 30"

definition DEFAULT_PUBLIC_ROLE :: string where
  "DEFAULT_PUBLIC_ROLE = ''pgpaw_public''"

subsection \<open>Quoting and wrapping\<close>

definition sql_literal :: "string \<Rightarrow> string" where
  "sql_literal v = [CHR 0x27] @ replace_char (CHR 0x27) [CHR 0x27, CHR 0x27] v @ [CHR 0x27]"

definition sql_ident :: "string \<Rightarrow> string" where
  "sql_ident v = [CHR 0x22] @ replace_char (CHR 0x22) [CHR 0x22, CHR 0x22] v @ [CHR 0x22]"

definition wrap_json :: "string \<Rightarrow> string" where
  "wrap_json sql =
     ''select coalesce(jsonb_agg(to_jsonb(_t)), '' @ [CHR 0x27] @ ''[]'' @ [CHR 0x27] @
     ''::jsonb)::text as j from ('' @ sql @ '') _t''"

definition scoped_role :: "principal option \<Rightarrow> string" where
  "scoped_role p = (case p of Some p \<Rightarrow> role p | None \<Rightarrow> DEFAULT_PUBLIC_ROLE)"

subsection \<open>Parameters\<close>

text \<open>
  The PostgreSQL types a JSON parameter may be bound to, and what is handed to the encoders of the
  \<open>postgres_types\<close> package: a value of the target width, a text, or raw bytes.
\<close>

datatype pg_type = BOOL | INT2 | INT4 | INT8 | FLOAT4 | FLOAT8 | TEXT | VARCHAR | BPCHAR | NAME | UNKNOWN
  | JSON | JSONB | OtherType string

datatype encoded =
    IsNull
  | EncBool bool
  | EncInt2 "16 word"
  | EncInt4 "32 word"
  | EncInt8 "64 word"
  | EncFloat4 u32
  | EncFloat8 u64
  | EncText string
  | EncRaw string

definition serialized :: "json_printer \<Rightarrow> json \<Rightarrow> string" where
  "serialized json_text v = (case v of String s \<Rightarrow> s | other \<Rightarrow> json_text other)"

definition text_error :: "json_printer \<Rightarrow> (pg_type \<Rightarrow> string) \<Rightarrow> json \<Rightarrow> pg_type \<Rightarrow> string + encoded" where
  "text_error json_text type_name v ty =
     Inl (''JSON parameter '' @ json_text v @ '' cannot bind to PostgreSQL type `'' @ type_name ty @ ''`; cast explicitly in SQL'')"

text \<open>\<open>i16::try_from\<close> and \<open>i32::try_from\<close> of an \<open>i64\<close>.\<close>

definition try_from_int :: "nat \<Rightarrow> int \<Rightarrow> string + int" where
  "try_from_int w i =
     (if - (2 ^ (w - 1)) \<le> i \<and> i < 2 ^ (w - 1) then Inr i
      else Inl ''out of range integral type conversion attempted'')"

definition integer :: "json \<Rightarrow> int option" where
  "integer v = as_i64 v"

definition to_sql ::
  "json_printer \<Rightarrow> (pg_type \<Rightarrow> string) \<Rightarrow> (json \<Rightarrow> u64 option) \<Rightarrow> (u64 \<Rightarrow> u32) \<Rightarrow> json \<Rightarrow> pg_type \<Rightarrow> string + encoded" where
  "to_sql json_text type_name float_of narrow_float v ty =
     (if v = Null then Inr IsNull
      else case ty of
        BOOL \<Rightarrow> (case v of Bool b \<Rightarrow> Inr (EncBool b) | other \<Rightarrow> text_error json_text type_name other ty)
      | INT2 \<Rightarrow> (case integer v of
                  None \<Rightarrow> text_error json_text type_name v ty
                | Some i \<Rightarrow> bind_res (try_from_int 16 i) (\<lambda>i. Inr (EncInt2 (of_int i))))
      | INT4 \<Rightarrow> (case integer v of
                  None \<Rightarrow> text_error json_text type_name v ty
                | Some i \<Rightarrow> bind_res (try_from_int 32 i) (\<lambda>i. Inr (EncInt4 (of_int i))))
      | INT8 \<Rightarrow> (case integer v of
                  None \<Rightarrow> text_error json_text type_name v ty
                | Some i \<Rightarrow> Inr (EncInt8 (of_int i)))
      | FLOAT4 \<Rightarrow> (case float_of v of
                    Some f \<Rightarrow> Inr (EncFloat4 (narrow_float f))
                  | None \<Rightarrow> text_error json_text type_name v ty)
      | FLOAT8 \<Rightarrow> (case float_of v of
                    Some f \<Rightarrow> Inr (EncFloat8 f)
                  | None \<Rightarrow> text_error json_text type_name v ty)
      | JSON \<Rightarrow> Inr (EncRaw (serialized json_text v))
      | JSONB \<Rightarrow> Inr (EncRaw (CHR 0x01 # serialized json_text v))
      | OtherType other \<Rightarrow>
          Inl (''a JSON parameter cannot bind to PostgreSQL type `'' @ type_name ty @
               ''`; bind it as text and                  cast in SQL, e.g. ($1::text)::'' @ type_name ty)
      | _ \<Rightarrow> (case v of
                String s \<Rightarrow> Inr (EncText s)
              | other \<Rightarrow> Inr (EncText (json_text other))))"

definition to_sql_params :: "json list \<Rightarrow> sql_param list" where
  "to_sql_params params = map PJson params"

subsection \<open>Scoped transactions\<close>

definition set_timeout :: string where
  "set_timeout = ''SET LOCAL statement_timeout = '' @ [CHR 0x27] @ show_nat SQL_DEADLINE_SECS @ ''s'' @ [CHR 0x27]"

definition set_claims :: "string \<Rightarrow> string" where
  "set_claims claims = ''SET LOCAL request.jwt.claims = '' @ sql_literal claims"

definition set_headers :: "string option \<Rightarrow> string" where
  "set_headers headers =
     ''SET LOCAL request.headers = '' @ sql_literal (case headers of Some h \<Rightarrow> h | None \<Rightarrow> ''{}'')"

definition set_role :: "string \<Rightarrow> string" where
  "set_role r = ''SET LOCAL ROLE '' @ sql_ident r"

definition tx_query :: "'w engine \<Rightarrow> string \<Rightarrow> ('w, row list) prog" where
  "tx_query eng sql = issue eng (TxQuery sql [])"

definition begin_scoped ::
  "'w engine \<Rightarrow> string option \<Rightarrow> string option \<Rightarrow> string option \<Rightarrow> ('w, unit) prog" where
  "begin_scoped eng as_role claims headers =
     bind_prog (issue eng Begin) (\<lambda>_. in_tx eng
       (bind_prog (tx_query eng set_timeout) (\<lambda>_.
        bind_prog (case claims of
                     Some c \<Rightarrow> bind_prog (tx_query eng (set_claims c)) (\<lambda>_. return_prog ())
                   | None \<Rightarrow> return_prog ()) (\<lambda>_.
        bind_prog (tx_query eng (set_headers headers)) (\<lambda>_.
          case as_role of
            Some r \<Rightarrow> bind_prog (tx_query eng (set_role r)) (\<lambda>_. return_prog ())
          | None \<Rightarrow> return_prog ())))))"

subsection \<open>Column names\<close>

definition duplicate_column :: "string \<Rightarrow> cache_error" where
  "duplicate_column name = Rejected
     (''result has more than one column named `'' @ name @
      ''`; alias the columns so each is unique (e.g. select a.id as a_id, b.id as b_id) '' @
      [CHR 0xE2, CHR 0x80, CHR 0x94] @ '' a live query needs a stable per-row identity'')"

fun unique_columns :: "string set \<Rightarrow> string list \<Rightarrow> unit result" where
  "unique_columns seen [] = Inr ()"
| "unique_columns seen (column # columns) =
     (if to_ascii_lowercase column \<in> seen then Inl (duplicate_column column)
      else unique_columns (insert (to_ascii_lowercase column) seen) columns)"

definition probe_sql :: "string \<Rightarrow> string" where
  "probe_sql sql = ''select * from ('' @ sql @ '') _pgpaw_cols limit 1''"

definition ensure_unique_columns ::
  "'w engine \<Rightarrow> principal option \<Rightarrow> string option \<Rightarrow> string \<Rightarrow> json list \<Rightarrow> ('w, unit) prog" where
  "ensure_unique_columns eng who headers sql params =
     bind_prog
       (if who = None \<and> headers = None then
          issue eng (Query (probe_sql sql) (to_sql_params params))
        else
          bind_prog (begin_scoped eng (Some (scoped_role who)) (map_option claims_json who) headers) (\<lambda>_.
          bind_prog (in_tx eng (issue eng (TxQuery (probe_sql sql) (to_sql_params params)))) (\<lambda>rows.
          bind_prog (issue eng Commit) (\<lambda>_. return_prog rows))))
       (\<lambda>rows. lift_prog (case rows of [] \<Rightarrow> Inr () | r # _ \<Rightarrow> unique_columns {} (row_columns r)))"

subsection \<open>Reads\<close>

definition first_text :: "row list \<Rightarrow> string option result" where
  "first_text rows = (case rows of [] \<Rightarrow> Inr None | r # _ \<Rightarrow> get_opt_text r 0)"

definition or_empty :: "string option \<Rightarrow> string" where
  "or_empty t = (case t of Some t \<Rightarrow> t | None \<Rightarrow> ''[]'')"

definition query_json_scoped ::
  "'w engine \<Rightarrow> principal option \<Rightarrow> string option \<Rightarrow> string \<Rightarrow> json list \<Rightarrow> ('w, string) prog" where
  "query_json_scoped eng who headers sql params =
     bind_prog
       (if who = None \<and> headers = None then
          bind_prog (issue eng (Query (wrap_json sql) (to_sql_params params))) (\<lambda>rows.
            lift_prog (first_text rows))
        else
          bind_prog (begin_scoped eng (Some (scoped_role who)) (map_option claims_json who) headers) (\<lambda>_.
          bind_prog (in_tx eng (bind_prog (issue eng (TxQuery (wrap_json sql) (to_sql_params params))) (\<lambda>rows.
            lift_prog (first_text rows)))) (\<lambda>t.
          bind_prog (issue eng Commit) (\<lambda>_. return_prog t))))
       (\<lambda>t. return_prog (or_empty t))"

subsection \<open>The SQL endpoint's statement\<close>

record rows_outcome =
  rows_json :: string
  rows_affected :: u64

definition check_result_bound :: "string \<Rightarrow> nat \<Rightarrow> unit result" where
  "check_result_bound rows max_result_bytes =
     (if length rows > max_result_bytes then
        Inl (Rejected (''result is '' @ show_nat (length rows) @ '' bytes; the advertised bound is '' @
               show_nat max_result_bytes @ '' '' @ [CHR 0xE2, CHR 0x80, CHR 0x94] @
               '' nothing was committed; narrow the query or paginate with LIMIT/OFFSET''))
      else Inr ())"

definition wrap_select :: "string \<Rightarrow> string" where
  "wrap_select sql =
     ''WITH _pgpaw_q AS ('' @ sql @
     ''), _pgpaw_rows AS ( SELECT to_jsonb(_pgpaw_q) AS r, (SELECT count(*) FROM json_object_keys(row_to_json(_pgpaw_q))) AS total, (SELECT count(*) FROM jsonb_object_keys(to_jsonb(_pgpaw_q))) AS distinct_keys FROM _pgpaw_q) SELECT coalesce(jsonb_agg(r), '' @
     [CHR 0x27] @ ''[]'' @ [CHR 0x27] @
     ''::jsonb)::text AS j, coalesce(bool_or(total <> distinct_keys), false) AS duplicated FROM _pgpaw_rows''"

definition wrap_returning :: "string \<Rightarrow> string" where
  "wrap_returning sql =
     ''WITH _pgpaw_dml AS ('' @ trim_end_char (CHR '';'') (trim_end sql) @
     '') select coalesce(jsonb_agg(to_jsonb(_t)), '' @ [CHR 0x27] @ ''[]'' @ [CHR 0x27] @
     ''::jsonb)::text as j from _pgpaw_dml _t''"

definition read_select :: "nat \<Rightarrow> row list \<Rightarrow> rows_outcome result" where
  "read_select max_result_bytes rows =
     bind_res (case rows of
                 [] \<Rightarrow> Inr (None, None)
               | r # _ \<Rightarrow> bind_res (get_opt_text r 0) (\<lambda>t. bind_res (get_opt_bool r 1) (\<lambda>d. Inr (t, d))))
       (\<lambda>(t, duplicated).
         if (case duplicated of Some d \<Rightarrow> d | None \<Rightarrow> False) then
           Inl (Rejected ''result has more than one column with the same name; alias the columns so each output name is unique'')
         else bind_res (check_result_bound (or_empty t) max_result_bytes) (\<lambda>_.
           Inr \<lparr>rows_json = or_empty t, rows_affected = 0\<rparr>))"

definition returned_count :: "json_parser \<Rightarrow> string \<Rightarrow> u64" where
  "returned_count from_str rows =
     (case Option.bind (from_str rows) as_array of Some xs \<Rightarrow> of_nat (length xs) | None \<Rightarrow> 0)"

definition read_returning :: "json_parser \<Rightarrow> nat \<Rightarrow> row list \<Rightarrow> rows_outcome result" where
  "read_returning from_str max_result_bytes rows =
     bind_res (first_text rows) (\<lambda>t.
     bind_res (check_result_bound (or_empty t) max_result_bytes) (\<lambda>_.
       Inr \<lparr>rows_json = or_empty t, rows_affected = returned_count from_str (or_empty t)\<rparr>))"

definition read_count :: "row list \<Rightarrow> rows_outcome result" where
  "read_count rows =
     bind_res (case rows of [] \<Rightarrow> Inr 0 | r # _ \<Rightarrow> bind_res (get_opt_int r 0) (\<lambda>n. Inr (case n of Some n \<Rightarrow> n | None \<Rightarrow> 0)))
       (\<lambda>affected. Inr \<lparr>rows_json = ''[]'', rows_affected = of_int (max affected 0)\<rparr>)"

text \<open>The text sent for a validated statement, and the reading of the engine's answer.\<close>

definition statement_sql :: "validated_sql \<Rightarrow> string \<Rightarrow> string" where
  "statement_sql validated sql =
     (if command validated = ''SELECT'' then wrap_select sql
      else if returns_rows validated then wrap_returning sql
      else if needs_count_wrap validated then count_wrapped sql
      else sql)"

definition read_outcome :: "json_parser \<Rightarrow> validated_sql \<Rightarrow> nat \<Rightarrow> row list \<Rightarrow> rows_outcome result" where
  "read_outcome from_str validated max_result_bytes rows =
     (if command validated = ''SELECT'' then read_select max_result_bytes rows
      else if returns_rows validated then read_returning from_str max_result_bytes rows
      else if needs_count_wrap validated then read_count rows
      else Inr \<lparr>rows_json = ''[]'', rows_affected = 0\<rparr>)"

definition run_sql_as ::
  "'w engine \<Rightarrow> json_parser \<Rightarrow> string \<Rightarrow> string option \<Rightarrow> string option \<Rightarrow> validated_sql \<Rightarrow> string \<Rightarrow> json list \<Rightarrow>
   nat \<Rightarrow> ('w, rows_outcome) prog" where
  "run_sql_as eng from_str as_role claims headers validated sql params max_result_bytes =
     bind_prog (begin_scoped eng (Some as_role) claims headers) (\<lambda>_ s.
       case bind_prog (issue eng (TxQuery (statement_sql validated sql) (to_sql_params params))) (\<lambda>rows.
              lift_prog (read_outcome from_str validated max_result_bytes rows)) s of
         (Inr outcome, s') \<Rightarrow> bind_prog (issue eng Commit) (\<lambda>_. return_prog outcome) s'
       | (Inl error, s') \<Rightarrow> bind_prog (issue_ignored eng Rollback) (\<lambda>_. fail_prog error) s')"

subsection \<open>Quoted tokens\<close>

text \<open>
  How the engine's lexer reads a quoted token: from the opening quote to the first quote that is
  not doubled.  \<open>quoting\<close> says that a quoting function is read back as its argument whatever text
  follows it, so the argument can neither end the token nor change the text after it.
\<close>

fun scan_quoted :: "char \<Rightarrow> string \<Rightarrow> (string \<times> string) option" where
  "scan_quoted q [] = None"
| "scan_quoted q (c # cs) =
     (if c \<noteq> q then map_option (\<lambda>(v, rest). (c # v, rest)) (scan_quoted q cs)
      else (case cs of
              [] \<Rightarrow> Some ([], [])
            | d # ds \<Rightarrow> if d = q then map_option (\<lambda>(v, rest). (q # v, rest)) (scan_quoted q ds) else Some ([], cs)))"

definition read_quoted :: "char \<Rightarrow> string \<Rightarrow> (string \<times> string) option" where
  "read_quoted q s = (case s of [] \<Rightarrow> None | c # cs \<Rightarrow> if c = q then scan_quoted q cs else None)"

definition quote_free_start :: "char \<Rightarrow> string \<Rightarrow> bool" where
  "quote_free_start q rest \<longleftrightarrow> rest = [] \<or> hd rest \<noteq> q"

locale quoting =
  fixes quote :: "string \<Rightarrow> string" and q :: char
  assumes reads_back: "quote_free_start q rest \<Longrightarrow> read_quoted q (quote v @ rest) = Some (v, rest)"
begin

lemma quote_confined:
  assumes "quote v @ rest = quote w @ rest'" and "quote_free_start q rest" and "quote_free_start q rest'"
  shows "v = w \<and> rest = rest'"
  using reads_back [OF assms(2), of v] reads_back [OF assms(3), of w] unfolding assms(1) by simp

lemma quote_inj: "quote v = quote w \<Longrightarrow> v = w"
  using quote_confined [of v "[]" w "[]"] by (simp add: quote_free_start_def)

end

lemma scan_doubled:
  assumes "quote_free_start q rest"
  shows "scan_quoted q (replace_char q [q, q] v @ q # rest) = Some (v, rest)"
proof (induction v)
  case Nil
  then show ?case using assms by (cases rest) (simp_all add: replace_char_def quote_free_start_def)
next
  case (Cons c v)
  have "replace_char q [q, q] (c # v) = (if c = q then [q, q] else [c]) @ replace_char q [q, q] v"
    by (simp add: replace_char_def)
  then show ?case using Cons by simp
qed

interpretation lit: quoting sql_literal "CHR 0x27"
  by unfold_locales (simp add: sql_literal_def read_quoted_def scan_doubled)

interpretation idt: quoting sql_ident "CHR 0x22"
  by unfold_locales (simp add: sql_ident_def read_quoted_def scan_doubled)

subsection \<open>The commands of a scoped operation\<close>

definition scope_script :: "string \<Rightarrow> string option \<Rightarrow> string option \<Rightarrow> db_cmd list" where
  "scope_script as_role claims headers =
     [Begin, TxQuery set_timeout []] @
     (case claims of Some c \<Rightarrow> [TxQuery (set_claims c) []] | None \<Rightarrow> []) @
     [TxQuery (set_headers headers) [], TxQuery (set_role as_role) []]"

lemma issues_tx_query: "issues (tx_query eng sql) [TxQuery sql []]"
  by (simp add: tx_query_def issues_issue)

lemma begin_scoped_issues: "issues_tx (begin_scoped eng (Some r) claims headers) (scope_script r claims headers)"
proof -
  let ?cl = "case claims of Some c \<Rightarrow> [TxQuery (set_claims c) []] | None \<Rightarrow> []"
  have 1: "issues (bind_prog (tx_query eng sql) (\<lambda>_. return_prog ())) [TxQuery sql []]" for sql
    using issues_bind [OF issues_tx_query issues_return] by simp
  have 2: "issues (case claims of Some c \<Rightarrow> bind_prog (tx_query eng (set_claims c)) (\<lambda>_. return_prog ())
                   | None \<Rightarrow> return_prog ()) ?cl"
    using 1 issues_return by (cases claims) auto
  have "issues_tx (begin_scoped eng (Some r) claims headers)
      ([Begin] @ ([TxQuery set_timeout []] @ (?cl @ ([TxQuery (set_headers headers) []] @ [TxQuery (set_role r) []]))))"
    unfolding begin_scoped_def option.case
    by (rule issues_tx_bind [OF issues_txI [OF issues_issue] issues_tx_in_tx [OF issues_bind [OF
            issues_tx_query issues_bind [OF 2 issues_bind [OF issues_tx_query 1]]]]])
  then show ?thesis by (simp add: scope_script_def)
qed

definition scoped_read_script :: "principal option \<Rightarrow> string option \<Rightarrow> db_cmd \<Rightarrow> db_cmd list" where
  "scoped_read_script who headers query =
     scope_script (scoped_role who) (map_option claims_json who) headers @ [query, Commit]"

lemma scoped_read_issues:
  assumes "issues m [query]" and "\<And>a. issues (f a) []"
  shows "issues_tx (bind_prog (begin_scoped eng (Some (scoped_role who)) (map_option claims_json who) headers) (\<lambda>_.
            bind_prog (in_tx eng (bind_prog m f)) (\<lambda>t. bind_prog (issue eng Commit) (\<lambda>_. return_prog t))))
          (scoped_read_script who headers query)"
proof -
  have 1: "issues (bind_prog m f) [query]" using issues_bind [OF assms] by simp
  have 2: "issues (bind_prog (issue eng Commit) (\<lambda>_. return_prog t)) [Commit]" for t
    using issues_bind [OF issues_issue issues_return] by simp
  have script: "scoped_read_script who headers query =
      scope_script (scoped_role who) (map_option claims_json who) headers @ ([query] @ [Commit])"
    by (simp add: scoped_read_script_def)
  show ?thesis
    unfolding script
    by (rule issues_tx_bind [OF begin_scoped_issues issues_tx_bind [OF issues_tx_in_tx [OF 1] issues_txI [OF 2]]])
qed

lemma query_json_scoped_issues:
  "issues_tx (query_json_scoped eng who headers sql params)
     (if who = None \<and> headers = None then [Query (wrap_json sql) (to_sql_params params)]
      else scoped_read_script who headers (TxQuery (wrap_json sql) (to_sql_params params)))"
proof (cases "who = None \<and> headers = None")
  case True
  then show ?thesis
    using issues_txI [OF issues_bind [OF issues_bind [OF issues_issue issues_lift] issues_return]]
    by (simp add: query_json_scoped_def)
next
  case False
  have "issues_tx (query_json_scoped eng who headers sql params)
      (scoped_read_script who headers (TxQuery (wrap_json sql) (to_sql_params params)) @ [])"
    unfolding query_json_scoped_def if_not_P [OF False]
    by (rule issues_tx_bind [OF scoped_read_issues [OF issues_issue issues_lift] issues_txI [OF issues_return]])
  then show ?thesis unfolding if_not_P [OF False] by simp
qed

lemma run_statement_cases:
  assumes "bind_prog (issue eng c) (\<lambda>rows. lift_prog (f rows)) s = (r, t)"
  shows "trace t = trace s @ [c] \<and>
    (is_ok r \<longrightarrow> (\<exists>w w' rows. eng c w = (Inr rows, w') \<and> f rows = r))"
proof -
  obtain q w' where e: "eng c (world s) = (q, w')" by (cases "eng c (world s)")
  show ?thesis using assms e by (cases q) (auto simp: bind_prog_def issue_def)
qed

lemma run_sql_as_cases:
  assumes "run_sql_as eng from_str as_role claims headers validated sql params bound s = (r, t)"
  defines "scope \<equiv> scope_script as_role claims headers"
    and "stmt \<equiv> TxQuery (statement_sql validated sql) (to_sql_params params)"
  obtains (scope_failed) cs where "\<not> is_ok r" "trace t = trace s @ cs" "aborted scope cs"
        | (rolled_back) "\<not> is_ok r" "trace t = trace s @ scope @ [stmt, Rollback]"
        | (committed) out w w' rows where "eng stmt w = (Inr rows, w')"
            "read_outcome from_str validated bound rows = Inr out"
            "trace t = trace s @ scope @ [stmt, Commit]" "is_ok r \<Longrightarrow> r = Inr out"
proof -
  let ?run = "bind_prog (issue eng stmt) (\<lambda>rows. lift_prog (read_outcome from_str validated bound rows))"
  let ?k = "\<lambda>_ s'. case ?run s' of
      (Inr outcome, s'') \<Rightarrow> bind_prog (issue eng Commit) (\<lambda>_. return_prog outcome) s''
    | (Inl error, s'') \<Rightarrow> bind_prog (issue_ignored eng Rollback) (\<lambda>_. fail_prog error) s''"
  have "bind_prog (begin_scoped eng (Some as_role) claims headers) ?k s = (r, t)"
    using assms(1) by (simp add: run_sql_as_def stmt_def)
  then consider (err) e where "begin_scoped eng (Some as_role) claims headers s = (Inl e, t)" "r = Inl e"
    | (ok) s1 where "begin_scoped eng (Some as_role) claims headers s = (Inr (), s1)" "?k () s1 = (r, t)"
    by (rule bind_prog_cases) auto
  then show ?thesis
  proof cases
    case err
    then show ?thesis
      using issues_txE [OF begin_scoped_issues err(1)] scope_failed unfolding scope_def by (metis is_ok_simps(1))
  next
    case ok
    have s1: "trace s1 = trace s @ scope"
      using issues_txE [OF begin_scoped_issues ok(1)] unfolding scope_def by (metis is_ok_simps(2))
    obtain q s2 where run: "?run s1 = (q, s2)" by (cases "?run s1")
    note st = run_statement_cases [OF run]
    show ?thesis
    proof (cases q)
      case (Inl e)
      then have "bind_prog (issue_ignored eng Rollback) (\<lambda>_. fail_prog e) s2 = (r, t)" using ok(2) run by simp
      then show ?thesis
        using rolled_back st s1 by (auto simp: bind_prog_def issue_ignored_def)
    next
      case (Inr out)
      then have c: "bind_prog (issue eng Commit) (\<lambda>_. return_prog out) s2 = (r, t)" using ok(2) run by simp
      from st Inr obtain w w' rows where eng: "eng stmt w = (Inr rows, w')"
          "read_outcome from_str validated bound rows = Inr out" by auto
      have "trace t = trace s @ scope @ [stmt, Commit]" "is_ok r \<longrightarrow> r = Inr out"
        using c st s1 by (auto elim!: bind_prog_cases dest: issue_traceD)
      then show ?thesis using committed [OF eng] by blast
    qed
  qed
qed

lemma check_result_bound_ok: "check_result_bound rows bound = Inr () \<longleftrightarrow> length rows \<le> bound"
  by (simp add: check_result_bound_def)

lemma read_outcome_bounded:
  assumes "read_outcome from_str validated bound rows = Inr out"
  shows "rows_json out = ''[]'' \<or> length (rows_json out) \<le> bound"
  using assms
  by (auto simp: read_outcome_def read_select_def read_returning_def read_count_def bind_res_Inr_iff
      check_result_bound_ok split: if_splits)

lemma unique_columns_spec:
  "unique_columns seen cols = Inr () \<longleftrightarrow>
     distinct (map to_ascii_lowercase cols) \<and> to_ascii_lowercase ` set cols \<inter> seen = {}"
  by (induction seen cols rule: unique_columns.induct) auto

lemma ensure_unique_columns_issues:
  "issues_tx (ensure_unique_columns eng who headers sql params)
     (if who = None \<and> headers = None then [Query (probe_sql sql) (to_sql_params params)]
      else scoped_read_script who headers (TxQuery (probe_sql sql) (to_sql_params params)))"
proof (cases "who = None \<and> headers = None")
  case True
  then show ?thesis
    using issues_txI [OF issues_bind [OF issues_issue issues_lift]]
    by (simp add: ensure_unique_columns_def)
next
  case False
  note m = scoped_read_issues [where f = return_prog, OF issues_issue issues_return, unfolded bind_prog_return]
  have "issues_tx (ensure_unique_columns eng who headers sql params)
      (scoped_read_script who headers (TxQuery (probe_sql sql) (to_sql_params params)) @ [])"
    unfolding ensure_unique_columns_def if_not_P [OF False]
    by (rule issues_tx_bind [OF m issues_txI [OF issues_lift]])
  then show ?thesis unfolding if_not_P [OF False] by simp
qed

subsection \<open>Properties\<close>

text \<open>
  C8: whatever the engine answers, a read on behalf of an identity issues its query only inside a
  transaction whose preceding commands set the time limit, the claims, the headers and the role of
  the caller, in this order and from the quoted values; it ends with the commit when it succeeds,
  and otherwise stops at the failed command with the transaction abandoned.
\<close>

theorem scoped_read_runs_as_caller:
  assumes "who \<noteq> None \<or> headers \<noteq> None"
    and "query_json_scoped eng who headers sql params s = (r, t)"
  shows "\<exists>cs. trace t = trace s @ cs \<and>
           (let script = scope_script (scoped_role who) (map_option claims_json who) headers @
                           [TxQuery (wrap_json sql) (to_sql_params params), Commit]
            in if is_ok r then cs = script else \<exists>p. prefix p script \<and> (cs = p \<or> cs = p @ [DropTx]))"
proof -
  have "\<not> (who = None \<and> headers = None)" using assms(1) by auto
  note i = query_json_scoped_issues [of eng who headers sql params, unfolded if_not_P [OF this]]
  show ?thesis
    using issues_txE [OF i assms(2)]
    by (auto simp: Let_def aborted_def scoped_read_script_def)
qed

text \<open>An engine that answers every command with one row.\<close>

definition one_row_engine :: "cell list \<Rightarrow> unit engine" where
  "one_row_engine cells c w = (Inr [\<lparr>row_columns = [], row_cells = cells\<rparr>], w)"

theorem scoped_read_runs_as_caller_witness:
  "\<exists>t. query_json_scoped (one_row_engine [CText ''[1]'']) None (Some ''{}'') ''select 1'' [] \<lparr>world = (), trace = []\<rparr> = (Inr ''[1]'', t) \<and>
       trace t = scope_script ''pgpaw_public'' None (Some ''{}'') @ [TxQuery (wrap_json ''select 1'') [], Commit]"
proof -
  let ?run = "query_json_scoped (one_row_engine [CText ''[1]'']) None (Some ''{}'') ''select 1'' [] \<lparr>world = (), trace = []\<rparr>"
  have r: "?run = (Inr ''[1]'', snd ?run)"
    by (simp add: query_json_scoped_def begin_scoped_def bind_prog_def issue_def one_row_engine_def tx_query_def
        in_tx_def first_text_def get_opt_text_def cell_at_def or_empty_def)
  show ?thesis
    using scoped_read_runs_as_caller [OF _ r] r by (intro exI [of _ "snd ?run"])
      (simp add: Let_def to_sql_params_def scoped_role_def DEFAULT_PUBLIC_ROLE_def)
qed

text \<open>
  C7: the SQL endpoint is atomic.  A success has issued exactly the scope, the one statement and a
  commit, and its result is within the bound; a commit is issued only after the statement's answer
  was accepted, in particular found within the bound; every other run ends in a rollback or with
  the transaction abandoned before the statement was sent.
\<close>

theorem run_sql_commits_iff_accepted:
  assumes "run_sql_as eng from_str as_role claims headers validated sql params bound s = (r, t)"
  shows "\<exists>cs. trace t = trace s @ cs \<and>
     (let scope = scope_script as_role claims headers;
          stmt = TxQuery (statement_sql validated sql) (to_sql_params params)
      in (\<forall>out. r = Inr out \<longrightarrow> cs = scope @ [stmt, Commit] \<and> (rows_json out = ''[]'' \<or> length (rows_json out) \<le> bound)) \<and>
         (cs = scope @ [stmt, Commit] \<and>
            (\<exists>w w' rows out. eng stmt w = (Inr rows, w') \<and> read_outcome from_str validated bound rows = Inr out) \<or>
          cs = scope @ [stmt, Rollback] \<or>
          (\<exists>p. prefix p scope \<and> (cs = p \<or> cs = p @ [DropTx]))))"
  using assms
proof (cases rule: run_sql_as_cases)
  case (scope_failed cs)
  then show ?thesis by (cases r) (auto simp: Let_def aborted_def)
next
  case rolled_back
  then show ?thesis by (cases r) (auto simp: Let_def)
next
  case (committed out w w' rows)
  then show ?thesis using read_outcome_bounded [OF committed(2)] by (cases r) (auto simp: Let_def)
qed

theorem run_sql_commits_iff_accepted_witness:
  "\<exists>t e. run_sql_as (one_row_engine [CText ''[1,2]'', CBool False]) (\<lambda>_. None) ''app'' None None
        \<lparr>command = ''SELECT'', returns_rows = True, needs_count_wrap = False\<rparr> ''select 1'' [] 2
        \<lparr>world = (), trace = []\<rparr> = (Inl e, t) \<and> Commit \<notin> set (trace t)"
proof -
  let ?v = "\<lparr>command = ''SELECT'', returns_rows = True, needs_count_wrap = False\<rparr>"
  let ?eng = "one_row_engine [CText ''[1,2]'', CBool False]"
  let ?run = "run_sql_as ?eng (\<lambda>_. None) ''app'' None None ?v ''select 1'' [] 2 \<lparr>world = (), trace = []\<rparr>"
  have read: "\<exists>m. read_outcome (\<lambda>_. None) ?v 2 [\<lparr>row_columns = [], row_cells = [CText ''[1,2]'', CBool False]\<rparr>] = Inl (Rejected m)"
    by (simp add: read_outcome_def read_select_def get_opt_text_def get_opt_bool_def cell_at_def or_empty_def check_result_bound_def)
  then obtain e where "fst ?run = Inl e"
    by (auto simp: run_sql_as_def begin_scoped_def bind_prog_def issue_def issue_ignored_def one_row_engine_def tx_query_def in_tx_def)
  then have r: "?run = (Inl e, snd ?run)" by (metis prod.collapse)
  have "Commit \<notin> set (trace (snd ?run))"
    using run_sql_commits_iff_accepted [OF r] read
    by (auto simp: Let_def scope_script_def one_row_engine_def dest!: set_mono_prefix)
  with r show ?thesis by blast
qed



fun int_width :: "pg_type \<Rightarrow> nat option" where
  "int_width INT2 = Some 16"
| "int_width INT4 = Some 32"
| "int_width INT8 = Some 64"
| "int_width _ = None"

fun encoded_int :: "encoded \<Rightarrow> (nat \<times> int) option" where
  "encoded_int (EncInt2 w) = Some (16, sint w)"
| "encoded_int (EncInt4 w) = Some (32, sint w)"
| "encoded_int (EncInt8 w) = Some (64, sint w)"
| "encoded_int _ = None"

lemma sint_of_int_in_range:
  fixes i :: int
  assumes "- (2 ^ (LENGTH('a::len) - 1)) \<le> i" and "i < 2 ^ (LENGTH('a) - 1)"
  shows "sint (of_int i :: 'a word) = i"
  using assms by (simp add: sint_sbintrunc' signed_take_bit_int_eq_self)

lemma to_sql_integer:
  assumes "int_width ty = Some w" and "v \<noteq> Null"
  shows "to_sql json_text type_name float_of narrow_float v ty =
     (case as_i64 v of
        None \<Rightarrow> text_error json_text type_name v ty
      | Some i \<Rightarrow> bind_res (if w = 64 then Inr i else try_from_int w i) (\<lambda>i. Inr (
          if w = 16 then EncInt2 (of_int i) else if w = 32 then EncInt4 (of_int i) else EncInt8 (of_int i))))"
  using assms by (cases ty) (auto simp: to_sql_def integer_def split: option.splits)

lemma as_i64_range: "as_i64 v = Some i \<Longrightarrow> - (2 ^ 63) \<le> i \<and> i < 2 ^ 63"
  by (cases v) (auto dest: number_as_i64_range)

text \<open>
  C25: a JSON parameter bound to an integer column arrives with its exact value or not at all: it is
  accepted exactly when it is an integer of the column's width, and never truncated or wrapped.
\<close>

theorem json_integers_bind_exactly:
  assumes "int_width ty = Some w" and "v \<noteq> Null"
  shows "case to_sql json_text type_name float_of narrow_float v ty of
           Inr e \<Rightarrow> (\<exists>i. as_i64 v = Some i \<and> encoded_int e = Some (w, i))
         | Inl _ \<Rightarrow> (\<forall>i. as_i64 v = Some i \<longrightarrow> \<not> (- (2 ^ (w - 1)) \<le> i \<and> i < 2 ^ (w - 1)))"
proof (cases "as_i64 v")
  case None
  then show ?thesis by (simp add: to_sql_integer [OF assms] text_error_def)
next
  case (Some i)
  have w: "w = 16 \<or> w = 32 \<or> w = 64" using assms(1) by (cases ty) auto
  show ?thesis
    using w Some as_i64_range [OF Some] sint_of_int_in_range [where 'a = 16, of i]
      sint_of_int_in_range [where 'a = 32, of i] sint_of_int_in_range [where 'a = 64, of i]
    by (auto simp: to_sql_integer [OF assms] try_from_int_def)
qed

theorem json_integers_bind_exactly_witness:
  "\<exists>e. to_sql (\<lambda>_. []) (\<lambda>_. []) (\<lambda>_. None) (\<lambda>_. 0) (Number (PosInt 40000)) INT4 = Inr e \<and> encoded_int e = Some (32, 40000) \<and>
       (\<exists>m. to_sql (\<lambda>_. []) (\<lambda>_. []) (\<lambda>_. None) (\<lambda>_. 0) (Number (PosInt 40000)) INT2 = Inl m)"
proof -
  let ?f = "to_sql (\<lambda>_. []) (\<lambda>_. []) (\<lambda>_. None) (\<lambda>_. 0) (Number (PosInt 40000))"
  have i: "as_i64 (Number (PosInt 40000)) = Some 40000" by simp
  have e: "?f INT4 = Inr (EncInt4 40000)"
    by (simp add: to_sql_def integer_def try_from_int_def)
  have "encoded_int (EncInt4 40000) = Some (32, 40000)"
    using json_integers_bind_exactly [where ty = INT4 and w = 32 and v = "Number (PosInt 40000)"
        and json_text = "\<lambda>_. []" and type_name = "\<lambda>_. []" and float_of = "\<lambda>_. None" and narrow_float = "\<lambda>_. 0"]
    unfolding e i by simp
  moreover have "\<exists>m. ?f INT2 = Inl m" by (simp add: to_sql_def integer_def try_from_int_def)
  ultimately show ?thesis using e by blast
qed

end
