(* ===== verification/Version.thy ===== *)
theory Version
  imports Prelude
begin

text \<open>
  \<open>src/capability/version.rs\<close>: the index that turns the stream of committed transactions into the
  version of a query.  A record models the index, one function each of its methods and helpers.
  The contract of the index is the locale \<open>watermark_index\<close>: with transactions arriving in LSN
  order, the version of a query is the LSN of the last transaction that is relevant to it.  The
  interpretation \<open>vidx\<close> discharges the contract for \<open>advance\<close> and \<open>version_of\<close>, for the notion
  of relevance the code implements: a change of one of the query's tables, or, for an anchored
  single-table query, a truncation of the table or a change that carries the anchor's value.
\<close>

type_synonym columns = "(string \<times> string option) list"

text \<open>\<open>pglite::RowChange\<close> and \<open>pglite::CommittedTransaction\<close>, the data of the replication stream.\<close>

datatype row_change =
    Change_Insert string string columns
  | Change_Update string string columns columns
  | Change_Delete string string columns
  | Change_Truncate string string

record committed_transaction =
  xid :: u32
  commit_lsn :: u64
  end_lsn :: u64
  commit_ts :: int
  changes :: "row_change list"

record version_state =
  tables :: "string \<rightharpoonup> u64"
  vals :: "string \<times> string \<times> string \<rightharpoonup> u64"
  structural :: "string \<rightharpoonup> u64"

record version_index =
  vi_state :: version_state
  vi_pk :: "string \<rightharpoonup> string"
  vi_full :: "string set"

type_synonym filters = "(string \<times> string) list"

subsection \<open>Construction\<close>

definition state_default :: version_state where
  "state_default = \<lparr>tables = Map.empty, vals = Map.empty, structural = Map.empty\<rparr>"

text \<open>\<open>VersionIndex::new\<close>; the lists are the entries of the two arguments in iteration order, so the
  last entry wins when two names differ in case only.\<close>

definition version_index_new :: "(string \<times> string) list \<Rightarrow> string list \<Rightarrow> version_index" where
  "version_index_new pk full =
     \<lparr>vi_state = state_default,
      vi_pk = map_of (rev (map (\<lambda>(table, column). (to_ascii_lowercase table, to_ascii_lowercase column)) pk)),
      vi_full = set (map to_ascii_lowercase full)\<rparr>"

subsection \<open>Reading a change\<close>

fun change_table :: "row_change \<Rightarrow> string" where
  "change_table (Change_Insert _ table _) = table"
| "change_table (Change_Update _ table _ _) = table"
| "change_table (Change_Delete _ table _) = table"
| "change_table (Change_Truncate _ table) = table"

definition add_columns :: "columns \<Rightarrow> (string \<times> string) list" where
  "add_columns cols = List.map_filter (\<lambda>(column, value). map_option (\<lambda>v. (column, v)) value) cols"

fun change_columns :: "row_change \<Rightarrow> (string \<times> string) list" where
  "change_columns (Change_Insert _ _ row) = add_columns row"
| "change_columns (Change_Update _ _ key row) = add_columns key @ add_columns row"
| "change_columns (Change_Delete _ _ key) = add_columns key"
| "change_columns (Change_Truncate _ _) = []"

definition find_value :: "columns \<Rightarrow> string \<Rightarrow> string option" where
  "find_value cols pk =
     Option.bind (List.find (\<lambda>(column, _). eq_ignore_ascii_case column pk) cols) snd"

definition opt_list :: "'a option \<Rightarrow> 'a list" where
  "opt_list x = (case x of None \<Rightarrow> [] | Some a \<Rightarrow> [a])"

fun pk_values :: "row_change \<Rightarrow> string \<Rightarrow> string list" where
  "pk_values (Change_Insert _ _ row) pk = opt_list (find_value row pk)"
| "pk_values (Change_Update _ _ key row) pk = opt_list (find_value key pk) @ opt_list (find_value row pk)"
| "pk_values (Change_Delete _ _ key) pk = opt_list (find_value key pk)"
| "pk_values (Change_Truncate _ _) pk = []"

subsection \<open>Advancing the index\<close>

text \<open>\<open>entry(k).or_insert(0)\<close> followed by the guarded assignment.\<close>

definition raise_to :: "(string \<rightharpoonup> u64) \<Rightarrow> string \<Rightarrow> u64 \<Rightarrow> (string \<rightharpoonup> u64)" where
  "raise_to m k lsn =
     (let entry = (case m k of None \<Rightarrow> 0 | Some v \<Rightarrow> v)
      in m(k \<mapsto> (if lsn > entry then lsn else entry)))"

fun is_truncate :: "row_change \<Rightarrow> bool" where
  "is_truncate (Change_Truncate _ _) = True"
| "is_truncate _ = False"

definition insert_all ::
  "(string \<times> string \<times> string \<rightharpoonup> u64) \<Rightarrow> (string \<times> string \<times> string) list \<Rightarrow> u64 \<Rightarrow>
   (string \<times> string \<times> string \<rightharpoonup> u64)" where
  "insert_all m keys lsn = foldl (\<lambda>m k. m(k \<mapsto> lsn)) m keys"

definition advance_change :: "version_index \<Rightarrow> u64 \<Rightarrow> version_state \<Rightarrow> row_change \<Rightarrow> version_state" where
  "advance_change vi lsn st change =
     (let table = to_ascii_lowercase (change_table change);
          st1 = st\<lparr>tables := raise_to (tables st) table lsn\<rparr>
      in if is_truncate change then
           st1\<lparr>structural := raise_to (structural st1) table lsn\<rparr>
         else if table \<in> vi_full vi then
           st1\<lparr>vals := insert_all (vals st1)
                         (map (\<lambda>(column, value). (table, to_ascii_lowercase column, value)) (change_columns change)) lsn\<rparr>
         else (case vi_pk vi table of
                 None \<Rightarrow> st1
               | Some pk \<Rightarrow>
                   st1\<lparr>vals := insert_all (vals st1)
                                 (map (\<lambda>value. (table, pk, value)) (pk_values change pk)) lsn\<rparr>))"

definition advance :: "version_index \<Rightarrow> committed_transaction \<Rightarrow> version_index" where
  "advance vi txn =
     vi\<lparr>vi_state := foldl (advance_change vi (end_lsn txn)) (vi_state vi) (changes txn)\<rparr>"

subsection \<open>Looking a version up\<close>

definition is_anchorable :: "version_index \<Rightarrow> string \<Rightarrow> string \<Rightarrow> bool" where
  "is_anchorable vi table column \<longleftrightarrow>
     (if table \<in> vi_full vi then True
      else (case vi_pk vi table of Some pk \<Rightarrow> pk = column | None \<Rightarrow> False))"

definition or_zero :: "u64 option \<Rightarrow> u64" where
  "or_zero x = (case x of None \<Rightarrow> 0 | Some v \<Rightarrow> v)"

text \<open>The anchor of a query: the first filter of a single-table query on an anchorable column.\<close>

definition anchor :: "version_index \<Rightarrow> string list \<Rightarrow> filters \<Rightarrow> (string \<times> string \<times> string) option" where
  "anchor vi ts eq_filters =
     (case ts of
        [t] \<Rightarrow> (let table = to_ascii_lowercase t
                in case List.find (\<lambda>(column, _). is_anchorable vi table column) eq_filters of
                     Some (column, value) \<Rightarrow> Some (table, to_ascii_lowercase column, value)
                   | None \<Rightarrow> None)
      | _ \<Rightarrow> None)"

definition version_step :: "version_state \<Rightarrow> u64 \<Rightarrow> string \<Rightarrow> u64" where
  "version_step st m t =
     (let table = to_ascii_lowercase t;
          m1 = (case tables st table of Some v \<Rightarrow> max m v | None \<Rightarrow> m)
      in case structural st table of Some v \<Rightarrow> max m1 v | None \<Rightarrow> m1)"

definition version_of :: "version_index \<Rightarrow> string list \<Rightarrow> filters \<Rightarrow> u64" where
  "version_of vi ts eq_filters =
     (case anchor vi ts eq_filters of
        Some (table, column, value) \<Rightarrow>
          (let watermark = or_zero (vals (vi_state vi) (table, column, value));
               floor = or_zero (structural (vi_state vi) table)
           in max watermark floor)
      | None \<Rightarrow> foldl (version_step (vi_state vi)) 0 ts)"

subsection \<open>The contract of the index\<close>

text \<open>
  The interface the read operations rely on.  \<open>relevant\<close> says which transactions matter to a
  query; \<open>bounded i l\<close> says that the index has seen no LSN above \<open>l\<close>.
\<close>

locale watermark_index =
  fixes adv :: "'i \<Rightarrow> 't \<Rightarrow> 'i"
    and version :: "'i \<Rightarrow> 'q \<Rightarrow> u64"
    and lsn :: "'t \<Rightarrow> u64"
    and relevant :: "'i \<Rightarrow> 't \<Rightarrow> 'q \<Rightarrow> bool"
    and bounded :: "'i \<Rightarrow> u64 \<Rightarrow> bool"
  assumes adv_bounded: "bounded i l \<Longrightarrow> l \<le> lsn t \<Longrightarrow> bounded (adv i t) (lsn t)"
    and version_bounded: "bounded i l \<Longrightarrow> version i q \<le> l"
    and version_adv: "bounded i l \<Longrightarrow> l \<le> lsn t \<Longrightarrow>
      version (adv i t) q = (if relevant i t q then lsn t else version i q)"
    and relevant_adv: "relevant (adv i t') t q = relevant i t q"
begin

definition last_relevant :: "'i \<Rightarrow> 'q \<Rightarrow> u64 \<Rightarrow> 't list \<Rightarrow> u64" where
  "last_relevant i q v0 ts = foldl (\<lambda>v t. if relevant i t q then lsn t else v) v0 ts"

lemma version_mono: "bounded i l \<Longrightarrow> l \<le> lsn t \<Longrightarrow> version i q \<le> version (adv i t) q"
  using version_adv [of i l t q] version_bounded [of i l q] by (auto intro: order_trans)

lemma version_fresh:
  "bounded i l \<Longrightarrow> l < lsn t \<Longrightarrow> relevant i t q \<Longrightarrow> version i q < version (adv i t) q"
  using version_adv [of i l t q] version_bounded [of i l q] by (auto intro: order_le_less_trans)

lemma version_stable:
  "bounded i l \<Longrightarrow> l \<le> lsn t \<Longrightarrow> \<not> relevant i t q \<Longrightarrow> version (adv i t) q = version i q"
  using version_adv by simp

lemma version_log:
  "bounded i l \<Longrightarrow> sorted (l # map lsn ts) \<Longrightarrow>
     version (foldl adv i ts) q = foldl (\<lambda>v t. if relevant i t q then lsn t else v) (version i q) ts"
proof (induction ts arbitrary: i l)
  case Nil
  then show ?case by simp
next
  case (Cons t ts)
  from Cons.prems have lt: "l \<le> lsn t" and srt: "sorted (lsn t # map lsn ts)" by auto
  have "version (foldl adv (adv i t) ts) q =
          foldl (\<lambda>v t'. if relevant (adv i t) t' q then lsn t' else v) (version (adv i t) q) ts"
    using Cons.IH [OF adv_bounded [OF Cons.prems(1) lt] srt] .
  then show ?case
    by (simp add: relevant_adv version_adv [OF Cons.prems(1) lt])
qed

lemma version_log_bounded:
  "bounded i l \<Longrightarrow> sorted (l # map lsn ts) \<Longrightarrow> bounded (foldl adv i ts) (last (l # map lsn ts))"
proof (induction ts arbitrary: i l)
  case Nil
  then show ?case by simp
next
  case (Cons t ts)
  then show ?case using Cons.IH [OF adv_bounded] by auto
qed

lemma last_relevant_above:
  assumes "sorted_wrt (<) (l # map lsn ts)" and "t \<in> set ts" and "relevant i t q"
  shows "l < foldl (\<lambda>v t. if relevant i t q then lsn t else v) v0 ts"
  using assms
proof (induction ts rule: rev_induct)
  case Nil
  then show ?case by simp
next
  case (snoc x xs)
  have srt: "sorted_wrt (<) (l # map lsn xs)" "l < lsn x" using snoc.prems(1) by (simp_all add: sorted_wrt_append)
  show ?case
  proof (cases "relevant i x q")
    case True
    then show ?thesis using srt(2) by simp
  next
    case False
    then have "t \<in> set xs" using snoc.prems(2,3) by auto
    with snoc.IH [OF srt(1) _ snoc.prems(3)] False show ?thesis by simp
  qed
qed

text \<open>An unchanged version means that nothing relevant has happened.\<close>

lemma version_gap:
  assumes "bounded i l" and "sorted_wrt (<) (l # map lsn ts)" and "version (foldl adv i ts) q = version i q"
  shows "\<forall>t \<in> set ts. \<not> relevant i t q"
proof (intro ballI notI)
  fix t
  assume t: "t \<in> set ts" "relevant i t q"
  have "sorted (l # map lsn ts)" using assms(2) by (rule strict_sorted_imp_sorted)
  from version_log [OF assms(1) this, of q] last_relevant_above [OF assms(2) t, of "version i q"]
  have "l < version (foldl adv i ts) q" by (simp only:)
  then show False using leD [OF version_bounded [OF assms(1)]] unfolding assms(3) by blast
qed

end

subsection \<open>Relevance as the code implements it\<close>

text \<open>The entries a change writes into the value watermarks.\<close>

definition written_keys :: "version_index \<Rightarrow> row_change \<Rightarrow> (string \<times> string \<times> string) list" where
  "written_keys vi change =
     (let table = to_ascii_lowercase (change_table change)
      in if is_truncate change then []
         else if table \<in> vi_full vi then
           map (\<lambda>(column, value). (table, to_ascii_lowercase column, value)) (change_columns change)
         else (case vi_pk vi table of
                 None \<Rightarrow> []
               | Some pk \<Rightarrow> map (\<lambda>value. (table, pk, value)) (pk_values change pk)))"

definition change_relevant :: "version_index \<Rightarrow> string list \<Rightarrow> filters \<Rightarrow> row_change \<Rightarrow> bool" where
  "change_relevant vi ts fs change =
     (let table = to_ascii_lowercase (change_table change)
      in case anchor vi ts fs of
           Some (t, c, v) \<Rightarrow> (is_truncate change \<and> table = t) \<or> (t, c, v) \<in> set (written_keys vi change)
         | None \<Rightarrow> table \<in> to_ascii_lowercase ` set ts)"

definition relevant :: "version_index \<Rightarrow> committed_transaction \<Rightarrow> string list \<times> filters \<Rightarrow> bool" where
  "relevant vi txn q \<longleftrightarrow> (\<exists>change \<in> set (changes txn). change_relevant vi (fst q) (snd q) change)"

definition state_bounded :: "version_state \<Rightarrow> u64 \<Rightarrow> bool" where
  "state_bounded st l \<longleftrightarrow>
     (\<forall>t. or_zero (tables st t) \<le> l) \<and> (\<forall>k. or_zero (vals st k) \<le> l) \<and>
     (\<forall>t. or_zero (structural st t) \<le> l)"

definition vi_bounded :: "version_index \<Rightarrow> u64 \<Rightarrow> bool" where
  "vi_bounded vi l \<longleftrightarrow> state_bounded (vi_state vi) l"

lemma state_bounded_mono: "state_bounded st l \<Longrightarrow> l \<le> l' \<Longrightarrow> state_bounded st l'"
  unfolding state_bounded_def by (meson order_trans)

subsection \<open>One change\<close>

lemma or_zero_simps [simp]: "or_zero None = 0" "or_zero (Some v) = v"
  by (simp_all add: or_zero_def)

lemma raise_to_apply:
  "or_zero (raise_to m k l k') = (if k' = k then max (or_zero (m k)) l else or_zero (m k'))"
  by (auto simp: raise_to_def Let_def or_zero_def max_def split: option.splits)

lemma insert_all_apply: "insert_all m ks l k = (if k \<in> set ks then Some l else m k)"
  unfolding insert_all_def by (induction ks arbitrary: m) auto

lemma advance_change_tables:
  "tables (advance_change vi l st c) = raise_to (tables st) (to_ascii_lowercase (change_table c)) l"
  by (simp add: advance_change_def Let_def split: option.splits)

lemma advance_change_structural:
  "structural (advance_change vi l st c) =
     (if is_truncate c then raise_to (structural st) (to_ascii_lowercase (change_table c)) l
      else structural st)"
  by (simp add: advance_change_def Let_def split: option.splits)

lemma advance_change_vals:
  "vals (advance_change vi l st c) = insert_all (vals st) (written_keys vi c) l"
  by (simp add: advance_change_def written_keys_def Let_def insert_all_def split: option.splits)

lemmas advance_change_fields =
  advance_change_tables advance_change_structural advance_change_vals

lemma advance_change_bounded: "state_bounded st l \<Longrightarrow> state_bounded (advance_change vi l st c) l"
  by (auto simp: state_bounded_def advance_change_fields raise_to_apply insert_all_apply)

subsection \<open>A transaction\<close>

lemma advance_changes_bounded:
  "state_bounded st l \<Longrightarrow> state_bounded (foldl (advance_change vi l) st cs) l"
  by (induction cs arbitrary: st) (auto intro: advance_change_bounded)

lemma fold_tables:
  "state_bounded st l \<Longrightarrow>
     or_zero (tables (foldl (advance_change vi l) st cs) t) =
       (if t \<in> (\<lambda>c. to_ascii_lowercase (change_table c)) ` set cs then l else or_zero (tables st t))"
proof (induction cs arbitrary: st)
  case Nil
  then show ?case by simp
next
  case (Cons c cs)
  then show ?case
    using Cons.IH [OF advance_change_bounded [OF Cons.prems]]
    by (auto simp: advance_change_fields raise_to_apply state_bounded_def max_def)
qed

lemma fold_structural:
  "state_bounded st l \<Longrightarrow>
     or_zero (structural (foldl (advance_change vi l) st cs) t) =
       (if \<exists>c \<in> set cs. is_truncate c \<and> to_ascii_lowercase (change_table c) = t then l
        else or_zero (structural st t))"
proof (induction cs arbitrary: st)
  case Nil
  then show ?case by simp
next
  case (Cons c cs)
  then show ?case
    using Cons.IH [OF advance_change_bounded [OF Cons.prems]]
    by (auto simp: advance_change_fields raise_to_apply state_bounded_def max_def)
qed

lemma fold_vals:
  "or_zero (vals (foldl (advance_change vi l) st cs) k) =
     (if \<exists>c \<in> set cs. k \<in> set (written_keys vi c) then l else or_zero (vals st k))"
  by (induction cs arbitrary: st) (auto simp: advance_change_fields insert_all_apply)

lemma advance_config [simp]:
  "vi_pk (advance vi txn) = vi_pk vi" "vi_full (advance vi txn) = vi_full vi"
  by (simp_all add: advance_def)

lemma is_anchorable_advance [simp]: "is_anchorable (advance vi txn) t c = is_anchorable vi t c"
  by (simp add: is_anchorable_def)

lemma anchor_advance [simp]: "anchor (advance vi txn) ts fs = anchor vi ts fs"
  by (simp add: anchor_def Let_def split: list.split)

lemma written_keys_advance [simp]: "written_keys (advance vi txn) c = written_keys vi c"
  by (simp add: written_keys_def Let_def)

lemma relevant_advance: "relevant (advance vi txn') txn q = relevant vi txn q"
  by (cases "anchor vi (fst q) (snd q)") (auto simp: relevant_def change_relevant_def Let_def)

lemma version_step_eq:
  "version_step st m t =
     max m (max (or_zero (tables st (to_ascii_lowercase t))) (or_zero (structural st (to_ascii_lowercase t))))"
  by (auto simp: version_step_def Let_def or_zero_def max_def split: option.splits)

lemma version_fold_le:
  "(\<forall>t. or_zero (tables st t) \<le> l) \<Longrightarrow> (\<forall>t. or_zero (structural st t) \<le> l) \<Longrightarrow> m \<le> l \<Longrightarrow>
     foldl (version_step st) m ts \<le> l"
  by (induction ts arbitrary: m) (auto simp: version_step_eq)

lemma version_fold_ge: "m \<le> foldl (version_step st) m ts"
proof (induction ts arbitrary: m)
  case (Cons t ts)
  have "m \<le> version_step st m t" by (simp add: version_step_eq)
  also have "\<dots> \<le> foldl (version_step st) (version_step st m t) ts" by (rule Cons.IH)
  finally show ?case by simp
qed simp

lemma version_fold_member:
  "t \<in> set ts \<Longrightarrow> or_zero (tables st (to_ascii_lowercase t)) \<le> foldl (version_step st) m ts"
proof (induction ts arbitrary: m)
  case (Cons x ts)
  show ?case
  proof (cases "t = x")
    case True
    have "or_zero (tables st (to_ascii_lowercase t)) \<le> version_step st m x"
      by (simp add: True version_step_eq le_max_iff_disj)
    also have "\<dots> \<le> foldl (version_step st) (version_step st m x) ts" by (rule version_fold_ge)
    finally show ?thesis by simp
  next
    case False
    then show ?thesis using Cons by simp
  qed
qed simp

lemma version_fold_cong:
  "(\<And>t. t \<in> set ts \<Longrightarrow>
      or_zero (tables st (to_ascii_lowercase t)) = or_zero (tables st' (to_ascii_lowercase t)) \<and>
      or_zero (structural st (to_ascii_lowercase t)) = or_zero (structural st' (to_ascii_lowercase t))) \<Longrightarrow>
     foldl (version_step st) m ts = foldl (version_step st') m ts"
  by (induction ts arbitrary: m) (auto simp: version_step_eq)

subsection \<open>The code satisfies the contract\<close>

lemma vi_bounded_version: "vi_bounded vi l \<Longrightarrow> version_of vi ts fs \<le> l"
  by (auto simp: version_of_def vi_bounded_def state_bounded_def Let_def version_fold_le
      split: option.splits)

lemma vi_bounded_advance:
  assumes "vi_bounded vi l" and "l \<le> end_lsn txn"
  shows "vi_bounded (advance vi txn) (end_lsn txn)"
proof -
  have "state_bounded (vi_state vi) (end_lsn txn)"
    using assms state_bounded_mono by (auto simp: vi_bounded_def)
  then show ?thesis
    by (simp add: vi_bounded_def advance_def advance_changes_bounded)
qed

lemma advance_vals:
  "or_zero (vals (vi_state (advance vi txn)) k) =
     (if \<exists>c \<in> set (changes txn). k \<in> set (written_keys vi c) then end_lsn txn
      else or_zero (vals (vi_state vi) k))"
  by (simp add: advance_def fold_vals)

lemma advance_structural:
  "state_bounded (vi_state vi) (end_lsn txn) \<Longrightarrow>
     or_zero (structural (vi_state (advance vi txn)) t) =
       (if \<exists>c \<in> set (changes txn). is_truncate c \<and> to_ascii_lowercase (change_table c) = t
        then end_lsn txn else or_zero (structural (vi_state vi) t))"
  using fold_structural by (simp add: advance_def)

lemma advance_tables:
  "state_bounded (vi_state vi) (end_lsn txn) \<Longrightarrow>
     or_zero (tables (vi_state (advance vi txn)) t) =
       (if t \<in> (\<lambda>c. to_ascii_lowercase (change_table c)) ` set (changes txn)
        then end_lsn txn else or_zero (tables (vi_state vi) t))"
  using fold_tables by (simp add: advance_def)

lemma version_advance_anchored:
  assumes st: "state_bounded (vi_state vi) (end_lsn txn)"
    and anc: "anchor vi ts fs = Some (t, c, v)"
  shows "version_of (advance vi txn) ts fs =
           (if relevant vi txn (ts, fs) then end_lsn txn else version_of vi ts fs)"
proof -
  let ?l = "end_lsn txn"
  have "or_zero (vals (vi_state vi) (t, c, v)) \<le> ?l" "or_zero (structural (vi_state vi) t) \<le> ?l"
    using st by (auto simp: state_bounded_def)
  moreover have "version_of (advance vi txn) ts fs =
      max (if \<exists>ch \<in> set (changes txn). (t, c, v) \<in> set (written_keys vi ch) then ?l
           else or_zero (vals (vi_state vi) (t, c, v)))
          (if \<exists>ch \<in> set (changes txn). is_truncate ch \<and> to_ascii_lowercase (change_table ch) = t then ?l
           else or_zero (structural (vi_state vi) t))"
    using anc by (simp only: version_of_def anchor_advance option.case prod.case Let_def
        advance_vals advance_structural [OF st])
  moreover have "version_of vi ts fs =
      max (or_zero (vals (vi_state vi) (t, c, v))) (or_zero (structural (vi_state vi) t))"
    using anc by (simp add: version_of_def Let_def)
  ultimately show ?thesis
    using anc by (auto simp: relevant_def change_relevant_def Let_def max_def)
qed

lemma version_advance_table_level:
  assumes st: "state_bounded (vi_state vi) (end_lsn txn)"
    and anc: "anchor vi ts fs = None"
  shows "version_of (advance vi txn) ts fs =
           (if relevant vi txn (ts, fs) then end_lsn txn else version_of vi ts fs)"
proof -
  let ?l = "end_lsn txn" and ?st' = "vi_state (advance vi txn)"
  let ?touched = "(\<lambda>c. to_ascii_lowercase (change_table c)) ` set (changes txn)"
  have rel: "relevant vi txn (ts, fs) \<longleftrightarrow> (\<exists>t \<in> set ts. to_ascii_lowercase t \<in> ?touched)"
    using anc unfolding relevant_def change_relevant_def Let_def
    by (simp add: image_iff) (metis (no_types, lifting))
  have new: "version_of (advance vi txn) ts fs = foldl (version_step ?st') 0 ts"
    and old: "version_of vi ts fs = foldl (version_step (vi_state vi)) 0 ts"
    using anc by (simp_all add: version_of_def)
  have tab: "or_zero (tables ?st' t) = (if t \<in> ?touched then ?l else or_zero (tables (vi_state vi) t))" for t
    by (rule advance_tables [OF st])
  show ?thesis
  proof (cases "relevant vi txn (ts, fs)")
    case True
    then obtain t where t: "t \<in> set ts" "to_ascii_lowercase t \<in> ?touched" using rel by blast
    have "?l \<le> foldl (version_step ?st') 0 ts"
      using version_fold_member [OF t(1), of ?st' 0] t(2) tab by simp
    moreover have "foldl (version_step ?st') 0 ts \<le> ?l"
      using st advance_changes_bounded [OF st, of vi "changes txn"]
      by (intro version_fold_le) (auto simp: state_bounded_def advance_def)
    ultimately show ?thesis using True new by simp
  next
    case False
    have "foldl (version_step ?st') 0 ts = foldl (version_step (vi_state vi)) 0 ts"
    proof (rule version_fold_cong)
      fix t assume "t \<in> set ts"
      with False rel have t: "to_ascii_lowercase t \<notin> ?touched" by blast
      then have "\<not> (\<exists>c \<in> set (changes txn). is_truncate c \<and> to_ascii_lowercase (change_table c) = to_ascii_lowercase t)"
        by (metis image_eqI)
      with t show "or_zero (tables ?st' (to_ascii_lowercase t)) = or_zero (tables (vi_state vi) (to_ascii_lowercase t)) \<and>
          or_zero (structural ?st' (to_ascii_lowercase t)) = or_zero (structural (vi_state vi) (to_ascii_lowercase t))"
        using tab advance_structural [OF st, of "to_ascii_lowercase t"] by auto
    qed
    then show ?thesis using False new old by simp
  qed
qed

lemma version_of_advance:
  assumes "vi_bounded vi l" and "l \<le> end_lsn txn"
  shows "version_of (advance vi txn) ts fs =
           (if relevant vi txn (ts, fs) then end_lsn txn else version_of vi ts fs)"
proof -
  have "state_bounded (vi_state vi) (end_lsn txn)"
    using assms state_bounded_mono by (auto simp: vi_bounded_def)
  then show ?thesis
    using version_advance_anchored version_advance_table_level
    by (cases "anchor vi ts fs") auto
qed

interpretation vidx: watermark_index advance "\<lambda>vi q. version_of vi (fst q) (snd q)" end_lsn relevant vi_bounded
proof
  fix i l t and q :: "string list \<times> filters"
  show "vi_bounded i l \<Longrightarrow> l \<le> end_lsn t \<Longrightarrow> vi_bounded (advance i t) (end_lsn t)"
    by (rule vi_bounded_advance)
  show "vi_bounded i l \<Longrightarrow> version_of i (fst q) (snd q) \<le> l"
    by (rule vi_bounded_version)
  show "vi_bounded i l \<Longrightarrow> l \<le> end_lsn t \<Longrightarrow>
     version_of (advance i t) (fst q) (snd q) =
       (if relevant i t q then end_lsn t else version_of i (fst q) (snd q))"
    using version_of_advance [of i l t "fst q" "snd q"] by simp
  show "relevant (advance i t') t q = relevant i t q" for t'
    by (rule relevant_advance)
qed

lemma version_index_new_bounded: "vi_bounded (version_index_new pk full) 0"
  by (simp add: vi_bounded_def state_bounded_def version_index_new_def state_default_def)

lemma foldl_last_match:
  "foldl (\<lambda>v t. if P t then f t else v) v0 ts =
     (if filter P ts = [] then v0 else f (last (filter P ts)))"
  by (induction ts rule: rev_induct) auto

lemma version_of_log:
  assumes "sorted (map end_lsn txns)"
  shows "version_of (foldl advance (version_index_new pk full) txns) ts fs =
     (let rs = filter (\<lambda>txn. relevant (version_index_new pk full) txn (ts, fs)) txns
      in if rs = [] then 0 else end_lsn (last rs))"
proof -
  have srt: "sorted (0 # map end_lsn txns)" using assms by simp
  have "version_of (version_index_new pk full) ts fs = 0"
    using vi_bounded_version [OF version_index_new_bounded, of pk full ts fs] by simp
  then show ?thesis
    using vidx.version_log [OF version_index_new_bounded srt, of pk full "(ts, fs)"]
    by (simp add: foldl_last_match Let_def)
qed

subsection \<open>Changes that carry a column value\<close>

text \<open>A change touches a value when its old or its new row image has it in the named column.\<close>

fun touches_value :: "row_change \<Rightarrow> string \<Rightarrow> string \<Rightarrow> bool" where
  "touches_value (Change_Insert _ _ row) c v = (find_value row c = Some v)"
| "touches_value (Change_Update _ _ key row) c v = (find_value key c = Some v \<or> find_value row c = Some v)"
| "touches_value (Change_Delete _ _ key) c v = (find_value key c = Some v)"
| "touches_value (Change_Truncate _ _) c v = False"

lemma find_value_in_columns:
  assumes "find_value cols c = Some v"
  shows "\<exists>n. (n, v) \<in> set (add_columns cols) \<and> to_ascii_lowercase n = to_ascii_lowercase c"
proof -
  from assms obtain n where "(n, Some v) \<in> set cols" "eq_ignore_ascii_case n c"
    by (auto simp: find_value_def bind_eq_Some_conv dest!: find_SomeD)
  then show ?thesis
    by (force simp: add_columns_def set_map_filter_iff eq_ignore_ascii_case_def)
qed

lemma touches_value_in_columns:
  "touches_value ch c v \<Longrightarrow>
     \<exists>n. (n, v) \<in> set (change_columns ch) \<and> to_ascii_lowercase n = to_ascii_lowercase c"
  by (cases ch) (auto dest!: find_value_in_columns)

lemma touches_value_in_pk_values: "touches_value ch c v \<Longrightarrow> v \<in> set (pk_values ch c)"
  by (cases ch) (auto simp: opt_list_def)

lemma anchor_SomeD:
  assumes "anchor vi ts fs = Some (t, c, v)"
  shows "\<exists>t0 c0. ts = [t0] \<and> t = to_ascii_lowercase t0 \<and> (c0, v) \<in> set fs \<and>
                 c = to_ascii_lowercase c0 \<and> is_anchorable vi t c0"
  using assms by (auto simp: anchor_def Let_def split: list.splits option.splits dest!: find_SomeD)

definition lowercase_config :: "version_index \<Rightarrow> bool" where
  "lowercase_config vi \<longleftrightarrow> (\<forall>t pk. vi_pk vi t = Some pk \<longrightarrow> to_ascii_lowercase pk = pk)"

lemma lowercase_config_new: "lowercase_config (version_index_new pk full)"
  by (auto simp: lowercase_config_def version_index_new_def dest!: map_of_SomeD)

lemma lowercase_config_advance: "lowercase_config vi \<Longrightarrow> lowercase_config (advance vi txn)"
  by (simp add: lowercase_config_def)

lemma lowercase_config_log: "lowercase_config vi \<Longrightarrow> lowercase_config (foldl advance vi txns)"
  by (induction txns arbitrary: vi) (auto intro: lowercase_config_advance)

lemma touched_anchor_relevant:
  assumes cfg: "lowercase_config vi" and anc: "anchor vi ts fs = Some (t, c, v)"
    and ch: "ch \<in> set (changes txn)" "to_ascii_lowercase (change_table ch) = t"
    and tv: "touches_value ch c v"
  shows "relevant vi txn (ts, fs)"
proof -
  obtain t0 c0 where c0: "c = to_ascii_lowercase c0" "is_anchorable vi t c0"
    using anchor_SomeD [OF anc] by blast
  have ntr: "\<not> is_truncate ch" using tv by (cases ch) auto
  have "(t, c, v) \<in> set (written_keys vi ch)"
  proof (cases "t \<in> vi_full vi")
    case True
    obtain n where "(n, v) \<in> set (change_columns ch)" "to_ascii_lowercase n = to_ascii_lowercase c"
      using touches_value_in_columns [OF tv] by blast
    then show ?thesis using True ntr ch(2) c0(1) by (force simp: written_keys_def Let_def)
  next
    case False
    with c0(2) have pk: "vi_pk vi t = Some c0" by (auto simp: is_anchorable_def split: option.splits)
    then have "c0 = c" using cfg c0(1) by (simp add: lowercase_config_def)
    then show ?thesis
      using False pk ntr ch(2) touches_value_in_pk_values [OF tv] by (auto simp: written_keys_def Let_def)
  qed
  then show ?thesis using anc ch(1) by (auto simp: relevant_def change_relevant_def Let_def)
qed

subsection \<open>Properties\<close>

text \<open>
  C5: when transactions arrive in LSN order, the version of a query is the end LSN of the last
  transaction relevant to it, and zero when there is none.
\<close>

theorem version_tracks_log:
  assumes "sorted (map end_lsn txns)"
  shows "version_of (foldl advance (version_index_new pk full) txns) ts fs =
     (let rs = filter (\<lambda>txn. relevant (version_index_new pk full) txn (ts, fs)) txns
      in if rs = [] then 0 else end_lsn (last rs))"
  using assms by (rule version_of_log)

definition sample_update :: "string \<Rightarrow> u64 \<Rightarrow> committed_transaction" where
  "sample_update key lsn =
     \<lparr>xid = 1, commit_lsn = lsn, end_lsn = lsn, commit_ts = 0,
      changes = [Change_Update ''public'' ''Users'' [(''id'', Some key)]
                   [(''id'', Some key), (''name'', Some ''x'')]]\<rparr>"

theorem version_tracks_log_witness:
  "version_of (foldl advance (version_index_new [(''users'', ''ID'')] []) [sample_update ''7'' 100, sample_update ''5'' 200])
     [''users''] [(''id'', ''7'')] = 100"
proof -
  have srt: "sorted (map end_lsn [sample_update ''7'' 100, sample_update ''5'' 200])"
    by (simp add: sample_update_def)
  show ?thesis
    by (subst version_tracks_log [OF srt]) code_simp
qed

text \<open>
  C13: a transaction that touches a row carrying the anchor of a query gives the query a new
  version, above every version it had before.
\<close>

theorem anchored_write_changes_version:
  assumes "sorted (map end_lsn (txns @ [txn]))" and "\<forall>t \<in> set txns. end_lsn t < end_lsn txn"
    and "vi = foldl advance (version_index_new pk full) txns"
    and "0 < end_lsn txn"
    and "anchor vi ts fs = Some (t, c, v)"
    and "ch \<in> set (changes txn)" and "to_ascii_lowercase (change_table ch) = t"
    and "touches_value ch c v \<or> is_truncate ch"
  shows "version_of (advance vi txn) ts fs = end_lsn txn \<and> version_of vi ts fs < end_lsn txn"
proof -
  let ?l = "last (0 # map end_lsn txns)"
  have srt: "sorted (0 # map end_lsn txns)" using assms(1) by (simp add: sorted_append)
  have bnd: "vi_bounded vi ?l"
    unfolding assms(3) by (rule vidx.version_log_bounded [OF version_index_new_bounded srt])
  have lt: "?l < end_lsn txn" using assms(2,4) by (cases txns rule: rev_cases) auto
  have "relevant vi txn (ts, fs)"
  proof (cases "is_truncate ch")
    case True
    then show ?thesis using assms(5-7) by (auto simp: relevant_def change_relevant_def Let_def)
  next
    case False
    have "lowercase_config vi" unfolding assms(3) by (intro lowercase_config_log lowercase_config_new)
    with False show ?thesis using touched_anchor_relevant assms(5-8) by blast
  qed
  then show ?thesis
    using vidx.version_adv [OF bnd, of txn "(ts, fs)"] vidx.version_fresh [OF bnd lt, of "(ts, fs)"] lt
    by auto
qed

theorem anchored_write_changes_version_witness:
  "version_of (advance (foldl advance (version_index_new [(''users'', ''ID'')] []) []) (sample_update ''7'' 100))
     [''users''] [(''id'', ''7'')] = 100"
proof -
  have "anchor (foldl advance (version_index_new [(''users'', ''ID'')] []) []) [''users''] [(''id'', ''7'')] =
          Some (''users'', ''id'', ''7'')" by code_simp
  moreover have "to_ascii_lowercase ''Users'' = ''users''" by code_simp
  moreover have "find_value [(''id'', Some ''7'')] ''id'' = Some ''7''" by code_simp
  ultimately show ?thesis
    using anchored_write_changes_version
      [of "[]" "sample_update ''7'' 100" _ "[(''users'', ''ID'')]" "[]" "[''users'']" "[(''id'', ''7'')]"
          "''users''" "''id''" "''7''"
          "Change_Update ''public'' ''Users'' [(''id'', Some ''7'')] [(''id'', Some ''7''), (''name'', Some ''x'')]", OF _ _ refl]
    by (simp add: sample_update_def)
qed

text \<open>
  With transactions in LSN order no query's version ever decreases, and a transaction that is
  not relevant to a query leaves its version alone.
\<close>

lemma version_monotone_and_stable:
  assumes "vi_bounded vi l" and "l \<le> end_lsn txn"
  shows "version_of vi ts fs \<le> version_of (advance vi txn) ts fs \<and>
     (version_of (advance vi txn) ts fs \<noteq> version_of vi ts fs \<longrightarrow> relevant vi txn (ts, fs)) \<and>
     vi_bounded (advance vi txn) (end_lsn txn)"
  using vidx.version_mono [OF assms, of "(ts, fs)"] vidx.version_stable [OF assms, of "(ts, fs)"]
    vi_bounded_advance [OF assms]
  by auto

end
