(* ===== verification/Cdc.thy ===== *)
theory Cdc
  imports Version
begin

text \<open>
  \<open>src/capability/cdc.rs\<close>: the bridge between the stream of committed transactions and the rest of
  the program.  One thread takes transactions from a queue, advances the version index and then
  broadcasts the transaction.  The state of the bridge is a record; the thread's program counter
  has one value per point between two effects, so that every interleaving with \<open>publish\<close> and
  \<open>stop\<close> is a sequence of steps.  \<open>c_published\<close> is a history variable: what was ever put into the
  queue.  The bridge of a replica differs only in who fills the queue.

  The invariant is obtained through \<open>invariant_system\<close>: a transaction is broadcast only after the
  index has advanced past it, in the order of publication, and nothing is broadcast twice.
\<close>

datatype cdc_pc =
    Receiving
  | Received committed_transaction
  | Running committed_transaction
  | Advanced committed_transaction
  | Finished

record cdc_bridge =
  c_stop :: bool
  c_input :: bool
  c_queue :: "committed_transaction list"
  c_pc :: cdc_pc
  c_versions :: version_index
  c_sent :: "committed_transaction list"
  c_published :: "committed_transaction list"

definition bridge_new :: "bool \<Rightarrow> version_index \<Rightarrow> cdc_bridge" where
  "bridge_new input versions =
     \<lparr>c_stop = False, c_input = input, c_queue = [], c_pc = Receiving, c_versions = versions,
      c_sent = [], c_published = []\<rparr>"

text \<open>\<open>CdcBridge::start\<close> reads the replica's channel; \<open>CdcBridge::primary\<close> owns its input.\<close>

definition bridge_start :: "version_index \<Rightarrow> cdc_bridge" where
  "bridge_start versions = bridge_new False versions"

definition bridge_primary :: "version_index \<Rightarrow> cdc_bridge" where
  "bridge_primary versions = bridge_new True versions"

text \<open>A send into the queue; it fails silently once the thread has dropped its receiver.\<close>

definition enqueue :: "committed_transaction \<Rightarrow> cdc_bridge \<Rightarrow> cdc_bridge" where
  "enqueue txn b =
     (if c_pc b = Finished then b
      else b\<lparr>c_queue := c_queue b @ [txn], c_published := c_published b @ [txn]\<rparr>)"

definition publish :: "committed_transaction \<Rightarrow> cdc_bridge \<Rightarrow> cdc_bridge" where
  "publish txn b = (if c_input b then enqueue txn b else b)"

definition stop :: "cdc_bridge \<Rightarrow> cdc_bridge" where
  "stop b = b\<lparr>c_stop := True\<rparr>"

text \<open>A new receiver starts behind everything sent so far.\<close>

definition bridge_subscribe :: "cdc_bridge \<Rightarrow> nat" where
  "bridge_subscribe b = length (c_sent b)"

definition is_running :: "cdc_bridge \<Rightarrow> bool" where
  "is_running b \<longleftrightarrow> c_pc b \<noteq> Finished"

text \<open>
  One step of the thread: receive, test the stop flag, advance the index, send.  With an empty queue
  the thread is blocked and the state unchanged.
\<close>

definition thread_step :: "cdc_bridge \<Rightarrow> cdc_bridge" where
  "thread_step b =
     (case c_pc b of
        Receiving \<Rightarrow> (case c_queue b of
                        [] \<Rightarrow> b
                      | txn # rest \<Rightarrow> b\<lparr>c_queue := rest, c_pc := Received txn\<rparr>)
      | Received txn \<Rightarrow> b\<lparr>c_pc := (if c_stop b then Finished else Running txn)\<rparr>
      | Running txn \<Rightarrow> b\<lparr>c_versions := advance (c_versions b) txn, c_pc := Advanced txn\<rparr>
      | Advanced txn \<Rightarrow> b\<lparr>c_sent := c_sent b @ [txn], c_pc := Receiving\<rparr>
      | Finished \<Rightarrow> b)"

text \<open>The channel reports an error, ending the loop, when every sender is gone and it is empty.\<close>

inductive cdc_step :: "cdc_bridge \<Rightarrow> cdc_bridge \<Rightarrow> bool" where
  step_publish: "cdc_step b (publish txn b)"
| step_feed: "\<not> c_input b \<Longrightarrow> cdc_step b (enqueue txn b)"
| step_stop: "cdc_step b (stop b)"
| step_thread: "cdc_step b (thread_step b)"
| step_closed: "c_pc b = Receiving \<Longrightarrow> c_queue b = [] \<Longrightarrow> cdc_step b (b\<lparr>c_pc := Finished\<rparr>)"

inductive_cases cdc_stepE: "cdc_step b b'"

subsection \<open>Invariant\<close>

fun in_hand :: "cdc_pc \<Rightarrow> committed_transaction list" where
  "in_hand (Received txn) = [txn]"
| "in_hand (Running txn) = [txn]"
| "in_hand (Advanced txn) = [txn]"
| "in_hand _ = []"

fun advanced :: "cdc_pc \<Rightarrow> committed_transaction list" where
  "advanced (Advanced txn) = [txn]"
| "advanced _ = []"

definition cdc_inv :: "version_index \<Rightarrow> cdc_bridge \<Rightarrow> bool" where
  "cdc_inv v0 b \<longleftrightarrow>
     c_versions b = foldl advance v0 (c_sent b @ advanced (c_pc b)) \<and>
     (if c_pc b = Finished then prefix (c_sent b) (c_published b)
      else c_published b = c_sent b @ in_hand (c_pc b) @ c_queue b)"

lemma cdc_inv_new: "cdc_inv v0 (bridge_new input v0)"
  by (simp add: cdc_inv_def bridge_new_def)

lemma cdc_inv_enqueue: "cdc_inv v0 b \<Longrightarrow> cdc_inv v0 (enqueue txn b)"
  by (auto simp: cdc_inv_def enqueue_def)

lemma cdc_inv_thread: "cdc_inv v0 b \<Longrightarrow> cdc_inv v0 (thread_step b)"
  by (auto simp: cdc_inv_def thread_step_def split: cdc_pc.splits list.splits)

lemma cdc_inv_step: "cdc_inv v0 b \<Longrightarrow> cdc_step b b' \<Longrightarrow> cdc_inv v0 b'"
  by (erule cdc_stepE) (auto simp: publish_def stop_def cdc_inv_enqueue cdc_inv_thread, auto simp: cdc_inv_def)

interpretation cdc: invariant_system "\<lambda>b. \<exists>input. b = bridge_new input v0" cdc_step "cdc_inv v0"
  by unfold_locales (auto simp: cdc_inv_new intro: cdc_inv_step)

subsection \<open>Draining\<close>

text \<open>The steps the thread still has to make before everything published is sent.\<close>

fun pc_steps :: "cdc_pc \<Rightarrow> nat" where
  "pc_steps (Received _) = 3"
| "pc_steps (Running _) = 2"
| "pc_steps (Advanced _) = 1"
| "pc_steps _ = 0"

lemma thread_step_unstopped:
  assumes "\<not> c_stop b" and "c_pc b \<noteq> Finished"
  shows "\<not> c_stop (thread_step b) \<and> c_pc (thread_step b) \<noteq> Finished \<and>
         c_published (thread_step b) = c_published b"
  using assms by (auto simp: thread_step_def split: cdc_pc.splits list.splits)

lemma thread_drains:
  assumes "\<not> c_stop b" and "c_pc b \<noteq> Finished"
  shows "\<exists>n. let b' = (thread_step ^^ n) b in
           c_pc b' = Receiving \<and> c_queue b' = [] \<and> c_published b' = c_published b"
  using assms
proof (induction "4 * length (c_queue b) + pc_steps (c_pc b)" arbitrary: b rule: less_induct)
  case less
  show ?case
  proof (cases "c_pc b = Receiving \<and> c_queue b = []")
    case True
    then show ?thesis by (intro exI [of _ 0]) simp
  next
    case False
    let ?b = "thread_step b"
    have "4 * length (c_queue ?b) + pc_steps (c_pc ?b) < 4 * length (c_queue b) + pc_steps (c_pc b)"
      using False less.prems by (cases "c_queue b"; cases "c_pc b") (simp_all add: thread_step_def)
    then obtain n where "let b' = (thread_step ^^ n) ?b in
        c_pc b' = Receiving \<and> c_queue b' = [] \<and> c_published b' = c_published ?b"
      using less.hyps [of ?b] thread_step_unstopped [OF less.prems] by blast
    then show ?thesis
      using thread_step_unstopped [OF less.prems]
      by (intro exI [of _ "Suc n"]) (simp add: Let_def funpow_swap1 del: funpow.simps(2) add: funpow_Suc_right)
  qed
qed

lemma cdc_inv_funpow: "cdc_inv v0 b \<Longrightarrow> cdc_inv v0 ((thread_step ^^ n) b)"
  by (induction n) (auto intro: cdc_inv_thread)

subsection \<open>Properties\<close>

text \<open>
  C19: in every reachable state the version index has advanced over every transaction that was
  broadcast, and over nothing but those and the one about to be broadcast; what was broadcast is
  an initial part of what was published, in order and without repetition.
\<close>

theorem index_leads_broadcast:
  assumes "cdc_step\<^sup>*\<^sup>* (bridge_new input v0) b"
  shows "c_versions b = foldl advance v0 (c_sent b @ advanced (c_pc b)) \<and> prefix (c_sent b) (c_published b)"
proof -
  have "cdc_inv v0 b" using assms by (rule cdc.inv_reachable [rotated]) blast
  then show ?thesis by (auto simp: cdc_inv_def split: if_splits)
qed

definition sample_txn :: "string \<Rightarrow> u64 \<Rightarrow> committed_transaction" where
  "sample_txn table lsn =
     \<lparr>xid = 7, commit_lsn = lsn, end_lsn = lsn, commit_ts = 0,
      changes = [Change_Insert ''public'' table [(''id'', Some ''1'')]]\<rparr>"

theorem index_leads_broadcast_witness:
  "let v0 = version_index_new [(''users'', ''id'')] [];
       b = (thread_step ^^ 4) (publish (sample_txn ''users'' 9) (bridge_primary v0))
   in c_sent b = [sample_txn ''users'' 9] \<and> c_versions b = foldl advance v0 (c_sent b @ advanced (c_pc b))"
proof -
  let ?v0 = "version_index_new [(''users'', ''id'')] []"
  let ?b = "(thread_step ^^ 4) (publish (sample_txn ''users'' 9) (bridge_primary ?v0))"
  have "cdc_step\<^sup>*\<^sup>* b ((thread_step ^^ n) b)" for b n
    by (induction n) (auto intro: rtranclp.rtrancl_into_rtrancl step_thread)
  then have "cdc_step\<^sup>*\<^sup>* (bridge_new True ?v0) ?b"
    unfolding bridge_primary_def by (blast intro: converse_rtranclp_into_rtranclp step_publish)
  moreover have "c_sent ?b = [sample_txn ''users'' 9]"
    by (simp add: numeral_eq_Suc thread_step_def publish_def enqueue_def bridge_primary_def bridge_new_def)
  ultimately show ?thesis using index_leads_broadcast [of True ?v0 ?b] by (simp add: Let_def)
qed

text \<open>
  C20: unless it is stopped, the thread delivers everything: from every reachable state in which it
  runs, finitely many of its own steps broadcast all transactions published so far and leave the
  index advanced over all of them.
\<close>

theorem bridge_delivers_everything:
  assumes "cdc_step\<^sup>*\<^sup>* (bridge_new input v0) b" and "\<not> c_stop b" and "is_running b"
  shows "\<exists>n. let b' = (thread_step ^^ n) b in
           c_sent b' = c_published b \<and> c_versions b' = foldl advance v0 (c_published b)"
proof -
  have inv: "cdc_inv v0 b" using assms(1) by (rule cdc.inv_reachable [rotated]) blast
  obtain n where "let b' = (thread_step ^^ n) b in
      c_pc b' = Receiving \<and> c_queue b' = [] \<and> c_published b' = c_published b"
    using thread_drains assms(2,3) unfolding is_running_def by blast
  then show ?thesis
    using cdc_inv_funpow [OF inv, of n] by (intro exI [of _ n]) (auto simp: cdc_inv_def Let_def)
qed

theorem bridge_delivers_everything_witness:
  "\<exists>n. let b' = (thread_step ^^ n) (publish (sample_txn ''users'' 9) (bridge_primary (version_index_new [] [])))
       in c_sent b' = [sample_txn ''users'' 9]"
proof -
  let ?b = "publish (sample_txn ''users'' 9) (bridge_primary (version_index_new [] []))"
  have "cdc_step\<^sup>*\<^sup>* (bridge_new True (version_index_new [] [])) ?b"
    unfolding bridge_primary_def by (blast intro: step_publish)
  then show ?thesis
    using bridge_delivers_everything [of True "version_index_new [] []" ?b]
    by (auto simp: Let_def publish_def enqueue_def bridge_primary_def bridge_new_def is_running_def)
qed

end
