(* ===== verification/Live.thy ===== *)
theory Live
  imports Diff Rows Cdc
begin

text \<open>
  \<open>src/capability/live.rs\<close>: the hub that keeps the live subscriptions up to date.  The hub's table
  of subscriptions, its id counter and the channels to the subscribers are a record; a channel is
  a cell of \<open>h_chans\<close>, its index standing for the two ends.  \<open>ch_base\<close> is a history variable, the
  rows of the snapshot the subscriber started from.

  \<open>on_commit\<close> waits for the engine between taking its jobs and delivering each result, and
  subscriptions come and go meanwhile.  The step relation \<open>live_step\<close> has one step per critical
  section, so that it covers every such interleaving.  Its invariant says that replaying the frames
  a subscriber has been sent on its snapshot gives exactly the rows the hub holds for it.
\<close>

record subscription =
  sub_tables :: "string list"
  sub_pk :: "string option"
  sub_sql :: string
  sub_sender :: nat
  sub_last :: snapshot
  sub_who :: "principal option"
  sub_headers :: "string option"
  sub_params :: "json list"

record live_job =
  job_id :: u64
  job_sql :: string
  job_pk :: "string option"
  job_last :: snapshot
  job_who :: "principal option"
  job_headers :: "string option"
  job_params :: "json list"

record chan =
  ch_frames :: "string list"
  ch_open :: bool
  ch_base :: snapshot

record live_hub =
  h_subs :: "(u64 \<times> subscription) list"
  h_next_id :: u64
  h_pk :: "string \<rightharpoonup> string"
  h_chans :: "chan list"

record live_subscription =
  ls_id :: u64
  ls_receiver :: nat

subsection \<open>Frames\<close>

definition sse_frame :: "string \<Rightarrow> string" where
  "sse_frame payload = ''data: '' @ payload @ [CHR 0x0A, CHR 0x0A]"

fun delta_payload :: "delta \<Rightarrow> u32 \<Rightarrow> json" where
  "delta_payload (Delta_Insert key row) txid =
     mk_object [(''op'', String ''insert''), (''key'', String key), (''row'', row), (''txid'', Number (PosInt (ucast txid)))]"
| "delta_payload (Delta_Update key row) txid =
     mk_object [(''op'', String ''update''), (''key'', String key), (''row'', row), (''txid'', Number (PosInt (ucast txid)))]"
| "delta_payload (Delta_Delete key row) txid =
     mk_object [(''op'', String ''delete''), (''key'', String key), (''row'', row), (''txid'', Number (PosInt (ucast txid)))]"

definition encode :: "json_printer \<Rightarrow> delta \<Rightarrow> u32 \<Rightarrow> string" where
  "encode json_text delta txid = sse_frame (json_text (delta_payload delta txid))"

definition up_to_date :: "json_printer \<Rightarrow> u32 \<Rightarrow> string" where
  "up_to_date json_text txid =
     sse_frame (json_text (mk_object [(''op'', String ''up-to-date''), (''txid'', Number (PosInt (ucast txid)))]))"

definition reset :: string where
  "reset = ''data: {'' @ [CHR 0x22] @ ''op'' @ [CHR 0x22] @ '':'' @ [CHR 0x22] @ ''reset'' @ [CHR 0x22] @ ''}'' @ [CHR 0x0A, CHR 0x0A]"

definition snapshot_frame :: "json_printer \<Rightarrow> json_parser \<Rightarrow> bool \<Rightarrow> string \<Rightarrow> u64 \<Rightarrow> string \<Rightarrow> string" where
  "snapshot_frame json_text from_str scoped hash version snapshot_body =
     sse_frame (json_text (
       if scoped then
         mk_object [(''type'', String ''snapshot''),
                    (''rows'', (case from_str snapshot_body of Some rows \<Rightarrow> rows | None \<Rightarrow> Array [])),
                    (''version'', Number (PosInt version))]
       else
         mk_object [(''type'', String ''snapshot''),
                    (''url'', String (''/q/'' @ hash @ ''/'' @ show_nat (unat version))),
                    (''version'', Number (PosInt version))]))"

subsection \<open>Channels\<close>

text \<open>A send succeeds while the receiving end exists.\<close>

definition send :: "nat \<Rightarrow> string \<Rightarrow> chan list \<Rightarrow> bool \<times> chan list" where
  "send i frame chans =
     (if i < length chans \<and> ch_open (chans ! i)
      then (True, chans[i := (chans ! i)\<lparr>ch_frames := ch_frames (chans ! i) @ [frame]\<rparr>])
      else (False, chans))"

fun send_all :: "nat \<Rightarrow> string list \<Rightarrow> chan list \<Rightarrow> bool \<times> chan list" where
  "send_all i [] chans = (True, chans)"
| "send_all i (frame # frames) chans =
     (case send i frame chans of
        (False, chans') \<Rightarrow> (False, chans')
      | (True, chans') \<Rightarrow> send_all i frames chans')"

subsection \<open>Operations of the hub\<close>

definition hub_start :: "(string \<rightharpoonup> string) \<Rightarrow> live_hub" where
  "hub_start pk = \<lparr>h_subs = [], h_next_id = 0, h_pk = pk, h_chans = []\<rparr>"

definition subscription_count :: "live_hub \<Rightarrow> nat" where
  "subscription_count hub = length (h_subs hub)"

definition pk_of_tables :: "live_hub \<Rightarrow> string list \<Rightarrow> string option" where
  "pk_of_tables hub ts = (if length ts = 1 then h_pk hub (to_ascii_lowercase (ts ! 0)) else None)"

definition hub_subscribe ::
  "json_printer \<Rightarrow> json_parser \<Rightarrow> (string \<Rightarrow> u64) \<Rightarrow> string \<Rightarrow> string list \<Rightarrow> string \<Rightarrow> u64 \<Rightarrow> string \<Rightarrow>
   principal option \<Rightarrow> string option \<Rightarrow> json list \<Rightarrow> live_hub \<Rightarrow> live_subscription \<times> live_hub" where
  "hub_subscribe json_text from_str finish sql ts hash version snapshot_body who headers params hub =
     (let sender = length (h_chans hub);
          pk = pk_of_tables hub ts;
          scoped = (who \<noteq> None \<or> headers \<noteq> None);
          last = keyed_map json_text from_str finish snapshot_body pk;
          first = snapshot_frame json_text from_str scoped hash version snapshot_body;
          chans = snd (send sender first (h_chans hub @ [\<lparr>ch_frames = [], ch_open = True, ch_base = last\<rparr>]));
          id = h_next_id hub;
          sub = \<lparr>sub_tables = ts, sub_pk = pk, sub_sql = sql, sub_sender = sender, sub_last = last,
                 sub_who = who, sub_headers = headers, sub_params = params\<rparr>
      in (\<lparr>ls_id = id, ls_receiver = sender\<rparr>,
          hub\<lparr>h_subs := AList.update id sub (h_subs hub), h_next_id := id + 1, h_chans := chans\<rparr>))"

text \<open>\<open>Drop for LiveSubscription\<close>: the entry is removed first, the receiving end closed afterwards.\<close>

definition drop_remove :: "live_subscription \<Rightarrow> live_hub \<Rightarrow> live_hub" where
  "drop_remove ls hub = hub\<lparr>h_subs := AList.delete (ls_id ls) (h_subs hub)\<rparr>"

definition drop_close :: "live_subscription \<Rightarrow> live_hub \<Rightarrow> live_hub" where
  "drop_close ls hub =
     (if ls_receiver ls < length (h_chans hub)
      then hub\<lparr>h_chans := (h_chans hub)[ls_receiver ls := (h_chans hub ! ls_receiver ls)\<lparr>ch_open := False\<rparr>]\<rparr>
      else hub)"

definition reset_all :: "(u64 \<times> subscription) iter \<Rightarrow> live_hub \<Rightarrow> live_hub" where
  "reset_all it hub =
     hub\<lparr>h_subs := [],
         h_chans := foldl (\<lambda>chans (id, sub). snd (send (sub_sender sub) reset chans)) (h_chans hub) (it (h_subs hub))\<rparr>"

definition changed_tables :: "committed_transaction \<Rightarrow> string set" where
  "changed_tables txn = set (map (\<lambda>change. to_ascii_lowercase (change_table change)) (changes txn))"

definition affected :: "committed_transaction \<Rightarrow> subscription \<Rightarrow> bool" where
  "affected txn sub \<longleftrightarrow> (\<exists>table \<in> set (sub_tables sub). to_ascii_lowercase table \<in> changed_tables txn)"

definition job_of :: "u64 \<times> subscription \<Rightarrow> live_job" where
  "job_of = (\<lambda>(id, sub).
     \<lparr>job_id = id, job_sql = sub_sql sub, job_pk = sub_pk sub, job_last = sub_last sub,
      job_who = sub_who sub, job_headers = sub_headers sub, job_params = sub_params sub\<rparr>)"

definition commit_jobs :: "(u64 \<times> subscription) iter \<Rightarrow> committed_transaction \<Rightarrow> live_hub \<Rightarrow> live_job list" where
  "commit_jobs it txn hub = map job_of (filter (\<lambda>(id, sub). affected txn sub) (it (h_subs hub)))"

definition query_job :: "'w engine \<Rightarrow> live_job \<Rightarrow> ('w, string) prog" where
  "query_job eng job = query_json_scoped eng (job_who job) (job_headers job) (job_sql job) (job_params job)"

text \<open>What the hub does with the answer to a job: drop the subscription, or send the difference.\<close>

definition fail_job :: "live_job \<Rightarrow> live_hub \<Rightarrow> live_hub" where
  "fail_job job hub =
     (case map_of (h_subs hub) (job_id job) of
        None \<Rightarrow> hub
      | Some sub \<Rightarrow>
          hub\<lparr>h_subs := AList.delete (job_id job) (h_subs hub),
              h_chans := snd (send (sub_sender sub) reset (h_chans hub))\<rparr>)"

definition deliver_job ::
  "json_printer \<Rightarrow> json_parser \<Rightarrow> (string \<Rightarrow> u64) \<Rightarrow> (string \<times> json) iter \<Rightarrow> u32 \<Rightarrow> live_job \<Rightarrow> string \<Rightarrow>
   live_hub \<Rightarrow> live_hub" where
  "deliver_job json_text from_str finish it txid job fresh hub =
     (let nxt = keyed_map json_text from_str finish fresh (job_pk job);
          deltas = diff it (job_last job) nxt
      in case map_of (h_subs hub) (job_id job) of
           None \<Rightarrow> hub
         | Some sub \<Rightarrow>
             (case send_all (sub_sender sub) (map (\<lambda>d. encode json_text d txid) deltas) (h_chans hub) of
                (False, chans) \<Rightarrow> hub\<lparr>h_chans := chans\<rparr>
              | (True, chans) \<Rightarrow>
                  hub\<lparr>h_subs := AList.update (job_id job) (sub\<lparr>sub_last := nxt\<rparr>) (h_subs hub),
                      h_chans := snd (send (sub_sender sub) (up_to_date json_text txid) chans)\<rparr>))"

definition apply_job ::
  "json_printer \<Rightarrow> json_parser \<Rightarrow> (string \<Rightarrow> u64) \<Rightarrow> (string \<times> json) iter \<Rightarrow> u32 \<Rightarrow> live_job \<Rightarrow> string result \<Rightarrow>
   live_hub \<Rightarrow> live_hub" where
  "apply_job json_text from_str finish it txid job r hub =
     (case r of
        Inl e \<Rightarrow> fail_job job hub
      | Inr fresh \<Rightarrow> deliver_job json_text from_str finish it txid job fresh hub)"

definition retain_open :: "live_hub \<Rightarrow> live_hub" where
  "retain_open hub =
     hub\<lparr>h_subs := filter (\<lambda>(id, sub). sub_sender sub < length (h_chans hub) \<and> ch_open (h_chans hub ! sub_sender sub)) (h_subs hub)\<rparr>"

text \<open>The whole handler, run without interruption.\<close>

fun run_jobs ::
  "'w engine \<Rightarrow> json_printer \<Rightarrow> json_parser \<Rightarrow> (string \<Rightarrow> u64) \<Rightarrow> (string \<times> json) iter \<Rightarrow> u32 \<Rightarrow> live_job list \<Rightarrow>
   live_hub \<times> 'w io \<Rightarrow> live_hub \<times> 'w io" where
  "run_jobs eng json_text from_str finish it txid [] (hub, s) = (hub, s)"
| "run_jobs eng json_text from_str finish it txid (job # jobs) (hub, s) =
     (case query_job eng job s of
        (r, s') \<Rightarrow> run_jobs eng json_text from_str finish it txid jobs
                    (apply_job json_text from_str finish it txid job r hub, s'))"

definition on_commit ::
  "'w engine \<Rightarrow> json_printer \<Rightarrow> json_parser \<Rightarrow> (string \<Rightarrow> u64) \<Rightarrow> (u64 \<times> subscription) iter \<Rightarrow> (string \<times> json) iter \<Rightarrow>
   committed_transaction \<Rightarrow> live_hub \<times> 'w io \<Rightarrow> live_hub \<times> 'w io" where
  "on_commit eng json_text from_str finish its it txn = (\<lambda>(hub, s).
     case run_jobs eng json_text from_str finish it (xid txn) (commit_jobs its txn hub) (hub, s) of
       (hub', s') \<Rightarrow> (retain_open hub', s'))"

text \<open>
  \<open>poll_next\<close>: the subscriber polls its receiver after \<open>read\<close> frames.  The stream ends when the queue is
  empty and the sender, which lives in the registered subscription, is gone.
\<close>

datatype stream_poll = ReadyFrame string | StreamEnd | StreamPending

definition poll_next :: "live_hub \<Rightarrow> live_subscription \<Rightarrow> nat \<Rightarrow> stream_poll" where
  "poll_next hub ls read =
     (let frames = ch_frames (h_chans hub ! ls_receiver ls)
      in if read < length frames then ReadyFrame (frames ! read)
         else if list_ex (\<lambda>(_, sub). sub_sender sub = ls_receiver ls) (h_subs hub) then StreamPending
         else StreamEnd)"

lemma poll_next_frames:
  "map (poll_next hub ls) [0..<length (ch_frames (h_chans hub ! ls_receiver ls))] =
     map ReadyFrame (ch_frames (h_chans hub ! ls_receiver ls))"
  by (rule nth_equalityI) (simp_all add: poll_next_def)

subsection \<open>Interleavings\<close>

datatype worker_pc =
    WIdle
  | WJobs u32 "live_job list"
  | WApply u32 live_job "string result" "live_job list"

record 'w live_state =
  st_hub :: live_hub
  st_pc :: worker_pc
  st_io :: "'w io"
  st_handles :: "live_subscription list"
  st_closing :: "live_subscription list"

definition live_init :: "'w live_state \<Rightarrow> bool" where
  "live_init s \<longleftrightarrow>
     (\<exists>pk. st_hub s = hub_start pk) \<and> st_pc s = WIdle \<and> st_handles s = [] \<and> st_closing s = []"

text \<open>
  The worker takes the jobs of a transaction, asks the engine for each, applies the answer, and
  cleans up; or it learns that it lags and resets everybody.  Subscribers register and leave, and
  anything else may use the engine, at every moment.
\<close>

inductive live_step ::
  "'w engine \<Rightarrow> json_printer \<Rightarrow> json_parser \<Rightarrow> (string \<Rightarrow> u64) \<Rightarrow> 'w live_state \<Rightarrow> 'w live_state \<Rightarrow> bool"
  for eng json_text from_str finish where
  live_subscribe:
    "hub_subscribe json_text from_str finish sql ts hash version snapshot_body who headers params (st_hub s) = (ls, hub') \<Longrightarrow>
     live_step eng json_text from_str finish s (s\<lparr>st_hub := hub', st_handles := ls # st_handles s\<rparr>)"
| live_drop:
    "ls \<in> set (st_handles s) \<Longrightarrow>
     live_step eng json_text from_str finish s
       (s\<lparr>st_hub := drop_remove ls (st_hub s), st_handles := remove1 ls (st_handles s), st_closing := ls # st_closing s\<rparr>)"
| live_close:
    "ls \<in> set (st_closing s) \<Longrightarrow>
     live_step eng json_text from_str finish s
       (s\<lparr>st_hub := drop_close ls (st_hub s), st_closing := remove1 ls (st_closing s)\<rparr>)"
| live_commit:
    "st_pc s = WIdle \<Longrightarrow> fair_iter its \<Longrightarrow>
     live_step eng json_text from_str finish s (s\<lparr>st_pc := WJobs (xid txn) (commit_jobs its txn (st_hub s))\<rparr>)"
| live_query:
    "st_pc s = WJobs txid (job # jobs) \<Longrightarrow> query_job eng job (st_io s) = (r, io') \<Longrightarrow>
     live_step eng json_text from_str finish s (s\<lparr>st_pc := WApply txid job r jobs, st_io := io'\<rparr>)"
| live_apply:
    "st_pc s = WApply txid job r jobs \<Longrightarrow> fair_iter it \<Longrightarrow>
     live_step eng json_text from_str finish s
       (s\<lparr>st_hub := apply_job json_text from_str finish it txid job r (st_hub s), st_pc := WJobs txid jobs\<rparr>)"
| live_finish:
    "st_pc s = WJobs txid [] \<Longrightarrow>
     live_step eng json_text from_str finish s (s\<lparr>st_hub := retain_open (st_hub s), st_pc := WIdle\<rparr>)"
| live_lagged:
    "st_pc s = WIdle \<Longrightarrow> fair_iter its \<Longrightarrow>
     live_step eng json_text from_str finish s (s\<lparr>st_hub := reset_all its (st_hub s)\<rparr>)"
| live_world:
    "live_step eng json_text from_str finish s (s\<lparr>st_io := io'\<rparr>)"

inductive_cases live_stepE: "live_step eng json_text from_str finish s s'"

subsection \<open>The subscriber's view\<close>

text \<open>How a subscriber reads a frame: parse the payload, and apply it when it is a delta.\<close>

definition payload_of :: "json_parser \<Rightarrow> string \<Rightarrow> json option" where
  "payload_of from_str frame =
     Option.bind (strip_prefix ''data: '' frame) (\<lambda>rest. from_str (take (length rest - 2) rest))"

definition event_delta :: "json \<Rightarrow> delta option" where
  "event_delta v =
     (case (json_get ''op'' v, json_get ''key'' v, json_get ''row'' v) of
        (Some (String op), Some (String key), Some row) \<Rightarrow>
          if op = ''insert'' then Some (Delta_Insert key row)
          else if op = ''update'' then Some (Delta_Update key row)
          else if op = ''delete'' then Some (Delta_Delete key row)
          else None
      | _ \<Rightarrow> None)"

definition client_apply :: "json_parser \<Rightarrow> (string \<rightharpoonup> json) \<Rightarrow> string \<Rightarrow> (string \<rightharpoonup> json)" where
  "client_apply from_str m frame =
     (case Option.bind (payload_of from_str frame) event_delta of
        Some d \<Rightarrow> apply_delta m d
      | None \<Rightarrow> m)"

definition client_view :: "json_parser \<Rightarrow> chan \<Rightarrow> (string \<rightharpoonup> json)" where
  "client_view from_str c = foldl (client_apply from_str) (map_of (ch_base c)) (ch_frames c)"

fun delta_row :: "delta \<Rightarrow> json" where
  "delta_row (Delta_Insert _ row) = row"
| "delta_row (Delta_Update _ row) = row"
| "delta_row (Delta_Delete _ row) = row"

lemma payload_sse: "payload_of from_str (sse_frame payload) = from_str payload"
  by (simp add: payload_of_def sse_frame_def strip_prefix_def)

lemma event_delta_payload: "event_delta (delta_payload d txid) = Some d"
  by (cases d) (simp_all add: event_delta_def)

lemma delta_payload_object:
  assumes "json_member (delta_row d)"
  shows "\<exists>kvs. delta_payload d txid = mk_object kvs \<and> (\<forall>p \<in> set kvs. json_member (snd p))"
  using assms by (cases d) (simp_all, (rule exI, rule conjI, rule refl, simp)+)

lemma client_apply_encode:
  assumes "json_roundtrip json_text from_str" and "json_member (delta_row d)"
  shows "client_apply from_str m (encode json_text d txid) = apply_delta m d"
proof -
  have "from_str (json_text (delta_payload d txid)) = Some (delta_payload d txid)"
    using delta_payload_object [OF assms(2)] json_roundtrip_object [OF assms(1)] by metis
  then show ?thesis by (simp add: client_apply_def encode_def payload_sse event_delta_payload)
qed

lemma client_apply_no_op:
  assumes "json_roundtrip json_text from_str" and "json_plain v" and "event_delta v = None"
  shows "client_apply from_str m (sse_frame (json_text v)) = m"
proof -
  have "from_str (json_text v) \<in> {Some v, None}" using assms(1,2) by (simp add: json_roundtrip_def)
  then show ?thesis using assms(3) by (auto simp: client_apply_def payload_sse)
qed

lemma client_apply_up_to_date:
  "json_roundtrip json_text from_str \<Longrightarrow> client_apply from_str m (up_to_date json_text txid) = m"
  unfolding up_to_date_def
  by (rule client_apply_no_op) (simp_all add: json_plain_mk_object event_delta_def)

lemma client_apply_snapshot:
  assumes "json_roundtrip json_text from_str"
  shows "client_apply from_str m (snapshot_frame json_text from_str scoped hash version snapshot_body) = m"
proof -
  have "json_plain (case from_str snapshot_body of Some rows \<Rightarrow> rows | None \<Rightarrow> Array [])"
    using json_roundtrip_read [OF assms] by (auto split: option.splits)
  then show ?thesis
    unfolding snapshot_frame_def
    by (cases scoped) (simp_all, (rule client_apply_no_op [OF assms], simp_all add: json_plain_mk_object event_delta_def)+)
qed

lemma client_replays_deltas:
  assumes "json_roundtrip json_text from_str" and "\<forall>d \<in> set ds. json_member (delta_row d)"
  shows "foldl (client_apply from_str) m (map (\<lambda>d. encode json_text d txid) ds) = foldl apply_delta m ds"
  using assms(2) by (induction ds arbitrary: m) (auto simp: client_apply_encode [OF assms(1)])

subsection \<open>Rows of a snapshot and channels\<close>

definition rows_wf :: "snapshot \<Rightarrow> bool" where
  "rows_wf m \<longleftrightarrow> wf_snapshot m \<and> (\<forall>(k, row) \<in> set m. json_member row)"

lemma rows_wf_keyed_map:
  assumes "json_roundtrip json_text from_str"
  shows "rows_wf (keyed_map json_text from_str finish json_array pk)"
proof -
  have upd: "set (AList.update key v m) \<subseteq> insert (key, v) (set m)" for key and v :: json and m
    by (induction m) (auto split: if_splits)
  have keep: "(\<forall>(k, row) \<in> set m. json_member row) \<Longrightarrow> json_member v \<Longrightarrow> (\<forall>(k, row) \<in> set (AList.update key v m). json_member row)"
    for key v m
    using upd [of key v m] by blast
  have fold: "\<forall>x \<in> set rows. json_member x \<Longrightarrow> \<forall>(k, row) \<in> set m. json_member row \<Longrightarrow>
      \<forall>(k, row) \<in> set (foldl (\<lambda>m row. AList.update (row_key json_text finish pk row) row m) m rows). json_member row" for rows m
  proof (induction rows arbitrary: m)
    case Nil
    then show ?case by simp
  next
    case (Cons x rows)
    have "json_member x" "\<forall>y \<in> set rows. json_member y" using Cons.prems(1) by simp_all
    then show ?case unfolding foldl_Cons using Cons.IH keep [OF Cons.prems(2)] by blast
  qed
  have rows: "json_plain (Array rows) \<and> json_depth (Array rows) \<le> json_limit \<Longrightarrow>
      \<forall>(k, row) \<in> set (keyed_rows json_text finish pk rows). json_member row" for rows
    unfolding keyed_rows_def using fold [of rows "[]"] json_depth_element [of _ rows]
    by (simp del: json_depth.simps add: json_member_def) (meson less_le_trans)
  have "\<forall>(k, row) \<in> set (keyed_map json_text from_str finish json_array pk). json_member row"
  proof (cases "\<exists>rows. from_str json_array = Some (Array rows)")
    case True
    then obtain xs where xs: "from_str json_array = Some (Array xs)" by blast
    show ?thesis using rows [OF json_roundtrip_read [OF assms xs]] xs by (simp add: keyed_map_def)
  next
    case False
    then have "keyed_map json_text from_str finish json_array pk = []"
      unfolding keyed_map_def by (simp split: option.split json.split)
    then show ?thesis by simp
  qed
  then show ?thesis by (simp add: rows_wf_def wf_keyed_map)
qed

lemma diff_rows_wf:
  assumes "fair_iter it" and "rows_wf prev" and "rows_wf nxt"
  shows "\<forall>d \<in> set (diff it prev nxt). json_member (delta_row d)"
  using assms fair_iter_set [OF assms(1)]
  by (fastforce simp: diff_def diff_next_def diff_prev_def rows_wf_def split: option.splits if_splits)

lemma send_open:
  assumes "i < length chans" and "ch_open (chans ! i)"
  shows "send i frame chans = (True, chans[i := (chans ! i)\<lparr>ch_frames := ch_frames (chans ! i) @ [frame]\<rparr>])"
  using assms by (simp add: send_def)

lemma send_all_open:
  assumes "i < length chans" and "ch_open (chans ! i)"
  shows "send_all i frames chans = (True, chans[i := (chans ! i)\<lparr>ch_frames := ch_frames (chans ! i) @ frames\<rparr>])"
  using assms
proof (induction frames arbitrary: chans)
  case Nil
  then show ?case by (simp add: list_update_same_conv)
next
  case (Cons frame frames)
  then show ?case by (simp add: send_open Cons.IH)
qed

lemma send_chans: "length (snd (send i frame chans)) = length chans"
  by (simp add: send_def)

lemma send_other: "j \<noteq> i \<Longrightarrow> snd (send i frame chans) ! j = chans ! j"
  by (simp add: send_def)

lemma of_nat_u64_inject: "i < 2 ^ 64 \<Longrightarrow> j < 2 ^ 64 \<Longrightarrow> (of_nat i :: u64) = of_nat j \<Longrightarrow> i = j"
proof -
  assume a: "i < 2 ^ 64" "j < 2 ^ 64" and eq: "(of_nat i :: u64) = of_nat j"
  have "k < 2 ^ 64 \<Longrightarrow> unat (of_nat k :: u64) = k" for k
    by (simp add: unat_of_nat)
  from this [OF a(1)] this [OF a(2)] show "i = j" unfolding eq by simp
qed

subsection \<open>The invariant\<close>

definition sub_ok :: "json_parser \<Rightarrow> chan list \<Rightarrow> u64 \<Rightarrow> subscription \<Rightarrow> bool" where
  "sub_ok from_str chans sid sub \<longleftrightarrow>
     sid = of_nat (sub_sender sub) \<and> sub_sender sub < length chans \<and> ch_open (chans ! sub_sender sub) \<and>
     rows_wf (sub_last sub) \<and> client_view from_str (chans ! sub_sender sub) = map_of (sub_last sub)"

definition hub_ok :: "json_parser \<Rightarrow> live_hub \<Rightarrow> bool" where
  "hub_ok from_str hub \<longleftrightarrow>
     distinct (map fst (h_subs hub)) \<and>
     (\<forall>sid sub. map_of (h_subs hub) sid = Some sub \<longrightarrow> sub_ok from_str (h_chans hub) sid sub)"

definition job_ok :: "live_hub \<Rightarrow> live_job \<Rightarrow> bool" where
  "job_ok hub job \<longleftrightarrow>
     (\<exists>i < length (h_chans hub). job_id job = of_nat i) \<and> rows_wf (job_last job) \<and>
     (\<forall>sub. map_of (h_subs hub) (job_id job) = Some sub \<longrightarrow> job_last job = sub_last sub \<and> job_pk job = sub_pk sub)"

definition handle_ok :: "live_hub \<Rightarrow> live_subscription \<Rightarrow> bool" where
  "handle_ok hub ls \<longleftrightarrow> ls_receiver ls < length (h_chans hub) \<and> ls_id ls = of_nat (ls_receiver ls)"

fun pending :: "worker_pc \<Rightarrow> live_job list" where
  "pending WIdle = []"
| "pending (WJobs _ jobs) = jobs"
| "pending (WApply _ job _ jobs) = job # jobs"

definition state_ok :: "json_parser \<Rightarrow> 'w live_state \<Rightarrow> bool" where
  "state_ok from_str s \<longleftrightarrow>
     hub_ok from_str (st_hub s) \<and>
     distinct (map job_id (pending (st_pc s))) \<and> (\<forall>job \<in> set (pending (st_pc s)). job_ok (st_hub s) job) \<and>
     (\<forall>ls \<in> set (st_handles s) \<union> set (st_closing s). handle_ok (st_hub s) ls) \<and>
     (\<forall>ls \<in> set (st_closing s). map_of (h_subs (st_hub s)) (ls_id ls) = None)"

text \<open>The counter has 64 bits, so the invariant is about runs with at most \<open>2 ^ 64\<close> subscriptions.\<close>

definition live_inv :: "json_parser \<Rightarrow> 'w live_state \<Rightarrow> bool" where
  "live_inv from_str s \<longleftrightarrow>
     h_next_id (st_hub s) = of_nat (length (h_chans (st_hub s))) \<and>
     (length (h_chans (st_hub s)) \<le> 2 ^ 64 \<longrightarrow> state_ok from_str s)"

lemma hub_ok_mem: "hub_ok from_str hub \<Longrightarrow> (sid, sub) \<in> set (h_subs hub) \<Longrightarrow> sub_ok from_str (h_chans hub) sid sub"
  unfolding hub_ok_def by (simp add: map_of_is_SomeI)

lemma hub_okD: "hub_ok from_str hub \<Longrightarrow> map_of (h_subs hub) sid = Some sub \<Longrightarrow> sub_ok from_str (h_chans hub) sid sub"
  by (simp add: hub_ok_def)

lemma same_sender:
  assumes "length (h_chans hub) \<le> 2 ^ 64" and "sub_ok from_str (h_chans hub) sid sub"
    and "sub_ok from_str (h_chans hub) sid' sub'" and "sub_sender sub = sub_sender sub'"
  shows "sid = sid'"
  using assms by (simp add: sub_ok_def)

lemma hub_subscribe_eq:
  "hub_subscribe json_text from_str finish sql ts hash version snapshot_body who headers params hub =
     (\<lparr>ls_id = h_next_id hub, ls_receiver = length (h_chans hub)\<rparr>,
      let last = keyed_map json_text from_str finish snapshot_body (pk_of_tables hub ts)
      in hub\<lparr>h_subs := AList.update (h_next_id hub)
               \<lparr>sub_tables = ts, sub_pk = pk_of_tables hub ts, sub_sql = sql, sub_sender = length (h_chans hub),
                sub_last = last, sub_who = who, sub_headers = headers, sub_params = params\<rparr> (h_subs hub),
             h_next_id := h_next_id hub + 1,
             h_chans := h_chans hub @
               [\<lparr>ch_frames = [snapshot_frame json_text from_str (who \<noteq> None \<or> headers \<noteq> None) hash version snapshot_body],
                 ch_open = True, ch_base = last\<rparr>]\<rparr>)"
  by (simp add: hub_subscribe_def Let_def send_def)

lemma sub_ok_append: "sub_ok from_str chans sid sub \<Longrightarrow> sub_ok from_str (chans @ cs) sid sub"
  by (auto simp: sub_ok_def nth_append)

lemma sub_ok_other:
  assumes "sub_ok from_str chans sid sub" and "sub_sender sub \<noteq> i"
  shows "sub_ok from_str (chans[i := c]) sid sub"
  using assms by (simp add: sub_ok_def)

lemma hub_ok_subscribe:
  assumes "json_roundtrip json_text from_str" and "hub_ok from_str hub"
    and "h_next_id hub = of_nat (length (h_chans hub))" and "Suc (length (h_chans hub)) \<le> 2 ^ 64"
    and "hub_subscribe json_text from_str finish sql ts hash version snapshot_body who headers params hub = (ls, hub')"
  shows "hub_ok from_str hub' \<and> (\<forall>job. job_ok hub job \<longrightarrow> job_ok hub' job) \<and>
    handle_ok hub' ls \<and> (\<forall>l. handle_ok hub l \<longrightarrow> handle_ok hub' l) \<and>
    (\<forall>l. handle_ok hub l \<and> map_of (h_subs hub) (ls_id l) = None \<longrightarrow> map_of (h_subs hub') (ls_id l) = None) \<and>
    h_next_id hub' = of_nat (length (h_chans hub')) \<and> length (h_chans hub') = Suc (length (h_chans hub))"
proof -
  let ?n = "length (h_chans hub)" and ?id = "h_next_id hub"
  obtain sub c where hub': "hub' = hub\<lparr>h_subs := AList.update ?id sub (h_subs hub), h_next_id := ?id + 1, h_chans := h_chans hub @ [c]\<rparr>"
      and ls: "ls = \<lparr>ls_id = ?id, ls_receiver = ?n\<rparr>"
      and sub: "sub_sender sub = ?n" "sub_last sub = ch_base c" "rows_wf (ch_base c)"
      and c: "ch_open c" "client_view from_str c = map_of (ch_base c)"
    using assms(5) client_apply_snapshot [OF assms(1)] rows_wf_keyed_map [OF assms(1)]
    by (auto simp: hub_subscribe_eq Let_def client_view_def)
  have fresh: "i < ?n \<Longrightarrow> (of_nat i :: u64) \<noteq> ?id" for i
    using of_nat_u64_inject [of i ?n] assms(3,4) by auto
  have "hub_ok from_str hub'"
    using assms(2,3) sub c unfolding hub' hub_ok_def
    by (auto simp: distinct_update sub_ok_append) (simp add: sub_ok_def)
  moreover have "job_ok hub' job" if "job_ok hub job" for job
  proof -
    from that obtain i where "i < ?n" "job_id job = of_nat i" by (auto simp: job_ok_def)
    then have "job_id job \<noteq> ?id" using fresh by simp
    then show ?thesis using that unfolding hub' by (auto simp: job_ok_def less_Suc_eq)
  qed
  moreover have "map_of (h_subs hub') (ls_id l) = None" if "handle_ok hub l" "map_of (h_subs hub) (ls_id l) = None" for l
    using that fresh [of "ls_receiver l"] unfolding hub' by (simp add: handle_ok_def)
  moreover have "handle_ok hub' ls" "\<forall>l. handle_ok hub l \<longrightarrow> handle_ok hub' l"
      "h_next_id hub' = of_nat (length (h_chans hub'))" "length (h_chans hub') = Suc ?n"
    using assms(3) unfolding hub' ls by (auto simp: handle_ok_def)
  ultimately show ?thesis by blast
qed

lemma hub_ok_delete:
  assumes "hub_ok from_str hub"
  shows "hub_ok from_str (hub\<lparr>h_subs := AList.delete sid (h_subs hub)\<rparr>)"
  using assms by (auto simp: hub_ok_def distinct_delete)

lemma hub_ok_no_sub:
  assumes "hub_ok from_str hub" and "\<forall>sid sub. map_of (h_subs hub) sid = Some sub \<longrightarrow> sub_sender sub \<noteq> i"
  shows "hub_ok from_str (hub\<lparr>h_chans := (h_chans hub)[i := c]\<rparr>)"
  using assms by (auto simp: hub_ok_def sub_ok_other)

lemma job_ok_shrink:
  assumes "job_ok hub job" and "map_of (h_subs hub') \<subseteq>\<^sub>m map_of (h_subs hub)"
    and "length (h_chans hub') = length (h_chans hub)"
  shows "job_ok hub' job"
  using assms unfolding job_ok_def map_le_def by (metis domI)

lemma hub_ok_drop_close:
  assumes "hub_ok from_str hub" and "handle_ok hub ls" and "map_of (h_subs hub) (ls_id ls) = None"
  shows "hub_ok from_str (drop_close ls hub)"
proof -
  have "sub_sender sub \<noteq> ls_receiver ls" if "map_of (h_subs hub) sid = Some sub" for sid sub
    using hub_okD [OF assms(1) that] assms(2,3) that unfolding handle_ok_def sub_ok_def by (metis option.distinct(1))
  then show ?thesis using hub_ok_no_sub [OF assms(1)] assms(1) by (simp add: drop_close_def)
qed

lemma fail_job_eq:
  "fail_job job hub =
     (case map_of (h_subs hub) (job_id job) of
        None \<Rightarrow> hub
      | Some sub \<Rightarrow> hub\<lparr>h_subs := AList.delete (job_id job) (h_subs hub),
                       h_chans := snd (send (sub_sender sub) reset (h_chans hub))\<rparr>)"
  by (simp add: fail_job_def)

lemma send_snd_update: "\<exists>c. snd (send i frame chans) = chans[i := c]"
  by (auto simp: send_def intro: exI [of _ "chans ! i"])

lemma hub_ok_fail_job:
  assumes "hub_ok from_str hub" and "length (h_chans hub) \<le> 2 ^ 64"
  shows "hub_ok from_str (fail_job job hub)"
proof (cases "map_of (h_subs hub) (job_id job)")
  case None
  then show ?thesis using assms by (simp add: fail_job_def)
next
  case (Some sub)
  let ?hub = "hub\<lparr>h_subs := AList.delete (job_id job) (h_subs hub)\<rparr>"
  obtain c where c: "snd (send (sub_sender sub) reset (h_chans hub)) = (h_chans hub)[sub_sender sub := c]"
    using send_snd_update by blast
  have "\<forall>sid sub'. map_of (h_subs ?hub) sid = Some sub' \<longrightarrow> sub_sender sub' \<noteq> sub_sender sub"
    using hub_okD [OF assms(1)] Some same_sender [OF assms(2)] by simp metis
  from hub_ok_no_sub [OF hub_ok_delete [OF assms(1)] this] show ?thesis
    using Some c by (simp add: fail_job_def)
qed

lemma deliver_job_present:
  assumes "map_of (h_subs hub) (job_id job) = Some sub" and "sub_ok from_str (h_chans hub) (job_id job) sub"
  shows "deliver_job json_text from_str finish it txid job fresh hub =
     (let nxt = keyed_map json_text from_str finish fresh (job_pk job); c = h_chans hub ! sub_sender sub
      in hub\<lparr>h_subs := AList.update (job_id job) (sub\<lparr>sub_last := nxt\<rparr>) (h_subs hub),
             h_chans := (h_chans hub)[sub_sender sub := c\<lparr>ch_frames := ch_frames c @
                 map (\<lambda>d. encode json_text d txid) (diff it (job_last job) nxt) @ [up_to_date json_text txid]\<rparr>]\<rparr>)"
  using assms by (simp add: deliver_job_def sub_ok_def Let_def send_all_open send_open)

lemma hub_ok_deliver_job:
  assumes "json_roundtrip json_text from_str" and "fair_iter it"
    and "hub_ok from_str hub" and "length (h_chans hub) \<le> 2 ^ 64" and "job_ok hub job"
  shows "hub_ok from_str (deliver_job json_text from_str finish it txid job fresh hub)"
proof (cases "map_of (h_subs hub) (job_id job)")
  case None
  then show ?thesis using assms(3) by (simp add: deliver_job_def)
next
  case (Some sub)
  define nxt where "nxt = keyed_map json_text from_str finish fresh (job_pk job)"
  define c where "c = h_chans hub ! sub_sender sub"
  have ok: "sub_ok from_str (h_chans hub) (job_id job) sub" using assms(3) Some by (simp add: hub_ok_def)
  have last: "job_last job = sub_last sub" using assms(5) Some by (simp add: job_ok_def)
  have wf: "rows_wf nxt" "rows_wf (sub_last sub)"
    using rows_wf_keyed_map [OF assms(1)] ok by (simp_all add: nxt_def sub_ok_def)
  have snaps: "wf_snapshot nxt" "wf_snapshot (sub_last sub)" using wf by (simp_all add: rows_wf_def)
  let ?c = "c\<lparr>ch_frames := ch_frames c @
      map (\<lambda>d. encode json_text d txid) (diff it (sub_last sub) nxt) @ [up_to_date json_text txid]\<rparr>"
  have "client_view from_str ?c =
      foldl (client_apply from_str) (client_view from_str c) (map (\<lambda>d. encode json_text d txid) (diff it (sub_last sub) nxt))"
    by (simp add: client_view_def client_apply_up_to_date [OF assms(1)])
  also have "\<dots> = foldl apply_delta (map_of (sub_last sub)) (diff it (sub_last sub) nxt)"
    using client_replays_deltas [OF assms(1) diff_rows_wf [OF assms(2) wf(2,1)]] ok by (simp add: sub_ok_def c_def)
  also have "\<dots> = map_of nxt" by (rule dlt.replay_diff [OF assms(2) snaps(2,1)])
  finally have view: "client_view from_str ?c = map_of nxt" .
  have others: "sub_sender sub' \<noteq> sub_sender sub" if "map_of (h_subs hub) sid = Some sub'" "sid \<noteq> job_id job" for sid sub'
    using same_sender [OF assms(4) _ ok] assms(3) that unfolding hub_ok_def by blast
  have "sub_ok from_str ((h_chans hub)[sub_sender sub := ?c]) (job_id job) (sub\<lparr>sub_last := nxt\<rparr>)"
    using ok wf view by (simp add: sub_ok_def c_def)
  moreover have "deliver_job json_text from_str finish it txid job fresh hub =
      hub\<lparr>h_subs := AList.update (job_id job) (sub\<lparr>sub_last := nxt\<rparr>) (h_subs hub), h_chans := (h_chans hub)[sub_sender sub := ?c]\<rparr>"
    using deliver_job_present [OF Some ok] last by (simp add: Let_def nxt_def c_def)
  ultimately show ?thesis
    using assms(3) others by (auto simp: hub_ok_def distinct_update sub_ok_other)
qed

lemma retain_open_id: "hub_ok from_str hub \<Longrightarrow> retain_open hub = hub"
proof -
  assume "hub_ok from_str hub"
  then have "filter (\<lambda>(sid, sub). sub_sender sub < length (h_chans hub) \<and> ch_open (h_chans hub ! sub_sender sub)) (h_subs hub) = h_subs hub"
    by (intro filter_True) (auto dest: hub_ok_mem simp: sub_ok_def)
  then show ?thesis by (simp add: retain_open_def)
qed

lemma send_all_chans: "length (snd (send_all i frames chans)) = length chans"
  by (induction i frames chans rule: send_all.induct) (auto simp: send_chans split: prod.splits bool.splits dest: arg_cong [of _ _ snd] simp: send_def)

lemma apply_job_counts:
  "length (h_chans (apply_job json_text from_str finish it txid job r hub)) = length (h_chans hub) \<and>
   h_next_id (apply_job json_text from_str finish it txid job r hub) = h_next_id hub"
proof (cases r)
  case (Inl e)
  then show ?thesis by (simp add: apply_job_def fail_job_def send_chans split: option.split)
next
  case (Inr fresh)
  have "send_all i frames chans = (b, cs) \<Longrightarrow> length cs = length chans" for i frames chans b cs
    using send_all_chans [of i frames chans] by simp
  then show ?thesis
    using Inr by (auto simp: apply_job_def deliver_job_def Let_def send_chans split: option.split prod.split bool.split)
qed

lemma apply_job_shape:
  assumes "hub_ok from_str hub"
  shows "length (h_chans (apply_job json_text from_str finish it txid job r hub)) = length (h_chans hub) \<and>
    h_next_id (apply_job json_text from_str finish it txid job r hub) = h_next_id hub \<and>
    (\<forall>sid. sid \<noteq> job_id job \<longrightarrow>
       map_of (h_subs (apply_job json_text from_str finish it txid job r hub)) sid = map_of (h_subs hub) sid) \<and>
    (map_of (h_subs hub) (job_id job) = None \<longrightarrow> apply_job json_text from_str finish it txid job r hub = hub)"
proof (cases "map_of (h_subs hub) (job_id job)")
  case None
  then show ?thesis by (cases r) (simp_all add: apply_job_def fail_job_def deliver_job_def)
next
  case (Some sub)
  then show ?thesis
    using deliver_job_present [OF Some hub_okD [OF assms Some]]
    by (cases r) (simp_all add: apply_job_def fail_job_def send_chans Let_def)
qed

lemma commit_jobs_ok:
  assumes "fair_iter its" and "hub_ok from_str hub"
  shows "distinct (map job_id (commit_jobs its txn hub)) \<and> (\<forall>job \<in> set (commit_jobs its txn hub). job_ok hub job)"
proof
  have d: "distinct (map fst (its (h_subs hub)))"
    using fair_iter_distinct_keys [OF assms(1)] assms(2) by (simp add: hub_ok_def)
  have "map job_id (commit_jobs its txn hub) = map fst (filter (\<lambda>(sid, sub). affected txn sub) (its (h_subs hub)))"
    by (simp add: commit_jobs_def job_of_def case_prod_beta')
  then show "distinct (map job_id (commit_jobs its txn hub))"
    using distinct_map_filter [OF d] by simp
  show "\<forall>job \<in> set (commit_jobs its txn hub). job_ok hub job"
  proof
    fix job
    assume "job \<in> set (commit_jobs its txn hub)"
    then obtain sid sub where mem: "(sid, sub) \<in> set (h_subs hub)" and job: "job = job_of (sid, sub)"
      using fair_iter_set [OF assms(1)] by (auto simp: commit_jobs_def)
    have "map_of (h_subs hub) sid = Some sub" using mem assms(2) by (simp add: hub_ok_def)
    then show "job_ok hub job"
      using hub_ok_mem [OF assms(2) mem] job by (auto simp: job_ok_def job_of_def sub_ok_def)
  qed
qed

lemma reset_all_shape:
  "length (h_chans (reset_all its hub)) = length (h_chans hub) \<and> h_subs (reset_all its hub) = [] \<and>
   h_next_id (reset_all its hub) = h_next_id hub"
proof -
  have "length (foldl (\<lambda>chans (sid, sub). snd (send (sub_sender sub) reset chans)) chans xs) = length chans" for chans xs
    by (induction xs arbitrary: chans) (auto simp: send_chans)
  then show ?thesis by (simp add: reset_all_def)
qed

lemma state_ok_drop:
  assumes "state_ok from_str s" and "ls \<in> set (st_handles s)"
  shows "state_ok from_str
    (s\<lparr>st_hub := drop_remove ls (st_hub s), st_handles := remove1 ls (st_handles s), st_closing := ls # st_closing s\<rparr>)"
proof -
  let ?hub = "drop_remove ls (st_hub s)"
  have "map_of (h_subs ?hub) \<subseteq>\<^sub>m map_of (h_subs (st_hub s))" by (simp add: drop_remove_def map_le_def)
  then have "job_ok ?hub job" if "job_ok (st_hub s) job" for job
    using job_ok_shrink [OF that, of ?hub] by (simp add: drop_remove_def)
  then show ?thesis
    using assms hub_ok_delete [of from_str "st_hub s" "ls_id ls"]
    by (auto simp: state_ok_def drop_remove_def handle_ok_def dest: set_remove1_subset [THEN subsetD])
qed

lemma state_ok_close:
  assumes "state_ok from_str s" and "ls \<in> set (st_closing s)"
  shows "state_ok from_str (s\<lparr>st_hub := drop_close ls (st_hub s), st_closing := remove1 ls (st_closing s)\<rparr>)"
proof -
  let ?hub = "drop_close ls (st_hub s)"
  have same: "h_subs ?hub = h_subs (st_hub s)" "length (h_chans ?hub) = length (h_chans (st_hub s))"
    by (simp_all add: drop_close_def)
  then have "job_ok ?hub job \<longleftrightarrow> job_ok (st_hub s) job" "handle_ok ?hub l \<longleftrightarrow> handle_ok (st_hub s) l" for job l
    by (simp_all add: job_ok_def handle_ok_def)
  moreover have "hub_ok from_str ?hub"
    using assms hub_ok_drop_close by (auto simp: state_ok_def)
  ultimately show ?thesis
    using assms(1) same set_remove1_subset [of ls "st_closing s"] by (auto simp: state_ok_def)
qed

lemma state_ok_apply:
  assumes codec: "json_roundtrip json_text from_str" and ok: "state_ok from_str s"
    and len: "length (h_chans (st_hub s)) \<le> 2 ^ 64"
    and pc: "st_pc s = WApply txid job r jobs" and it: "fair_iter it"
  shows "state_ok from_str
    (s\<lparr>st_hub := apply_job json_text from_str finish it txid job r (st_hub s), st_pc := WJobs txid jobs\<rparr>)"
proof -
  let ?hub = "apply_job json_text from_str finish it txid job r (st_hub s)"
  have hub: "hub_ok from_str (st_hub s)" and job: "job_ok (st_hub s) job"
      and fresh: "job_id job \<notin> job_id ` set jobs" and jobs: "\<forall>j \<in> set jobs. job_ok (st_hub s) j"
    using ok pc by (auto simp: state_ok_def)
  note shape = apply_job_shape [OF hub, of json_text finish it txid job r]
  have "hub_ok from_str ?hub"
    using hub_ok_fail_job [OF hub len] hub_ok_deliver_job [OF codec it hub len job]
    by (simp add: apply_job_def split: sum.split)
  moreover have "job_ok ?hub j" if "j \<in> set jobs" for j
    using jobs that fresh shape by (simp add: job_ok_def) (metis image_eqI)
  moreover have "map_of (h_subs ?hub) sid = None" if "map_of (h_subs (st_hub s)) sid = None" for sid
    using that shape by metis
  ultimately show ?thesis
    using ok pc shape by (auto simp: state_ok_def handle_ok_def)
qed

lemma live_inv_step:
  assumes codec: "json_roundtrip json_text from_str" and inv: "live_inv from_str s"
    and step: "live_step eng json_text from_str finish s t"
  shows "live_inv from_str t"
  using step
proof cases
  case (live_subscribe sql ts hash version snapshot_body who headers params ls hub')
  have len: "length (h_chans hub') = Suc (length (h_chans (st_hub s)))" "h_next_id hub' = h_next_id (st_hub s) + 1"
    using live_subscribe(2) by (auto simp: hub_subscribe_eq Let_def)
  have "state_ok from_str t" if "Suc (length (h_chans (st_hub s))) \<le> 2 ^ 64"
    using hub_ok_subscribe [OF codec _ _ that live_subscribe(2)] inv that live_subscribe(1)
    by (auto simp: live_inv_def state_ok_def)
  then show ?thesis using len inv live_subscribe(1) by (simp add: live_inv_def)
next
  case (live_drop ls)
  then show ?thesis using inv state_ok_drop [of from_str s ls] by (simp add: live_inv_def drop_remove_def)
next
  case (live_close ls)
  have "length (h_chans (drop_close ls (st_hub s))) = length (h_chans (st_hub s))"
      "h_next_id (drop_close ls (st_hub s)) = h_next_id (st_hub s)" by (simp_all add: drop_close_def)
  then show ?thesis using live_close inv state_ok_close [of from_str s ls] by (simp add: live_inv_def)
next
  case (live_commit its txn)
  then show ?thesis
    using inv commit_jobs_ok [OF live_commit(3), of from_str "st_hub s" txn] by (auto simp: live_inv_def state_ok_def)
next
  case (live_query txid job jobs r io')
  then show ?thesis using inv by (simp add: live_inv_def state_ok_def)
next
  case (live_apply txid job r jobs it)
  then show ?thesis
    using inv state_ok_apply [OF codec _ _ live_apply(2,3), of finish]
      apply_job_counts [of json_text from_str finish it txid job r "st_hub s"]
    by (simp add: live_inv_def)
next
  case (live_finish txid)
  then show ?thesis
    using inv retain_open_id [of from_str "st_hub s"] by (auto simp: live_inv_def state_ok_def retain_open_def)
next
  case (live_lagged its)
  then show ?thesis using inv reset_all_shape [of its "st_hub s"]
    by (auto simp: live_inv_def state_ok_def handle_ok_def hub_ok_def)
next
  case (live_world io')
  then show ?thesis using inv by (simp add: live_inv_def state_ok_def)
qed

lemma live_inv_init: "live_init s \<Longrightarrow> live_inv from_str s"
  by (auto simp: live_init_def live_inv_def state_ok_def hub_ok_def hub_start_def)

text \<open>
  The state machine of the hub, as an instance of the interface: states are paired with the proof
  obligation on the codec, so that the interpretation itself has no side condition.
\<close>

interpretation live: invariant_system live_init
  "\<lambda>s t. json_roundtrip json_text from_str \<and> live_step eng json_text from_str finish s t" "live_inv from_str"
  by unfold_locales (auto intro: live_inv_init live_inv_step)

lemma live_reachable_inv:
  assumes "json_roundtrip json_text from_str" and "live_init s0"
    and "(live_step eng json_text from_str finish)\<^sup>*\<^sup>* s0 s"
  shows "live_inv from_str s"
proof -
  have "(\<lambda>s t. json_roundtrip json_text from_str \<and> live_step eng json_text from_str finish s t)\<^sup>*\<^sup>* s0 s"
    using assms(1,3) by simp
  then show ?thesis by (rule live.inv_reachable [OF assms(2)])
qed

subsection \<open>Properties\<close>


definition sample_live :: "unit live_state" where
  "sample_live =
     \<lparr>st_hub = hub_start Map.empty, st_pc = WIdle, st_io = \<lparr>world = (), trace = []\<rparr>, st_handles = [], st_closing = []\<rparr>"

definition sample_sub :: "live_subscription \<times> live_hub" where
  "sample_sub =
     hub_subscribe sample_json_text sample_from_str (\<lambda>_. 0) ''select 1'' [''users''] ''1f'' 7 ''x'' None None [] (hub_start Map.empty)"

definition sample_subscribed :: "unit live_state" where
  "sample_subscribed = sample_live\<lparr>st_hub := snd sample_sub, st_handles := [fst sample_sub]\<rparr>"

lemma sample_subscribed_fields [simp]:
  "st_hub sample_subscribed = snd sample_sub" "st_handles sample_subscribed = [fst sample_sub]"
  "st_pc sample_subscribed = WIdle" "st_closing sample_subscribed = []"
  by (simp_all add: sample_subscribed_def sample_live_def)

lemma sample_sub_hub:
  "length (h_chans (snd sample_sub)) = 1"
  "\<exists>sub. h_subs (snd sample_sub) = [(ls_id (fst sample_sub), sub)] \<and> sub_tables sub = [''users''] \<and> sub_who sub = None \<and> sub_headers sub = None"
  by (simp_all add: sample_sub_def hub_subscribe_eq Let_def hub_start_def)

lemma sample_live_init: "live_init sample_live"
  by (auto simp: live_init_def sample_live_def)

lemma sample_live_step:
  "live_step (one_row_engine []) sample_json_text sample_from_str (\<lambda>_. 0) sample_live sample_subscribed"
proof -
  have "hub_subscribe sample_json_text sample_from_str (\<lambda>_. 0) ''select 1'' [''users''] ''1f'' 7 ''x'' None None [] (st_hub sample_live)
      = (fst sample_sub, snd sample_sub)"
    by (simp add: sample_sub_def sample_live_def)
  from live_subscribe [OF this, of "one_row_engine []"] show ?thesis
    by (simp add: sample_subscribed_def) (simp add: sample_live_def)
qed


text \<open>
  When the worker applies the answer to a job of a registered subscription, a successful answer
  leaves the subscriber with exactly the keyed rows of that answer, announced by one \<open>up-to-date\<close>
  frame after the deltas; a failed one removes the subscription after a final \<open>reset\<close> frame.  No
  other channel is touched.
\<close>

theorem job_refreshes_or_resets:
  assumes "json_roundtrip json_text from_str" and "live_init s0"
    and "(live_step eng json_text from_str finish)\<^sup>*\<^sup>* s0 s"
    and "length (h_chans (st_hub s)) \<le> 2 ^ 64" and "fair_iter it"
    and "st_pc s = WApply txid job r jobs" and "map_of (h_subs (st_hub s)) (job_id job) = Some sub"
  shows "let hub' = apply_job json_text from_str finish it txid job r (st_hub s);
             c = h_chans (st_hub s) ! sub_sender sub; c' = h_chans hub' ! sub_sender sub
         in (case r of
               Inr fresh \<Rightarrow>
                 client_view from_str c' = map_of (keyed_map json_text from_str finish fresh (sub_pk sub)) \<and>
                 ch_frames c' = ch_frames c @ map (\<lambda>d. encode json_text d txid)
                   (diff it (sub_last sub) (keyed_map json_text from_str finish fresh (sub_pk sub))) @ [up_to_date json_text txid]
             | Inl e \<Rightarrow> map_of (h_subs hub') (job_id job) = None \<and> ch_frames c' = ch_frames c @ [reset]) \<and>
            (\<forall>i. i \<noteq> sub_sender sub \<longrightarrow> h_chans hub' ! i = h_chans (st_hub s) ! i)"
proof -
  let ?hub = "apply_job json_text from_str finish it txid job r (st_hub s)"
  have ok: "state_ok from_str s" using live_reachable_inv [OF assms(1-3)] assms(4) by (simp add: live_inv_def)
  then have hub: "hub_ok from_str (st_hub s)" by (simp add: state_ok_def)
  have sub: "sub_ok from_str (h_chans (st_hub s)) (job_id job) sub" using hub_okD [OF hub assms(7)] .
  have job: "job_last job = sub_last sub" "job_pk job = sub_pk sub"
    using ok assms(6,7) by (auto simp: state_ok_def job_ok_def)
  show ?thesis
  proof (cases r)
    case (Inl e)
    then show ?thesis
      using assms(7) sub by (simp add: apply_job_def fail_job_def send_open sub_ok_def)
  next
    case (Inr fresh)
    have after: "hub_ok from_str ?hub"
      using state_ok_apply [OF assms(1) ok assms(4,6,5), of finish] by (simp add: state_ok_def)
    note eq = deliver_job_present [OF assms(7) sub, of json_text finish it txid fresh]
    have "map_of (h_subs ?hub) (job_id job) =
        Some (sub\<lparr>sub_last := keyed_map json_text from_str finish fresh (sub_pk sub)\<rparr>)"
      using Inr job by (simp add: apply_job_def eq Let_def)
    note new = hub_okD [OF after this]
    have "sub_sender sub < length (h_chans (st_hub s))" using sub by (simp add: sub_ok_def)
    then show ?thesis
      using Inr job new by (simp add: apply_job_def eq Let_def sub_ok_def)
  qed
qed

definition sample_job :: live_job where
  "sample_job = job_of (hd (h_subs (snd sample_sub)))"

definition sample_applying :: "unit live_state" where
  "sample_applying =
     sample_subscribed\<lparr>st_pc := WApply 7 sample_job (fst (query_job (one_row_engine []) sample_job (st_io sample_subscribed))) [],
       st_io := snd (query_job (one_row_engine []) sample_job (st_io sample_subscribed))\<rparr>"

lemma sample_applying_reachable:
  "(live_step (one_row_engine []) sample_json_text sample_from_str (\<lambda>_. 0))\<^sup>*\<^sup>* sample_live sample_applying"
proof -
  let ?step = "live_step (one_row_engine []) sample_json_text sample_from_str (\<lambda>_. 0)"
  let ?s2 = "sample_subscribed\<lparr>st_pc := WJobs 7 [sample_job]\<rparr>"
  have jobs: "commit_jobs (\<lambda>xs. xs) (sample_txn ''users'' 9) (snd sample_sub) = [sample_job]"
    using sample_sub_hub(2)
    by (auto simp: commit_jobs_def sample_job_def affected_def changed_tables_def sample_txn_def)
  have two: "?step sample_subscribed ?s2"
    using live_commit [OF sample_subscribed_fields(3) fair_iter_id, where txn = "sample_txn ''users'' 9"] jobs
    by (simp add: sample_txn_def)
  have pc: "st_pc ?s2 = WJobs 7 (sample_job # [])" by simp
  have three: "?step ?s2 sample_applying"
    using live_query [OF pc, of "one_row_engine []" "fst (query_job (one_row_engine []) sample_job (st_io sample_subscribed))"]
    by (simp add: sample_applying_def)
  show ?thesis
    by (rule rtranclp.rtrancl_into_rtrancl [OF rtranclp.rtrancl_into_rtrancl [OF r_into_rtranclp [where r = ?step, OF sample_live_step] two] three])
qed

theorem job_refreshes_or_resets_witness:
  "\<exists>r. st_pc sample_applying = WApply 7 sample_job r [] \<and>
     map_of (h_subs (apply_job sample_json_text sample_from_str (\<lambda>_. 0) rev 7 sample_job r (st_hub sample_applying))) (job_id sample_job) = None"
proof -
  let ?r = "fst (query_job (one_row_engine []) sample_job (st_io sample_subscribed))"
  have hub: "st_hub sample_applying = snd sample_sub" and pc: "st_pc sample_applying = WApply 7 sample_job ?r []"
    by (simp_all add: sample_applying_def)
  obtain sub where sub: "h_subs (snd sample_sub) = [(ls_id (fst sample_sub), sub)]" "sub_who sub = None" "sub_headers sub = None"
    using sample_sub_hub(2) by blast
  then have m: "map_of (h_subs (st_hub sample_applying)) (job_id sample_job) = Some sub"
    unfolding hub by (simp add: sample_job_def job_of_def)
  have "job_who sample_job = None" "job_headers sample_job = None" using sub by (simp_all add: sample_job_def job_of_def)
  then have "\<exists>e. ?r = Inl e"
    by (simp add: query_job_def query_json_scoped_def bind_prog_def issue_def one_row_engine_def first_text_def get_opt_text_def cell_at_def)
  moreover have "length (h_chans (st_hub sample_applying)) \<le> 2 ^ 64" unfolding hub by (simp add: sample_sub_hub)
  ultimately show ?thesis
    using job_refreshes_or_resets [OF sample_json_roundtrip sample_live_init sample_applying_reachable _ fair_iter_rev pc m] pc
    by (auto simp: Let_def)
qed

lemma apply_job_frames:
  assumes "hub_ok from_str hub" and "\<forall>sid sub. map_of (h_subs hub) sid = Some sub \<longrightarrow> sub_sender sub \<noteq> i"
  shows "h_chans (apply_job json_text from_str finish it txid job r hub) ! i = h_chans hub ! i"
proof (cases "map_of (h_subs hub) (job_id job)")
  case None
  then show ?thesis using apply_job_shape [OF assms(1)] by metis
next
  case (Some sub)
  then have "sub_sender sub \<noteq> i" using assms(2) by blast
  then show ?thesis
    using Some deliver_job_present [OF Some hub_okD [OF assms(1) Some], of json_text finish it txid]
    by (cases r) (simp_all add: apply_job_def fail_job_def send_other Let_def)
qed

lemma reset_all_frames:
  assumes "fair_iter its" and "\<forall>(sid, sub) \<in> set (h_subs hub). sub_sender sub \<noteq> i"
  shows "h_chans (reset_all its hub) ! i = h_chans hub ! i"
proof -
  have "\<forall>(sid, sub) \<in> set xs. sub_sender sub \<noteq> i \<Longrightarrow>
      foldl (\<lambda>chans (sid, sub). snd (send (sub_sender sub) reset chans)) chans xs ! i = chans ! i" for xs chans
    by (induction xs arbitrary: chans) (auto simp: send_other)
  from this [of "its (h_subs hub)"] show ?thesis
    using assms(2) fair_iter_set [OF assms(1), of "h_subs hub"] by (simp add: reset_all_def)
qed

text \<open>
  A channel belongs to its subscription alone: while no registered subscription uses it, no step
  of the hub adds a frame to it, so nothing follows a \<open>reset\<close> or a departure.
\<close>

theorem unregistered_channel_is_silent:
  assumes "json_roundtrip json_text from_str" and "live_init s0"
    and "(live_step eng json_text from_str finish)\<^sup>*\<^sup>* s0 s"
    and "length (h_chans (st_hub s)) \<le> 2 ^ 64"
    and "i < length (h_chans (st_hub s))" and "\<forall>(sid, sub) \<in> set (h_subs (st_hub s)). sub_sender sub \<noteq> i"
    and "live_step eng json_text from_str finish s t"
  shows "ch_frames (h_chans (st_hub t) ! i) = ch_frames (h_chans (st_hub s) ! i)"
proof -
  have hub: "hub_ok from_str (st_hub s)"
    using live_reachable_inv [OF assms(1-3)] assms(4) by (simp add: live_inv_def state_ok_def)
  have free: "\<forall>sid sub. map_of (h_subs (st_hub s)) sid = Some sub \<longrightarrow> sub_sender sub \<noteq> i"
    using assms(6) by (auto dest: map_of_SomeD)
  from assms(7) show ?thesis
  proof cases
    case (live_subscribe sql ts hash version snapshot_body who headers params ls hub')
    then show ?thesis using assms(5) by (auto simp: hub_subscribe_eq Let_def nth_append)
  next
    case (live_close ls)
    then show ?thesis using assms(5) by (simp add: drop_close_def nth_list_update)
  next
    case (live_apply txid job r jobs it)
    then show ?thesis using apply_job_frames [OF hub free] by simp
  next
    case (live_lagged its)
    then show ?thesis using reset_all_frames [OF live_lagged(3) assms(6)] by simp
  qed (auto simp: drop_remove_def retain_open_def)
qed

definition sample_left :: "unit live_state" where
  "sample_left =
     sample_subscribed\<lparr>st_hub := drop_remove (fst sample_sub) (snd sample_sub), st_handles := [], st_closing := [fst sample_sub]\<rparr>"

theorem unregistered_channel_is_silent_witness:
  "ch_frames (h_chans (st_hub (sample_left\<lparr>st_hub := reset_all rev (st_hub sample_left)\<rparr>)) ! 0) = ch_frames (h_chans (st_hub sample_left) ! 0)"
proof (rule unregistered_channel_is_silent [OF sample_json_roundtrip sample_live_init])
  let ?step = "live_step (one_row_engine []) sample_json_text sample_from_str (\<lambda>_. 0)"
  have "?step sample_subscribed sample_left"
    using live_drop [where s = sample_subscribed and ls = "fst sample_sub" and eng = "one_row_engine []"]
    by (simp add: sample_left_def)
  then show "?step\<^sup>*\<^sup>* sample_live sample_left"
    using sample_live_step by (metis rtranclp.simps)
  have pc: "st_pc sample_left = WIdle" by (simp add: sample_left_def)
  show "?step sample_left (sample_left\<lparr>st_hub := reset_all rev (st_hub sample_left)\<rparr>)"
    by (rule live_lagged [OF pc fair_iter_rev])
  show "length (h_chans (st_hub sample_left)) \<le> 2 ^ 64" "0 < length (h_chans (st_hub sample_left))"
       "\<forall>(sid, sub) \<in> set (h_subs (st_hub sample_left)). sub_sender sub \<noteq> 0"
    using sample_sub_hub by (auto simp: sample_left_def drop_remove_def)
qed

end
