(* ===== verification/Sql.thy ===== *)
theory Sql
  imports Rows
begin

text \<open>
  \<open>src/capability/sql.rs\<close> and \<open>map_db_denial\<close> of \<open>src/capability/read.rs\<close>: the SQL endpoint.  It
  validates one statement, selects the role, refuses roles that own or bypass the database's
  protection, restricts a replica to \<open>SELECT\<close> and runs the statement as the role.
\<close>

record 'k sql_operations =
  so_verifier :: "'k verifier option"
  so_public_role :: string
  so_read_only :: bool

record sql_outcome =
  o_command :: string
  o_rows_json :: string
  o_rows_affected :: u64

definition sql_operations_new :: "'k verifier option \<Rightarrow> string option \<Rightarrow> bool \<Rightarrow> 'k sql_operations" where
  "sql_operations_new verifier public_role read_only =
     \<lparr>so_verifier = verifier,
      so_public_role = (case public_role of Some r \<Rightarrow> r | None \<Rightarrow> DEFAULT_PUBLIC_ROLE),
      so_read_only = read_only\<rparr>"

definition sql_authenticate ::
  "'k jwt_lib \<Rightarrow> json_printer \<Rightarrow> 'k verifier option \<Rightarrow> string option \<Rightarrow> principal option result" where
  "sql_authenticate jwt json_text verifier bearer =
     (case bearer of
        None \<Rightarrow> Inr None
      | Some token \<Rightarrow>
          (case verifier of
             None \<Rightarrow> Inl (Unauthorized ''a token was presented but JWT verification is not configured'')
           | Some v \<Rightarrow> bind_res (verify jwt json_text v token) (\<lambda>p. Inr (Some p))))"

text \<open>\<open>map_db_denial\<close>: three SQLSTATE codes of the engine become \<open>Forbidden\<close>.\<close>

definition map_db_denial :: "(pg_error \<Rightarrow> string) \<Rightarrow> cache_error \<Rightarrow> cache_error" where
  "map_db_denial pg_display error =
     (case error of
        Pglite (Database sqlstate message detail hint) \<Rightarrow>
          if sqlstate \<in> {''42501'', ''42704'', ''28000''}
          then Forbidden (error_display pg_display error) else error
      | _ \<Rightarrow> error)"

definition owner_query :: string where
  "owner_query =
     ''SELECT rolsuper::int, rolbypassrls::int, (pg_has_role(rolname, (SELECT datdba FROM pg_database WHERE datname = current_database()), '' @
     [CHR 0x27] @ ''member'' @ [CHR 0x27] @ ''))::int FROM pg_roles WHERE rolname = $1''"

definition check_role_row :: "row \<Rightarrow> unit result" where
  "check_role_row r =
     bind_res (get_int r 0) (\<lambda>superuser.
       if superuser = 1 then Inl (Forbidden ''public SQL never executes as a superuser role'')
       else bind_res (get_int r 1) (\<lambda>bypass_rls.
         if bypass_rls = 1 then Inl (Forbidden ''public SQL never executes as a role that bypasses row-level security'')
         else bind_res (get_int r 2) (\<lambda>owns_database.
           if owns_database = 1 then Inl (Forbidden ''public SQL never executes as the database owner or a member of it'')
           else Inr ())))"

definition deny_owner_roles :: "'w engine \<Rightarrow> string \<Rightarrow> ('w, unit) prog" where
  "deny_owner_roles eng r =
     (if r = ''postgres'' then fail_prog (Forbidden ''public SQL never executes as the engine owner'')
      else bind_prog (issue eng (Query owner_query [PText r])) (\<lambda>rows.
        lift_prog (case rows of [] \<Rightarrow> Inr () | row # _ \<Rightarrow> check_role_row row)))"

definition read_only_rejection :: cache_error where
  "read_only_rejection = Rejected
     (''this node serves a read replica; only SELECT may execute here '' @ [CHR 0xE2, CHR 0x80, CHR 0x94] @
      '' send writes to the primary data node'')"

definition execute ::
  "'w engine \<Rightarrow> sql_front \<Rightarrow> (string \<Rightarrow> string) \<Rightarrow> json_parser \<Rightarrow> (pg_error \<Rightarrow> string) \<Rightarrow> 'k sql_operations \<Rightarrow>
   string \<Rightarrow> json list \<Rightarrow> principal option \<Rightarrow> string option \<Rightarrow> ('w, sql_outcome) prog" where
  "execute eng front up from_str pg_display ops sql params who headers =
     bind_prog (lift_prog (validate_one_statement front up sql MAX_SQL_BYTES)) (\<lambda>validated.
       let (as_role, claims) =
         (case who of Some p \<Rightarrow> (role p, Some (claims_json p)) | None \<Rightarrow> (so_public_role ops, None))
       in bind_prog (deny_owner_roles eng as_role) (\<lambda>_.
            if so_read_only ops \<and> command validated \<noteq> ''SELECT'' then fail_prog read_only_rejection
            else bind_prog
              (map_err_prog (map_db_denial pg_display)
                 (run_sql_as eng from_str as_role claims headers validated sql params MAX_RESULT_BYTES)) (\<lambda>outcome.
              return_prog \<lparr>o_command = command validated, o_rows_json = rows_json outcome,
                           o_rows_affected = rows_affected outcome\<rparr>)))"

subsection \<open>Lemmas\<close>

interpretation sgate: bearer_gate "sql_authenticate jwt json_text" "verify jwt json_text"
  by unfold_locales (auto simp: sql_authenticate_def)

lemma execute_run:
  assumes "execute eng front up from_str pg_display ops sql params who headers s = (r, t)"
  defines "as_role \<equiv> (case who of Some p \<Rightarrow> role p | None \<Rightarrow> so_public_role ops)"
    and "claims \<equiv> map_option claims_json who"
  obtains (refused) cs where "\<not> is_ok r" "trace t = trace s @ cs" "set cs \<subseteq> {Query owner_query [PText as_role]}"
        | (run) v s' q where "validate_one_statement front up sql MAX_SQL_BYTES = Inr v"
            "deny_owner_roles eng as_role s = (Inr (), s')"
            "so_read_only ops \<longrightarrow> command v = ''SELECT''"
            "run_sql_as eng from_str as_role claims headers v sql params MAX_RESULT_BYTES s' = (q, t)"
            "trace s' = trace s @ [Query owner_query [PText as_role]]"
            "is_ok r \<longleftrightarrow> is_ok q"
            "\<And>out. r = Inr out \<Longrightarrow> \<exists>o'. q = Inr o' \<and> out = \<lparr>o_command = command v, o_rows_json = rows_json o', o_rows_affected = rows_affected o'\<rparr>"
proof -
  have rc: "(case who of Some p \<Rightarrow> (role p, Some (claims_json p)) | None \<Rightarrow> (so_public_role ops, None)) = (as_role, claims)"
    by (simp add: as_role_def claims_def split: option.split)
  show ?thesis
  proof (cases "validate_one_statement front up sql MAX_SQL_BYTES")
    case (Inl e)
    then show ?thesis using assms(1) refused [of "[]"] by (auto simp: execute_def bind_prog_def)
  next
    case (Inr v)
    obtain d s' where deny: "deny_owner_roles eng as_role s = (d, s')" by (cases "deny_owner_roles eng as_role s")
    have tr: "trace s' = trace s @ (if as_role = ''postgres'' then [] else [Query owner_query [PText as_role]])"
    proof (cases "as_role = ''postgres''")
      case False
      obtain q w' where e: "issue eng (Query owner_query [PText as_role]) s = (q, w')"
        by (cases "issue eng (Query owner_query [PText as_role]) s")
      then show ?thesis
        using deny False issue_traceD [OF e] by (cases q) (simp_all add: deny_owner_roles_def bind_prog_def)
    qed (use deny in \<open>simp add: deny_owner_roles_def\<close>)
    show ?thesis
    proof (cases d)
      case (Inl e)
      then show ?thesis
        using assms(1) Inr deny rc tr refused [of "if as_role = ''postgres'' then [] else [Query owner_query [PText as_role]]"]
        by (auto simp: execute_def bind_prog_def split: if_splits)
    next
      case ok: (Inr u)
      then have np: "as_role \<noteq> ''postgres''" using deny by (auto simp: deny_owner_roles_def)
      show ?thesis
      proof (cases "so_read_only ops \<and> command v \<noteq> ''SELECT''")
        case True
        then show ?thesis
          using assms(1) Inr deny ok rc tr np refused [of "[Query owner_query [PText as_role]]"]
          by (auto simp: execute_def bind_prog_def)
      next
        case False
        obtain q t' where q: "run_sql_as eng from_str as_role claims headers v sql params MAX_RESULT_BYTES s' = (q, t')"
          by (metis surj_pair)
        show ?thesis
          using assms(1) Inr deny ok rc tr np False q run [of v s' q]
          by (cases q) (auto simp: execute_def bind_prog_def map_err_prog_def)
      qed
    qed
  qed
qed

text \<open>The answer to the role query that lets a role pass: unknown, or without any of the three flags.\<close>

definition role_passes :: "row list \<Rightarrow> bool" where
  "role_passes rows \<longleftrightarrow>
     (case rows of
        [] \<Rightarrow> True
      | r # _ \<Rightarrow> (\<exists>a b c. get_int r 0 = Inr a \<and> get_int r 1 = Inr b \<and> get_int r 2 = Inr c \<and> a \<noteq> 1 \<and> b \<noteq> 1 \<and> c \<noteq> 1))"

lemma deny_owner_roles_passes:
  assumes "deny_owner_roles eng r s = (Inr (), t)"
  shows "r \<noteq> ''postgres'' \<and> (\<exists>rows w'. eng (Query owner_query [PText r]) (world s) = (Inr rows, w') \<and> role_passes rows)"
proof -
  obtain q w' where e: "eng (Query owner_query [PText r]) (world s) = (q, w')"
    by (cases "eng (Query owner_query [PText r]) (world s)")
  show ?thesis
    using assms e
    by (cases q) (auto simp: deny_owner_roles_def bind_prog_def issue_def role_passes_def check_role_row_def
        bind_res_Inr_iff split: if_splits list.splits)
qed

subsection \<open>Properties\<close>

text \<open>
  C15: the endpoint executes a statement only after it was validated, and never as \<open>postgres\<close> or as a
  role the engine reports as superuser, as bypassing row security or as (a member of) the database
  owner; on a read-only node only if its command is \<open>SELECT\<close>.  Otherwise no transaction is opened.
  A success has committed exactly this one statement, in the scope of the caller's role, claims and
  headers.
\<close>

theorem execute_is_guarded:
  assumes "execute eng front up from_str pg_display ops sql params who headers s = (r, t)"
    and "as_role = (case who of Some p \<Rightarrow> role p | None \<Rightarrow> so_public_role ops)"
  shows "\<exists>cs. trace t = trace s @ cs \<and>
     (\<not> is_ok r \<and> set cs \<subseteq> {Query owner_query [PText as_role]} \<or>
      (\<exists>v rest rows w'. validate_one_statement front up sql MAX_SQL_BYTES = Inr v \<and>
         as_role \<noteq> ''postgres'' \<and>
         eng (Query owner_query [PText as_role]) (world s) = (Inr rows, w') \<and> role_passes rows \<and>
         (so_read_only ops \<longrightarrow> command v = ''SELECT'') \<and>
         cs = Query owner_query [PText as_role] # rest \<and>
         (is_ok r \<longrightarrow> rest = scope_script as_role (map_option claims_json who) headers @
                          [TxQuery (statement_sql v sql) (to_sql_params params), Commit])))"
  using assms(1)
proof (cases rule: execute_run)
  case (refused cs)
  then show ?thesis using assms(2) by blast
next
  case (run v s' q)
  have as_role: "(case who of None \<Rightarrow> so_public_role ops | Some p \<Rightarrow> role p) = as_role"
    using assms(2) by (simp split: option.split)
  note run = run [unfolded as_role]
  from run(4) obtain cs where cs: "trace t = trace s' @ cs"
      "is_ok q \<longrightarrow> cs = scope_script as_role (map_option claims_json who) headers @
         [TxQuery (statement_sql v sql) (to_sql_params params), Commit]"
    by (cases rule: run_sql_as_cases) (auto simp: is_ok_def)
  then have "trace t = trace s @ (Query owner_query [PText as_role] # cs)" using run(5) by simp
  then show ?thesis
    using run(1,3,6) cs(2) deny_owner_roles_passes [OF run(2)] by blast
qed

theorem execute_is_guarded_witness:
  "\<exists>t. execute (one_row_engine [CInt 1, CInt 0, CInt 0]) (sample_front (sample_query [] None) [] []) (\<lambda>s. s) (\<lambda>_. None) (\<lambda>_. [])
         (sql_operations_new (None :: string verifier option) None False) ''select 1'' [] None None \<lparr>world = (), trace = []\<rparr> =
       (Inl (Forbidden ''public SQL never executes as a superuser role''), t) \<and>
       set (trace t) \<subseteq> {Query owner_query [PText DEFAULT_PUBLIC_ROLE]}"
proof -
  let ?ops = "sql_operations_new (None :: string verifier option) None False"
  let ?eng = "one_row_engine [CInt 1, CInt 0, CInt 0]" and ?front = "sample_front (sample_query [] None) [] []"
  let ?run = "execute ?eng ?front (\<lambda>s. s) (\<lambda>_. None) (\<lambda>_. []) ?ops ''select 1'' [] None None \<lparr>world = (), trace = []\<rparr>"
  have "DEFAULT_PUBLIC_ROLE \<noteq> ''postgres''" by (simp add: DEFAULT_PUBLIC_ROLE_def)
  moreover have "validate_one_statement ?front (\<lambda>s. s) ''select 1'' MAX_SQL_BYTES =
      Inr \<lparr>command = ''SELECT'', returns_rows = True, needs_count_wrap = False\<rparr>"
    by (simp add: validate_one_statement_def sample_front_def MAX_SQL_BYTES_def check_returning_duplicates_def)
  ultimately have r: "?run = (Inl (Forbidden ''public SQL never executes as a superuser role''), snd ?run)"
    by (simp add: execute_def bind_prog_def deny_owner_roles_def sql_operations_new_def issue_def one_row_engine_def
        check_role_row_def get_int_def cell_at_def)
  have "\<not> role_passes [\<lparr>row_columns = [], row_cells = [CInt 1, CInt 0, CInt 0]\<rparr>]"
    by (simp add: role_passes_def get_int_def cell_at_def)
  then show ?thesis
    using execute_is_guarded [OF r refl] r by (auto simp: one_row_engine_def sql_operations_new_def)
qed

text \<open>
  The read-only test looks at the statement class only.  Every statement that parses to a query
  counts as \<open>SELECT\<close>, whatever its body and its \<open>WITH\<close> list are, so for such a statement (for
  example a \<open>WITH\<close> query whose body is an \<open>INSERT\<close>) a read-only node behaves exactly like a
  writable one.
\<close>

theorem read_only_gate_ignores_queries:
  assumes "parse_sql front sql = Inr [SQuery q]"
  shows "execute eng front up from_str pg_display (ops\<lparr>so_read_only := True\<rparr>) sql params who headers s =
         execute eng front up from_str pg_display (ops\<lparr>so_read_only := False\<rparr>) sql params who headers s"
proof -
  have "validate_one_statement front up sql MAX_SQL_BYTES = Inr v \<Longrightarrow> command v = ''SELECT''" for v
    using assms by (auto simp: validate_Inr admitted_def)
  then show ?thesis
    by (cases "validate_one_statement front up sql MAX_SQL_BYTES")
      (simp_all add: execute_def bind_prog_def split: option.split)
qed

theorem read_only_gate_ignores_queries_witness:
  "execute (one_row_engine [CInt 0, CInt 0, CInt 0])
     (sample_front \<lparr>with_ctes = Some [''x''], query_body = OtherSetExpr 1, locks = [], query_rest = 0\<rparr> [] []) (\<lambda>s. s) (\<lambda>_. None) (\<lambda>_. [])
     ((sql_operations_new (None :: string verifier option) None False)\<lparr>so_read_only := True\<rparr>)
     ''with x as (select 1) insert into t select * from x returning *'' [] None None \<lparr>world = (), trace = []\<rparr> =
   execute (one_row_engine [CInt 0, CInt 0, CInt 0])
     (sample_front \<lparr>with_ctes = Some [''x''], query_body = OtherSetExpr 1, locks = [], query_rest = 0\<rparr> [] []) (\<lambda>s. s) (\<lambda>_. None) (\<lambda>_. [])
     ((sql_operations_new (None :: string verifier option) None False)\<lparr>so_read_only := False\<rparr>)
     ''with x as (select 1) insert into t select * from x returning *'' [] None None \<lparr>world = (), trace = []\<rparr>"
  by (rule read_only_gate_ignores_queries) (simp add: sample_front_def)

end
