(* ===== verification/Read.thy ===== *)
theory Read
  imports Cache Live Sql
begin

text \<open>
  \<open>src/capability/read.rs\<close>: preparing and running a read.  \<open>prepare\<close> classifies the query and decides
  from the catalogue whether it is access-controlled; \<open>materialize\<close> serves a public query from the
  result cache under a key made of its fingerprint and its version; \<open>subscribe\<close> opens a live
  subscription.  The state threads the verdict cache, the result cache, the version index, the live
  hub and the engine; what the replica currently reports is the record \<open>replica_view\<close>.
\<close>

record replica_view =
  rp_halted :: bool
  rp_reason :: "string option"
  rp_watermark :: u64
  rp_security :: "pg_error + u64"

type_synonym verdicts = "string \<rightharpoonup> bool"

record ('w, 'm, 'k) read_state =
  rs_io :: "'w io"
  rs_replica :: "replica_view option"
  rs_security_version :: u64
  rs_classifier :: read_classifier
  rs_verifier :: "'k verifier option"
  rs_security_cache :: "(u64 \<times> verdicts) option"
  rs_cache :: 'm
  rs_versions :: version_index
  rs_live :: live_hub

type_synonym ('w, 'm, 'k, 'a) read_prog =
  "('w, 'm, 'k) read_state \<Rightarrow> 'a result \<times> ('w, 'm, 'k) read_state"

text \<open>The packages a read depends on, collected.\<close>

record ('w, 'm) read_lib =
  l_engine :: "'w engine"
  l_front :: sql_front
  l_json_text :: json_printer
  l_from_str :: json_parser
  l_finish :: "string \<Rightarrow> u64"
  l_pg_display :: "pg_error \<Rightarrow> string"
  l_moka :: "'m moka"

record prepared_read =
  pr_query :: cacheable_query
  pr_who :: "principal option"
  pr_headers :: "string option"
  pr_private :: bool

record health_status =
  halted :: bool
  reason :: "string option"
  watermark :: "u64 option"

subsection \<open>Programs over the state\<close>

definition on_io :: "('w, 'a) prog \<Rightarrow> ('w, 'm, 'k, 'a) read_prog" where
  "on_io m s = (case m (rs_io s) of (r, io) \<Rightarrow> (r, s\<lparr>rs_io := io\<rparr>))"

definition bind_read ::
  "('w, 'm, 'k, 'a) read_prog \<Rightarrow> ('a \<Rightarrow> ('w, 'm, 'k, 'b) read_prog) \<Rightarrow> ('w, 'm, 'k, 'b) read_prog" where
  "bind_read m f s = (case m s of (Inl e, s') \<Rightarrow> (Inl e, s') | (Inr a, s') \<Rightarrow> f a s')"

subsection \<open>Construction and inspection\<close>

definition read_operations_new ::
  "'w io \<Rightarrow> replica_view \<Rightarrow> string list \<Rightarrow> 'k verifier option \<Rightarrow> 'm \<Rightarrow> version_index \<Rightarrow> live_hub \<Rightarrow> ('w, 'm, 'k) read_state" where
  "read_operations_new io rep ts verifier cache versions live =
     \<lparr>rs_io = io, rs_replica = Some rep, rs_security_version = 0, rs_classifier = read_classifier_new ts,
      rs_verifier = verifier, rs_security_cache = Some (0, Map.empty), rs_cache = cache,
      rs_versions = versions, rs_live = live\<rparr>"

definition read_operations_primary ::
  "'w io \<Rightarrow> string list \<Rightarrow> 'm \<Rightarrow> version_index \<Rightarrow> live_hub \<Rightarrow> u64 \<Rightarrow> 'k verifier option \<Rightarrow> ('w, 'm, 'k) read_state" where
  "read_operations_primary io ts cache versions live security_version verifier =
     \<lparr>rs_io = io, rs_replica = None, rs_security_version = security_version, rs_classifier = read_classifier_new ts,
      rs_verifier = verifier, rs_security_cache = None, rs_cache = cache,
      rs_versions = versions, rs_live = live\<rparr>"

definition health :: "('w, 'm, 'k) read_state \<Rightarrow> health_status" where
  "health s =
     (case rs_replica s of
        Some rep \<Rightarrow> \<lparr>halted = rp_halted rep, reason = rp_reason rep, watermark = Some (rp_watermark rep)\<rparr>
      | None \<Rightarrow> \<lparr>halted = False, reason = None, watermark = None\<rparr>)"

definition live_subscription_count :: "('w, 'm, 'k) read_state \<Rightarrow> nat" where
  "live_subscription_count s = subscription_count (rs_live s)"

definition read_sql_operations :: "string option \<Rightarrow> ('w, 'm, 'k) read_state \<Rightarrow> 'k sql_operations" where
  "read_sql_operations public_role s = sql_operations_new (rs_verifier s) public_role (rs_replica s \<noteq> None)"

definition read_authenticate ::
  "'k jwt_lib \<Rightarrow> json_printer \<Rightarrow> 'k verifier option \<Rightarrow> string option \<Rightarrow> principal option result" where
  "read_authenticate jwt json_text verifier bearer =
     (case bearer of
        None \<Rightarrow> Inr None
      | Some token \<Rightarrow>
          (case verifier of
             None \<Rightarrow> Inl (Unauthorized ''a token was presented but JWT verification is not configured'')
           | Some v \<Rightarrow> bind_res (verify jwt json_text v token) (\<lambda>p. Inr (Some p))))"

subsection \<open>Access control\<close>

definition security_query :: string where
  "security_query =
     ''select lower(c.relname), (c.relrowsecurity or not has_table_privilege('' @ [CHR 0x27] @ ''public'' @ [CHR 0x27] @
     '', c.oid, '' @ [CHR 0x27] @ ''SELECT'' @ [CHR 0x27] @
     ''))::int from pg_class c join pg_namespace n on n.oid = c.relnamespace where c.relkind = '' @
     [CHR 0x27] @ ''r'' @ [CHR 0x27] @ '' and n.nspname not in ('' @ [CHR 0x27] @ ''pg_catalog'' @ [CHR 0x27] @ '', '' @
     [CHR 0x27] @ ''information_schema'' @ [CHR 0x27] @ '') and lower(c.relname) = any($1)''"

text \<open>The loop over the rows; a second row for a name makes the name private.\<close>

fun add_verdicts :: "verdicts \<Rightarrow> row list \<Rightarrow> verdicts result" where
  "add_verdicts m [] = Inr m"
| "add_verdicts m (r # rows) =
     bind_res (get_text r 0) (\<lambda>name.
     bind_res (get_int r 1) (\<lambda>priv.
       add_verdicts (m(name \<mapsto> (case m name of Some _ \<Rightarrow> True | None \<Rightarrow> priv = 1))) rows))"

definition classify_security :: "'w engine \<Rightarrow> string list \<Rightarrow> ('w, verdicts) prog" where
  "classify_security eng ts =
     (if ts = [] then return_prog Map.empty
      else bind_prog (issue eng (Query security_query [PTexts ts])) (\<lambda>rows. lift_prog (add_verdicts Map.empty rows)))"

definition merge_verdicts :: "string list \<Rightarrow> verdicts \<Rightarrow> bool" where
  "merge_verdicts ts m \<longleftrightarrow> (\<exists>t \<in> set ts. case m t of Some p \<Rightarrow> p | None \<Rightarrow> True)"

definition current_security :: "('w, 'm, 'k) read_state \<Rightarrow> u64 result" where
  "current_security s =
     (case rs_replica s of
        Some rep \<Rightarrow> map_err Pglite (rp_security rep)
      | None \<Rightarrow> Inr (rs_security_version s))"

definition is_private :: "'w engine \<Rightarrow> string list \<Rightarrow> ('w, 'm, 'k, bool) read_prog" where
  "is_private eng ts s =
     (case rs_security_cache s of
        None \<Rightarrow> bind_read (on_io (classify_security eng ts)) (\<lambda>m s. (Inr (merge_verdicts ts m), s)) s
      | Some (cached_version, cached) \<Rightarrow>
          (case current_security s of
             Inl e \<Rightarrow> (Inl e, s)
           | Inr version \<Rightarrow>
               if cached_version = version \<and> (\<forall>t \<in> set ts. cached t \<noteq> None) then
                 (Inr (merge_verdicts ts cached), s)
               else
                 bind_read (on_io (classify_security eng ts)) (\<lambda>m s.
                   let kept = (if cached_version \<noteq> version then Map.empty else cached)
                   in (Inr (merge_verdicts ts m), s\<lparr>rs_security_cache := Some (version, kept ++ m)\<rparr>)) s))"

definition identity_required :: cache_error where
  "identity_required = Unauthorized
     ''this query is access-controlled; a bearer token or request identity is required''"

definition halt_error :: "('w, 'm, 'k) read_state \<Rightarrow> cache_error option" where
  "halt_error s =
     (case rs_replica s of
        Some rep \<Rightarrow>
          if rp_halted rep then Some (Halted (case rp_reason rep of Some r \<Rightarrow> r | None \<Rightarrow> ''unknown'')) else None
      | None \<Rightarrow> None)"

definition prepare ::
  "('w, 'm) read_lib \<Rightarrow> string \<Rightarrow> principal option \<Rightarrow> string option \<Rightarrow> json list \<Rightarrow> ('w, 'm, 'k, prepared_read) read_prog" where
  "prepare lib sql who headers params s =
     (case halt_error s of
        Some e \<Rightarrow> (Inl e, s)
      | None \<Rightarrow>
         (case classify (l_front lib) (l_json_text lib) (l_finish lib) (rs_classifier s) sql params of
            Inl e \<Rightarrow> (Inl e, s)
          | Inr query \<Rightarrow>
              bind_read (is_private (l_engine lib) (q_tables query)) (\<lambda>priv.
                if priv \<and> who = None \<and> headers = None then (\<lambda>s. (Inl identity_required, s))
                else bind_read
                  (if length (q_tables query) > 1
                   then on_io (ensure_unique_columns (l_engine lib) who headers (q_sql query) (q_params query))
                   else (\<lambda>s. (Inr (), s))) (\<lambda>_ s.
                  (Inr \<lparr>pr_query = query, pr_who = who, pr_headers = headers, pr_private = priv\<rparr>, s))) s))"

subsection \<open>Running a prepared read\<close>

definition execute_private :: "('w, 'm) read_lib \<Rightarrow> prepared_read \<Rightarrow> ('w, 'm, 'k, string) read_prog" where
  "execute_private lib read s =
     (if pr_who read = None \<and> pr_headers read = None then (Inl identity_required, s)
      else on_io (map_err_prog (map_db_denial (l_pg_display lib))
             (query_json_scoped (l_engine lib) (pr_who read) (pr_headers read) (q_sql (pr_query read)) (q_params (pr_query read)))) s)"

definition execute_public :: "('w, 'm) read_lib \<Rightarrow> prepared_read \<Rightarrow> ('w, 'm, 'k, string) read_prog" where
  "execute_public lib read =
     on_io (query_json_scoped (l_engine lib) None None (q_sql (pr_query read)) (q_params (pr_query read)))"

definition cursor_key :: "string \<Rightarrow> string \<Rightarrow> string" where
  "cursor_key hash version = hash @ '':'' @ version"

definition query_version :: "prepared_read \<Rightarrow> ('w, 'm, 'k) read_state \<Rightarrow> u64" where
  "query_version read s = version_of (rs_versions s) (q_tables (pr_query read)) (eq_filters (pr_query read))"

definition materialize ::
  "('w, 'm) read_lib \<Rightarrow> prepared_read \<Rightarrow> ('w, 'm, 'k, string \<times> u64 \<times> cached_result) read_prog" where
  "materialize lib read s =
     (let hash = show_hex (fingerprint (pr_query read));
          version = query_version read s;
          key = cursor_key hash (show_nat (unat version))
      in case get_or_compute (l_moka lib) key
                (query_json_scoped (l_engine lib) None None (q_sql (pr_query read)) (q_params (pr_query read)))
                (rs_cache s, rs_io s) of
           (r, m, io) \<Rightarrow> (bind_res r (\<lambda>snap. Inr (hash, version, snap)), s\<lparr>rs_cache := m, rs_io := io\<rparr>))"

definition cursor ::
  "('w, 'm) read_lib \<Rightarrow> string \<Rightarrow> string \<Rightarrow> ('w, 'm, 'k) read_state \<Rightarrow> cached_result option \<times> ('w, 'm, 'k) read_state" where
  "cursor lib hash version s =
     (case query_cache_get (l_moka lib) (cursor_key hash version) (rs_cache s) of
        (r, m) \<Rightarrow> (r, s\<lparr>rs_cache := m\<rparr>))"

definition materialize_version :: "prepared_read \<Rightarrow> ('w, 'm, 'k) read_state \<Rightarrow> string \<times> u64 \<times> string" where
  "materialize_version read s =
     (let hash = show_hex (fingerprint (pr_query read)); version = query_version read s
      in (hash, version, cursor_key hash (show_nat (unat version))))"

definition live_register ::
  "('w, 'm) read_lib \<Rightarrow> prepared_read \<Rightarrow> string \<Rightarrow> u64 \<Rightarrow> string \<Rightarrow> principal option \<Rightarrow> string option \<Rightarrow>
   ('w, 'm, 'k, live_subscription) read_prog" where
  "live_register lib read hash version snapshot_body who headers s =
     (case hub_subscribe (l_json_text lib) (l_from_str lib) (l_finish lib) (q_sql (pr_query read)) (q_tables (pr_query read))
             hash version snapshot_body who headers (q_params (pr_query read)) (rs_live s) of
        (ls, hub) \<Rightarrow> (Inr ls, s\<lparr>rs_live := hub\<rparr>))"

definition read_subscribe :: "('w, 'm) read_lib \<Rightarrow> prepared_read \<Rightarrow> ('w, 'm, 'k, live_subscription) read_prog" where
  "read_subscribe lib read s =
     (let version = query_version read s
      in if pr_who read \<noteq> None \<or> pr_headers read \<noteq> None then
           bind_read
             (on_io (map_err_prog (map_db_denial (l_pg_display lib))
                (query_json_scoped (l_engine lib) (pr_who read) (pr_headers read) (q_sql (pr_query read)) (q_params (pr_query read)))))
             (\<lambda>t. live_register lib read [] version t (pr_who read) (pr_headers read)) s
         else
           bind_read (materialize lib read) (\<lambda>(hash, version, snap).
             live_register lib read hash version (c_body snap) None None) s)"

subsection \<open>Lemmas\<close>

interpretation rgate: bearer_gate "read_authenticate jwt json_text" "verify jwt json_text"
  by unfold_locales (auto simp: read_authenticate_def)

lemma bind_read_Inr:
  "bind_read m f s = (Inr b, t) \<longleftrightarrow> (\<exists>a s'. m s = (Inr a, s') \<and> f a s' = (Inr b, t))"
  by (cases "m s") (auto simp: bind_read_def split: sum.splits)

lemma on_io_eq: "on_io m s = (r, t) \<longleftrightarrow> (\<exists>io. m (rs_io s) = (r, io) \<and> t = s\<lparr>rs_io := io\<rparr>)"
  by (cases "m (rs_io s)") (auto simp: on_io_def)

lemma cursor_key_inject:
  "cursor_key (show_hex f) (show_nat (unat v)) = cursor_key (show_hex f') (show_nat (unat v')) \<longleftrightarrow> f = f' \<and> v = v'"
proof
  assume "cursor_key (show_hex f) (show_nat (unat v)) = cursor_key (show_hex f') (show_nat (unat v'))"
  then have eq: "show_hex f @ CHR '':'' # show_nat (unat v) = show_hex f' @ CHR '':'' # show_nat (unat v')"
    by (simp add: cursor_key_def)
  have "split_once (CHR '':'') (show_hex f @ CHR '':'' # show_nat (unat v)) = Some (show_hex f, show_nat (unat v))"
    using show_hex_no_colon by (simp add: split_once_Some)
  moreover have "split_once (CHR '':'') (show_hex f' @ CHR '':'' # show_nat (unat v')) = Some (show_hex f', show_nat (unat v'))"
    using show_hex_no_colon by (simp add: split_once_Some)
  ultimately have "(show_hex f, show_nat (unat v)) = (show_hex f', show_nat (unat v'))"
    unfolding eq by (metis option.inject)
  then show "f = f' \<and> v = v'" by (simp add: word_unat_eq_iff)
qed simp

text \<open>What the catalogue said about a table: the private flags of the rows with its name.\<close>

definition catalogue_flags :: "row list \<Rightarrow> string \<Rightarrow> int list" where
  "catalogue_flags rows t =
     List.map_filter (\<lambda>r. case (get_text r 0, get_int r 1) of (Inr n, Inr p) \<Rightarrow> if n = t then Some p else None | _ \<Rightarrow> None) rows"

lemma add_verdicts_public:
  assumes "add_verdicts m rows = Inr m'" and "m' t = Some False"
  shows "m t = Some False \<and> catalogue_flags rows t = [] \<or>
         m t = None \<and> (\<exists>p. catalogue_flags rows t = [p] \<and> p \<noteq> 1)"
  using assms
proof (induction m rows rule: add_verdicts.induct)
  case (1 m)
  then show ?case by (simp add: catalogue_flags_def List.map_filter_simps)
next
  case (2 m r rows)
  from "2.prems"(1) obtain n p where np: "get_text r 0 = Inr n" "get_int r 1 = Inr p"
      and rest: "add_verdicts (m(n \<mapsto> (case m n of Some _ \<Rightarrow> True | None \<Rightarrow> p = 1))) rows = Inr m'"
    by (auto simp: bind_res_Inr_iff)
  from "2.IH" [OF rest "2.prems"(2)] show ?case
    using np by (auto simp: catalogue_flags_def List.map_filter_simps split: option.splits if_splits)
qed

lemma classify_security_public:
  assumes "classify_security eng ts io = (Inr m, io')" and "m t = Some False"
  shows "\<exists>rows w' p. eng (Query security_query [PTexts ts]) (world io) = (Inr rows, w') \<and> catalogue_flags rows t = [p] \<and> p \<noteq> 1"
proof -
  have ts: "ts \<noteq> []" using assms by (auto simp: classify_security_def)
  obtain q w' where e: "eng (Query security_query [PTexts ts]) (world io) = (q, w')"
    by (cases "eng (Query security_query [PTexts ts]) (world io)")
  with assms(1) ts obtain rows where q: "q = Inr rows" and m: "add_verdicts Map.empty rows = Inr m"
    by (cases q) (auto simp: classify_security_def bind_prog_def issue_def)
  from add_verdicts_public [OF m assms(2)] e q show ?thesis by auto
qed

lemma merge_verdicts_False: "\<not> merge_verdicts ts m \<longleftrightarrow> (\<forall>t \<in> set ts. m t = Some False)"
  by (auto simp: merge_verdicts_def split: option.splits)

lemma is_private_False:
  assumes "is_private eng ts s = (Inr False, s')" and "t \<in> set ts"
  shows "(\<exists>version cached. rs_security_cache s = Some (version, cached) \<and> current_security s = Inr version \<and> cached t = Some False) \<or>
         (\<exists>rows w' p. eng (Query security_query [PTexts ts]) (world (rs_io s)) = (Inr rows, w') \<and>
            catalogue_flags rows t = [p] \<and> p \<noteq> 1)"
proof -
  have asked: ?thesis if "classify_security eng ts (rs_io s) = (Inr m, io)" "\<not> merge_verdicts ts m" for m io
    using classify_security_public [OF that(1)] that(2) assms(2) by (auto simp: merge_verdicts_False)
  show ?thesis
  proof (cases "rs_security_cache s")
    case None
    then show ?thesis
      using assms(1) asked by (auto simp: is_private_def bind_read_Inr on_io_eq)
  next
    case (Some vc)
    obtain version cached where vc: "vc = (version, cached)" by (cases vc)
    show ?thesis
      using assms Some vc asked
      by (auto simp: is_private_def bind_read_Inr on_io_eq Let_def merge_verdicts_False split: sum.splits if_splits)
  qed
qed

lemma prepare_Inr:
  assumes "prepare lib sql who headers params s = (Inr read, t)"
  obtains s1 where "halt_error s = None"
    "classify (l_front lib) (l_json_text lib) (l_finish lib) (rs_classifier s) sql params = Inr (pr_query read)"
    "is_private (l_engine lib) (q_tables (pr_query read)) s = (Inr (pr_private read), s1)"
    "pr_who read = who" "pr_headers read = headers" "pr_private read \<longrightarrow> who \<noteq> None \<or> headers \<noteq> None"
  using assms
  by (auto simp: prepare_def bind_read_Inr split: option.splits sum.splits if_splits)

subsection \<open>Properties\<close>


definition sample_lib :: "sql_front \<Rightarrow> cell list \<Rightarrow> (unit, (string \<times> cached_result) list) read_lib" where
  "sample_lib front cells =
     \<lparr>l_engine = one_row_engine cells, l_front = front, l_json_text = sample_json_text, l_from_str = sample_from_str,
      l_finish = (\<lambda>s. of_nat (length s)), l_pg_display = (\<lambda>_. []), l_moka = alist_moka\<rparr>"

definition sample_state :: "string list \<Rightarrow> (unit, (string \<times> cached_result) list, string) read_state" where
  "sample_state ts =
     read_operations_primary \<lparr>world = (), trace = []\<rparr> ts [] (version_index_new [] []) (hub_start Map.empty) 0 None"

lemma sample_users_cacheable:
  "cacheable (sample_front (sample_query [] None) [] [[''users'']]) (read_classifier_new [''users'']) (sample_query [] None)"
proof -
  have "relation_name [''users''] = bare_lower ''users''" by code_simp
  then show ?thesis by (simp add: cacheable_def sample_front_def sample_query_def read_classifier_new_def)
qed

lemma sample_users_classified:
  "classify (sample_front (sample_query [] None) [] [[''users'']]) json_text finish (read_classifier_new [''users'']) sql [] =
     Inr (classified (sample_front (sample_query [] None) [] [[''users'']]) json_text finish sql [] (sample_query [] None))"
  by (rule classify_query(1) [OF _ sample_users_cacheable]) (simp add: sample_front_def)

lemma sample_users_tables:
  "q_tables (classified (sample_front (sample_query [] None) [] [[''users'']]) json_text finish sql [] (sample_query [] None)) = [''users'']"
proof -
  have "relation_name [''users''] = ''users''" by code_simp
  then show ?thesis by (simp add: classified_def sample_front_def sample_query_def cte_names_def)
qed


definition computed_for :: "(u64 \<Rightarrow> u64 \<Rightarrow> string \<Rightarrow> bool) \<Rightarrow> string \<Rightarrow> string \<Rightarrow> bool" where
  "computed_for computed key t \<longleftrightarrow>
     (\<exists>f v. key = cursor_key (show_hex f) (show_nat (unat v)) \<and> computed f v t)"

lemma computed_for_key: "computed_for computed (cursor_key (show_hex f) (show_nat (unat v))) t \<longleftrightarrow> computed f v t"
  by (auto simp: computed_for_def cursor_key_inject)

text \<open>
  A cursor never mixes queries or versions.  If every stored body was computed for the
  fingerprint and version its key spells, then materializing a read keeps that so, returns a body
  computed for the read's own fingerprint and version, and a later cursor lookup for a fingerprint
  and a version returns, if anything, a body computed for exactly these two, with the matching etag.
\<close>

theorem cursor_returns_its_own_version:
  assumes "moka_ok (l_moka lib) held" and "cache_inv held (computed_for computed) (rs_cache s)"
    and "\<forall>t io. query_json_scoped (l_engine lib) None None (q_sql (pr_query read)) (q_params (pr_query read)) (rs_io s) = (Inr t, io) \<longrightarrow>
           computed (fingerprint (pr_query read)) (query_version read s) t"
    and "materialize lib read s = (r, s')"
  shows "(\<forall>hash v snap. r = Inr (hash, v, snap) \<longrightarrow>
            hash = show_hex (fingerprint (pr_query read)) \<and> v = query_version read s \<and>
            computed (fingerprint (pr_query read)) v (c_body snap) \<and> etag snap = cursor_key hash (show_nat (unat v))) \<and>
         cache_inv held (computed_for computed) (rs_cache s') \<and>
         (\<forall>f v snap. fst (cursor lib (show_hex f) (show_nat (unat v)) s') = Some snap \<longrightarrow>
            computed f v (c_body snap) \<and> etag snap = cursor_key (show_hex f) (show_nat (unat v)))"
proof -
  let ?key = "cursor_key (show_hex (fingerprint (pr_query read))) (show_nat (unat (query_version read s)))"
  let ?q = "query_json_scoped (l_engine lib) None None (q_sql (pr_query read)) (q_params (pr_query read))"
  obtain q m io where g: "get_or_compute (l_moka lib) ?key ?q (rs_cache s, rs_io s) = (q, m, io)"
    by (cases "get_or_compute (l_moka lib) ?key ?q (rs_cache s, rs_io s)")
  have inv: "cache_inv held (computed_for computed) m \<and>
      (\<forall>v. q = Inr v \<longrightarrow> etag v = ?key \<and> computed_for computed ?key (c_body v))"
    by (rule get_or_compute_inv [OF assms(1,2) _ g]) (use assms(3) in \<open>simp add: computed_for_key\<close>)
  have s': "s' = s\<lparr>rs_cache := m, rs_io := io\<rparr>" and r: "r = bind_res q (\<lambda>snap. Inr (show_hex (fingerprint (pr_query read)), query_version read s, snap))"
    using assms(4) g by (simp_all add: materialize_def Let_def)
  have "computed f v (c_body snap) \<and> etag snap = cursor_key (show_hex f) (show_nat (unat v))"
    if "fst (cursor lib (show_hex f) (show_nat (unat v)) s') = Some snap" for f v snap
    using that inv cache_inv_get [OF assms(1), of "computed_for computed" m "cursor_key (show_hex f) (show_nat (unat v))"]
    by (auto simp: cursor_def query_cache_get_def s' computed_for_key split: prod.splits)
  then show ?thesis using inv r s' by (auto simp: bind_res_Inr_iff computed_for_key)
qed

theorem cursor_returns_its_own_version_witness:
  "let f = sample_front (sample_query [] None) [] [[''users'']];
       lib = sample_lib f [CText ''[]''];
       read = \<lparr>pr_query = classified f sample_json_text (\<lambda>_. 31) ''select * from users'' [] (sample_query [] None),
               pr_who = None, pr_headers = None, pr_private = False\<rparr>;
       s = sample_state [''users'']
   in \<exists>snap. fst (cursor lib (show_hex 31) (show_nat (unat (query_version read s))) (snd (materialize lib read s))) = Some snap \<and>
        c_body snap = ''[]''"
proof -
  let ?f = "sample_front (sample_query [] None) [] [[''users'']]"
  let ?lib = "sample_lib ?f [CText ''[]'']"
  let ?read = "\<lparr>pr_query = classified ?f sample_json_text (\<lambda>_. 31) ''select * from users'' [] (sample_query [] None),
               pr_who = None, pr_headers = None, pr_private = False\<rparr>"
  let ?s = "sample_state [''users'']"
  let ?computed = "\<lambda>g v t. g = 31 \<and> t = ''[]''"
  have m: "moka_ok (l_moka ?lib) (\<lambda>m. {(k, v). map_of m k = Some v})" by (simp add: sample_lib_def alist_moka_ok)
  have i: "cache_inv (\<lambda>m. {(k, v). map_of m k = Some v}) (computed_for ?computed) (rs_cache ?s)"
    by (simp add: cache_inv_def sample_state_def read_operations_primary_def)
  have c: "\<forall>t io. query_json_scoped (l_engine ?lib) None None (q_sql (pr_query ?read)) (q_params (pr_query ?read)) (rs_io ?s) = (Inr t, io) \<longrightarrow>
      ?computed (fingerprint (pr_query ?read)) (query_version ?read ?s) t"
    by (simp add: sample_lib_def query_json_scoped_def bind_prog_def issue_def one_row_engine_def first_text_def get_opt_text_def
        cell_at_def or_empty_def classified_def)
  have r: "materialize ?lib ?read ?s = (fst (materialize ?lib ?read ?s), snd (materialize ?lib ?read ?s))" by simp
  have f: "fingerprint (classified ?f sample_json_text (\<lambda>_. 31) ''select * from users'' [] (sample_query [] None)) = 31"
    by (simp add: classified_def)
  have "\<exists>snap. fst (cursor ?lib (show_hex 31) (show_nat (unat (query_version ?read ?s))) (snd (materialize ?lib ?read ?s))) = Some snap"
    by (simp add: materialize_def f Let_def cursor_def query_cache_get_def get_or_compute_def sample_lib_def alist_moka_def
        sample_state_def read_operations_primary_def query_json_scoped_def bind_prog_def issue_def one_row_engine_def
        first_text_def get_opt_text_def cell_at_def)
  then show ?thesis using cursor_returns_its_own_version [OF m i c r] unfolding Let_def by blast
qed

end
