(* ===== verification/Http.thy ===== *)
theory Http
  imports Read
begin

text \<open>
  \<open>src/binding/http/\<close> and the request extractor of \<open>src/capability/auth.rs\<close>: the handlers of the HTTP
  server.  A handler returns its response, or \<open>None\<close> when it panics, so that \<open>unreachable!\<close> and
  \<open>unwrap\<close> are branches of the model.  A response is its status, its headers in the order they are
  set and its content.  Reading a header value as text is code of the \<open>http\<close> package, the parameter
  \<open>to_str\<close>; matching a request against the route table is code of \<open>actix\<close>.

  The lemmas show that no handler panics, who is served what, and how errors become responses.
\<close>

datatype content = NoContent | Content string | EventStream live_subscription

record http_response =
  resp_status :: nat
  resp_headers :: "(string \<times> string) list"
  resp_content :: content

type_synonym outcome = "http_response option"

subsection \<open>Errors\<close>

fun error_status :: "cache_error \<Rightarrow> nat" where
  "error_status (Rejected _) = 400"
| "error_status (Parse _) = 400"
| "error_status (Halted _) = 503"
| "error_status (Unauthorized _) = 401"
| "error_status (Forbidden _) = 403"
| "error_status _ = 500"

definition error_response :: "('w, 'm) read_lib \<Rightarrow> cache_error \<Rightarrow> http_response" where
  "error_response lib error =
     \<lparr>resp_status = error_status error, resp_headers = [(''Content-Type'', ''application/json'')],
      resp_content = Content (envelope (l_json_text lib) (l_pg_display lib) error)\<rparr>"

definition tables_csv :: "string list \<Rightarrow> string" where
  "tables_csv ts = (if ts = [] then ''-'' else join_with '','' ts)"

subsection \<open>The identity of a request\<close>

text \<open>
  \<open>header\<close> is the \<open>Authorization\<close> header and \<open>operations\<close> the verifier of the registered read
  operations, if there are any.
\<close>

definition authenticate_request ::
  "'k jwt_lib \<Rightarrow> json_printer \<Rightarrow> (string \<Rightarrow> string option) \<Rightarrow> 'k verifier option option \<Rightarrow> string option \<Rightarrow>
   principal option result option" where
  "authenticate_request jwt json_text to_str operations header =
     (case header of
        None \<Rightarrow> Some (Inr None)
      | Some h \<Rightarrow>
          (case Option.bind (to_str h) (strip_prefix ''Bearer '') of
             None \<Rightarrow> Some (Inl (Unauthorized ''malformed Authorization header''))
           | Some token \<Rightarrow>
               (case operations of
                  None \<Rightarrow> Some (Inl (Config ''read operations are not configured''))
                | Some verifier \<Rightarrow>
                    (case read_authenticate jwt json_text verifier (Some token) of
                       Inr (Some p) \<Rightarrow> Some (Inr (Some p))
                     | Inl error \<Rightarrow> Some (Inl error)
                     | Inr None \<Rightarrow> None))))"

subsection \<open>Queries\<close>

text \<open>\<open>private_response\<close> logs the caller's role with \<open>unwrap\<close>.\<close>

definition private_response ::
  "('w, 'm) read_lib \<Rightarrow> prepared_read \<Rightarrow> ('w, 'm, 'k) read_state \<Rightarrow> outcome \<times> ('w, 'm, 'k) read_state" where
  "private_response lib read s =
     (case execute_private lib read s of
        (Inr t, s') \<Rightarrow>
          (case pr_who read of
             None \<Rightarrow> (None, s')
           | Some _ \<Rightarrow>
               (Some \<lparr>resp_status = 200,
                      resp_headers = [(''Cache-Control'', ''private, no-store''), (''Content-Type'', ''application/json'')],
                      resp_content = Content t\<rparr>, s'))
      | (Inl error, s') \<Rightarrow> (Some (error_response lib (map_db_denial (l_pg_display lib) error)), s'))"

definition live_query ::
  "('w, 'm) read_lib \<Rightarrow> cacheable_query \<Rightarrow> principal option \<Rightarrow> ('w, 'm, 'k) read_state \<Rightarrow> outcome \<times> ('w, 'm, 'k) read_state" where
  "live_query lib query who s =
     (case read_subscribe lib \<lparr>pr_query = query, pr_who = who, pr_headers = None, pr_private = False\<rparr> s of
        (Inl error, s') \<Rightarrow> (Some (error_response lib error), s')
      | (Inr subscription, s') \<Rightarrow>
          (Some \<lparr>resp_status = 200,
                 resp_headers = [(''Cache-Control'', ''no-store''), (''Content-Type'', ''text/event-stream'')],
                 resp_content = EventStream subscription\<rparr>, s'))"

definition redirect_response :: "string \<Rightarrow> u64 \<Rightarrow> http_response" where
  "redirect_response hash version =
     \<lparr>resp_status = 303,
      resp_headers = [(''Location'', ''/q/'' @ hash @ ''/'' @ show_nat (unat version)), (''Cache-Control'', ''no-store'')],
      resp_content = NoContent\<rparr>"

definition http_query ::
  "('w, 'm) read_lib \<Rightarrow> bool option \<Rightarrow> string \<Rightarrow> principal option result option \<Rightarrow> ('w, 'm, 'k) read_state \<Rightarrow>
   outcome \<times> ('w, 'm, 'k) read_state" where
  "http_query lib params_live sql auth s =
     (case auth of
        None \<Rightarrow> (None, s)
      | Some (Inl error) \<Rightarrow> (Some (error_response lib error), s)
      | Some (Inr who) \<Rightarrow>
          (case prepare lib sql who None [] s of
             (Inl error, s1) \<Rightarrow> (Some (error_response lib error), s1)
           | (Inr read, s1) \<Rightarrow>
               let live = (case params_live of Some b \<Rightarrow> b | None \<Rightarrow> False)
               in if pr_private read then
                    if live then live_query lib (pr_query read) (pr_who read) s1
                    else private_response lib read s1
                  else if live then live_query lib (pr_query read) None s1
                  else
                    (case materialize lib read s1 of
                       (Inr (hash, version, snapshot), s2) \<Rightarrow> (Some (redirect_response hash version), s2)
                     | (Inl error, s2) \<Rightarrow> (Some (error_response lib error), s2))))"

definition http_cursor ::
  "('w, 'm) read_lib \<Rightarrow> string \<Rightarrow> string \<Rightarrow> ('w, 'm, 'k) read_state \<Rightarrow> outcome \<times> ('w, 'm, 'k) read_state" where
  "http_cursor lib hash version s =
     (case cursor lib hash version s of
        (Some result, s') \<Rightarrow>
          (Some \<lparr>resp_status = 200,
                 resp_headers = [(''ETag'', etag result), (''Cache-Control'', ''public, max-age=259200''),
                                 (''Content-Type'', ''application/json'')],
                 resp_content = Content (c_body result)\<rparr>, s')
      | (None, s') \<Rightarrow>
          (Some \<lparr>resp_status = 404, resp_headers = [(''Content-Type'', ''application/json'')],
                 resp_content = Content (CHR ''{'' # [CHR 0x22] @ ''name'' @ [CHR 0x22] @ '':'' @ [CHR 0x22] @ ''NotFound'' @ [CHR 0x22] @
                   '','' @ [CHR 0x22] @ ''message'' @ [CHR 0x22] @ '':'' @ [CHR 0x22] @ ''unknown cursor'' @ [CHR 0x22] @ ''}'')\<rparr>, s'))"

subsection \<open>Health\<close>

definition json_response :: "json_printer \<Rightarrow> nat \<Rightarrow> json \<Rightarrow> http_response" where
  "json_response json_text code v =
     \<lparr>resp_status = code, resp_headers = [(''Content-Type'', ''application/json'')], resp_content = Content (json_text v)\<rparr>"

definition healthz :: "('w, 'm) read_lib \<Rightarrow> ('w, 'm, 'k) read_state \<Rightarrow> http_response" where
  "healthz lib s =
     (let h = health s
      in if halted h then
           json_response (l_json_text lib) 503
             (mk_object [(''status'', String ''halted''), (''reason'', case reason h of Some r \<Rightarrow> String r | None \<Rightarrow> Null)])
         else case watermark h of
           Some w \<Rightarrow> json_response (l_json_text lib) 200 (mk_object [(''status'', String ''ok''), (''watermark'', Number (PosInt w))])
         | None \<Rightarrow> json_response (l_json_text lib) 200 (mk_object [(''status'', String ''ok'')]))"

subsection \<open>The server\<close>

datatype handler = Healthz | QueryHandler | CursorHandler

definition routes :: "(string \<times> string \<times> handler) list" where
  "routes = [(''/healthz'', ''GET'', Healthz), (''/query'', ''POST'', QueryHandler), (''/q/{hash}/{version}'', ''GET'', CursorHandler)]"

text \<open>The settings made on the default policy of \<open>actix-cors\<close>.\<close>

record cors_policy =
  any_origin :: bool
  any_method :: bool
  any_header :: bool
  allowed_origins :: "string list"

definition cors :: "string option \<Rightarrow> cors_policy" where
  "cors origin =
     (case origin of
        None \<Rightarrow> \<lparr>any_origin = False, any_method = False, any_header = False, allowed_origins = []\<rparr>
      | Some listed \<Rightarrow>
          if listed = ''*'' then \<lparr>any_origin = True, any_method = True, any_header = True, allowed_origins = []\<rparr>
          else \<lparr>any_origin = False, any_method = True, any_header = True,
                allowed_origins = map trim (split_on (\<lambda>c. c = CHR '','') listed)\<rparr>)"

subsection \<open>Lemmas\<close>

lemma strip_prefix_Some: "strip_prefix p s = Some t \<longleftrightarrow> s = p @ t"
  by (auto simp: strip_prefix_def prefix_def)

text \<open>The extractor never reaches \<open>unreachable!\<close>, and gives an identity only to a verified token.\<close>

lemma authenticate_request_ok:
  "authenticate_request jwt json_text to_str ops header \<noteq> None"
  using rgate.token_never_anonymous [of jwt json_text]
  by (auto simp: authenticate_request_def split: option.splits sum.splits)

definition valid_token ::
  "'k jwt_lib \<Rightarrow> json_printer \<Rightarrow> (string \<Rightarrow> string option) \<Rightarrow> 'k verifier option \<Rightarrow> string \<Rightarrow> principal \<Rightarrow> bool" where
  "valid_token jwt json_text to_str verifier h p \<longleftrightarrow>
     (\<exists>token v. to_str h = Some (''Bearer '' @ token) \<and> verifier = Some v \<and> verify jwt json_text v token = Inr p)"

lemma authenticate_request_cases:
  assumes "authenticate_request jwt json_text to_str (Some verifier) header = Some r"
  obtains (anonymous) "header = None" "r = Inr None"
        | (known) h p where "header = Some h" "valid_token jwt json_text to_str verifier h p" "r = Inr (Some p)"
        | (refused) h m where "header = Some h" "\<nexists>p. valid_token jwt json_text to_str verifier h p" "r = Inl (Unauthorized m)"
proof (cases header)
  case None
  then show ?thesis using assms anonymous by (simp add: authenticate_request_def)
next
  case (Some h)
  show ?thesis
  proof (cases "Option.bind (to_str h) (strip_prefix ''Bearer '')")
    case None
    have "Option.bind (to_str h) (strip_prefix b) \<noteq> None" if "to_str h = Some (b @ token)" for b token
      using that strip_prefix_Some [of b "b @ token" token] by simp
    then have "\<nexists>p. valid_token jwt json_text to_str verifier h p"
      unfolding valid_token_def using None by blast
    then show ?thesis using assms Some None refused by (auto simp: authenticate_request_def)
  next
    case (Some token)
    then have token: "to_str h = Some (''Bearer '' @ token)" by (auto simp: bind_eq_Some_conv strip_prefix_Some)
    show ?thesis
    proof (cases "read_authenticate jwt json_text verifier (Some token)")
      case (Inl e)
      then have "\<exists>m. e = Unauthorized m"
        by (auto simp: read_authenticate_def bind_res_Inl_iff dest: verify_Inl split: option.splits)
      moreover have "\<nexists>p. valid_token jwt json_text to_str verifier h p"
        using Inl token by (auto simp: valid_token_def read_authenticate_def split: option.splits)
      ultimately show ?thesis using assms \<open>header = Some h\<close> Some Inl refused by (auto simp: authenticate_request_def)
    next
      case (Inr who)
      with rgate.token_never_anonymous [of jwt json_text verifier token] obtain p where "who = Some p" by (cases who) auto
      with Inr rgate.principal_verified [of jwt json_text verifier "Some token" p] token
      have "valid_token jwt json_text to_str verifier h p" by (auto simp: valid_token_def)
      then show ?thesis using assms \<open>header = Some h\<close> Some Inr \<open>who = Some p\<close> known by (simp add: authenticate_request_def)
    qed
  qed
qed

lemma error_status_codes: "error_status e \<in> {400, 401, 403, 500, 503}"
  by (cases e) simp_all

lemma error_response_not_served: "resp_status (error_response lib e) \<notin> {200, 303}"
  by (cases e) (simp_all add: error_response_def)

text \<open>The responses other than errors.\<close>

definition event_stream :: "live_subscription \<Rightarrow> http_response" where
  "event_stream subscription =
     \<lparr>resp_status = 200, resp_headers = [(''Cache-Control'', ''no-store''), (''Content-Type'', ''text/event-stream'')],
      resp_content = EventStream subscription\<rparr>"

definition inline_private :: "string \<Rightarrow> http_response" where
  "inline_private t =
     \<lparr>resp_status = 200, resp_headers = [(''Cache-Control'', ''private, no-store''), (''Content-Type'', ''application/json'')],
      resp_content = Content t\<rparr>"

lemma response_distinct [simp]:
  "inline_private b \<noteq> event_stream sub" "event_stream sub \<noteq> inline_private b"
  "inline_private b \<noteq> redirect_response h v" "redirect_response h v \<noteq> inline_private b"
  "inline_private b = inline_private c \<longleftrightarrow> b = c"
  by (simp_all add: inline_private_def event_stream_def redirect_response_def)

lemma live_query_cases:
  assumes "live_query lib q who s = (out, t)"
  obtains (failed) e where "out = Some (error_response lib e)"
        | (stream) sub where "out = Some (event_stream sub)"
            "read_subscribe lib \<lparr>pr_query = q, pr_who = who, pr_headers = None, pr_private = False\<rparr> s = (Inr sub, t)"
  using assms by (auto simp: live_query_def event_stream_def split: prod.splits sum.splits)

lemma private_response_cases:
  assumes "private_response lib read s = (out, t)" and "pr_who read \<noteq> None"
  obtains (failed) e where "out = Some (error_response lib e)"
        | (inline) b where "out = Some (inline_private b)" "execute_private lib read s = (Inr b, t)"
  using assms by (auto simp: private_response_def inline_private_def split: prod.splits sum.splits)

text \<open>What the handler does for a caller whose identity was accepted.\<close>

lemma http_query_cases:
  assumes "http_query lib live sql (Some (Inr who)) s = (out, t)"
  obtains (failed) e where "out = Some (error_response lib e)"
        | (redirected) read s1 hash version snap where "out = Some (redirect_response hash version)"
            "prepare lib sql who None [] s = (Inr read, s1)" "\<not> pr_private read" "live \<noteq> Some True"
            "materialize lib read s1 = (Inr (hash, version, snap), t)"
        | (stream) read s1 sub where "out = Some (event_stream sub)"
            "prepare lib sql who None [] s = (Inr read, s1)" "live = Some True"
            "read_subscribe lib \<lparr>pr_query = pr_query read, pr_who = (if pr_private read then who else None),
                                  pr_headers = None, pr_private = False\<rparr> s1 = (Inr sub, t)"
        | (inline) read s1 b where "out = Some (inline_private b)"
            "prepare lib sql who None [] s = (Inr read, s1)" "pr_private read" "who \<noteq> None" "live \<noteq> Some True"
            "execute_private lib read s1 = (Inr b, t)"
proof -
  obtain r s1 where p: "prepare lib sql who None [] s = (r, s1)" by (cases "prepare lib sql who None [] s")
  show ?thesis
  proof (cases r)
    case (Inl e)
    then show ?thesis using assms p failed by (auto simp: http_query_def)
  next
    case (Inr read)
    then have prep: "prepare lib sql who None [] s = (Inr read, s1)" using p by simp
    from prep have who: "pr_who read = who" "pr_private read \<longrightarrow> who \<noteq> None" by (auto elim: prepare_Inr)
    show ?thesis
    proof (cases "live = Some True")
      case True
      then have "live_query lib (pr_query read) (if pr_private read then who else None) s1 = (out, t)"
        using assms prep who(1) by (cases "pr_private read") (simp_all add: http_query_def)
      then show ?thesis by (cases rule: live_query_cases) (use True prep failed stream in blast)+
    next
      case live: False
      show ?thesis
      proof (cases "pr_private read")
        case True
        then have "private_response lib read s1 = (out, t)"
          using assms prep live by (auto simp: http_query_def split: option.splits)
        then show ?thesis
          by (cases rule: private_response_cases) (use True live who prep failed inline in blast)+
      next
        case False
        then show ?thesis
          using assms prep live failed redirected by (auto simp: http_query_def split: option.splits prod.splits sum.splits)
      qed
    qed
  qed
qed

subsection \<open>Properties\<close>

text \<open>
  C16: every request to the query endpoint is answered: the extractor never reaches its
  \<open>unreachable!\<close> branch and no \<open>unwrap\<close> fails.  The response is a redirect to the cursor of a public
  result, an event stream, an inline private answer that no cache may keep, or an error whose status
  is 400, 401, 403, 500 or 503 and whose content is the error's envelope.
\<close>

theorem query_answers_every_request:
  assumes "http_query lib live sql (authenticate_request jwt json_text to_str (Some (rs_verifier s)) header) s = (out, t)"
  shows "(\<exists>e. out = Some (error_response lib e) \<and> error_status e \<in> {400, 401, 403, 500, 503}) \<or>
         (\<exists>read s1 version snap. out = Some (redirect_response (show_hex (fingerprint (pr_query read))) version) \<and>
            \<not> pr_private read \<and> materialize lib read s1 = (Inr (show_hex (fingerprint (pr_query read)), version, snap), t)) \<or>
         (\<exists>sub. out = Some (event_stream sub) \<and> live = Some True) \<or>
         (\<exists>b. out = Some (inline_private b) \<and> header \<noteq> None)"
proof -
  obtain r where r: "authenticate_request jwt json_text to_str (Some (rs_verifier s)) header = Some r"
    using authenticate_request_ok by blast
  show ?thesis
  proof (cases r)
    case (Inl e)
    then show ?thesis using assms r error_status_codes by (auto simp: http_query_def)
  next
    case (Inr who)
    have hdr: "who \<noteq> None \<Longrightarrow> header \<noteq> None" using r Inr by (cases header) (auto simp: authenticate_request_def)
    from assms r Inr have "http_query lib live sql (Some (Inr who)) s = (out, t)" by simp
    then show ?thesis
    proof (cases rule: http_query_cases)
      case (failed e)
      then show ?thesis using error_status_codes by blast
    next
      case (redirected read s1 hash version snap)
      then have "hash = show_hex (fingerprint (pr_query read))"
        by (auto simp: materialize_def Let_def bind_res_Inr_iff split: prod.splits)
      then show ?thesis using redirected by blast
    qed (use hdr in blast)+
  qed
qed

theorem query_answers_every_request_witness:
  "\<exists>out t. http_query (sample_lib (sample_front (sample_query [] None) [] [[''users'']]) [CText ''users'', CInt 0]) None ''select * from users''
       (authenticate_request sample_jwt sample_json_text Some (Some None) (Some ''Basic x'')) (sample_state [''users'']) = (out, t) \<and> out \<noteq> None"
proof -
  let ?lib = "sample_lib (sample_front (sample_query [] None) [] [[''users'']]) [CText ''users'', CInt 0]"
  let ?run = "http_query ?lib None ''select * from users'' (authenticate_request sample_jwt sample_json_text Some
      (Some (rs_verifier (sample_state [''users'']))) (Some ''Basic x'')) (sample_state [''users''])"
  have v: "rs_verifier (sample_state [''users'']) = None" by (simp add: sample_state_def read_operations_primary_def)
  obtain out t where run: "?run = (out, t)" by (cases ?run)
  from query_answers_every_request [OF run] have "out \<noteq> None" by blast
  then show ?thesis using run unfolding v by blast
qed

text \<open>The catalogue, or a verdict cached under the current security version, reports the table as public.\<close>

definition known_public :: "('w, 'm) read_lib \<Rightarrow> ('w, 'm, 'k) read_state \<Rightarrow> string list \<Rightarrow> string \<Rightarrow> bool" where
  "known_public lib s ts table \<longleftrightarrow>
     (\<exists>version cached. rs_security_cache s = Some (version, cached) \<and> current_security s = Inr version \<and> cached table = Some False) \<or>
     (\<exists>rows w' p. l_engine lib (Query security_query [PTexts ts]) (world (rs_io s)) = (Inr rows, w') \<and>
        catalogue_flags rows table = [p] \<and> p \<noteq> 1)"

lemma anonymous_prepared:
  assumes "prepare lib sql None None [] s = (Inr read, s1)"
  shows "\<not> pr_private read" "\<forall>table \<in> set (q_tables (pr_query read)). known_public lib s (q_tables (pr_query read)) table"
proof -
  from assms obtain s2 where p: "is_private (l_engine lib) (q_tables (pr_query read)) s = (Inr (pr_private read), s2)"
      "\<not> pr_private read" by (auto elim: prepare_Inr)
  then show "\<not> pr_private read" by blast
  from p have "is_private (l_engine lib) (q_tables (pr_query read)) s = (Inr False, s2)" by simp
  from is_private_False [OF this] show "\<forall>table \<in> set (q_tables (pr_query read)). known_public lib s (q_tables (pr_query read)) table"
    unfolding known_public_def by blast
qed



text \<open>
  C30: a halted replica refuses consistently.  The health endpoint answers 503 exactly when the
  replica reports that it is halted; then every query request with an accepted identity is answered
  503 with the halt reason, without touching the state.  While it is not halted, health is 200.
\<close>

theorem halted_replica_refuses_queries:
  "(resp_status (healthz lib s) = 503 \<longleftrightarrow> (\<exists>rep. rs_replica s = Some rep \<and> rp_halted rep)) \<and>
   resp_status (healthz lib s) \<in> {200, 503} \<and>
   (resp_status (healthz lib s) = 503 \<longrightarrow>
      (\<exists>why. http_query lib live sql (Some (Inr who)) s = (Some (error_response lib (Halted why)), s) \<and>
             resp_status (error_response lib (Halted why)) = 503 \<and>
             (\<forall>m. reason (health s) = Some m \<longrightarrow> why = m)))"
  by (auto simp: healthz_def health_def Let_def json_response_def http_query_def prepare_def halt_error_def error_response_def
      split: option.splits if_splits)

theorem halted_replica_refuses_queries_witness:
  "\<exists>why. http_query (sample_lib (sample_front (sample_query [] None) [] []) []) None ''select 1'' (Some (Inr None))
       ((sample_state [])\<lparr>rs_replica := Some \<lparr>rp_halted = True, rp_reason = Some ''disk full'', rp_watermark = 0, rp_security = Inr 0\<rparr>\<rparr>) =
     (Some (error_response (sample_lib (sample_front (sample_query [] None) [] []) []) (Halted why)),
      (sample_state [])\<lparr>rs_replica := Some \<lparr>rp_halted = True, rp_reason = Some ''disk full'', rp_watermark = 0, rp_security = Inr 0\<rparr>\<rparr>) \<and>
     why = ''disk full''"
proof -
  let ?lib = "sample_lib (sample_front (sample_query [] None) [] []) []"
  let ?s = "(sample_state [])\<lparr>rs_replica := Some \<lparr>rp_halted = True, rp_reason = Some ''disk full'', rp_watermark = 0, rp_security = Inr 0\<rparr>\<rparr>"
  have h: "resp_status (healthz ?lib ?s) = 503" by (simp add: healthz_def health_def json_response_def)
  have "reason (health ?s) = Some ''disk full''" by (simp add: health_def)
  then show ?thesis
    using halted_replica_refuses_queries [of ?lib ?s None "''select 1''" None] h by blast
qed

end
