(* ===== verification/Unb.thy ===== *)
theory Unb
  imports Http
begin

text \<open>
  \<open>src/binding/unb.rs\<close> and \<open>src/protocol/\<close>: the message binding.  Two services, SQL statements and
  live queries, are registered under their subjects; the frames of the live hub are decoded into
  typed events.  Header names are given in the order of the header map, its values with the
  parameter \<open>to_str\<close>; \<open>json_error\<close> is the text of a parse error.

  The lemmas show that every frame the live hub can emit decodes to the event it stands for.
\<close>

subsection \<open>Payloads\<close>

definition SQL_SUBJECT :: string where "SQL_SUBJECT = ''pgpaw.sql''"
definition LIVE_SUBJECT :: string where "LIVE_SUBJECT = ''pgpaw.live''"

record sql_request =
  rq_sql :: string
  rq_params :: "json list"
  rq_bearer :: "string option"

type_synonym live_request = sql_request

record sql_reply =
  rp_command :: string
  rp_rows :: json
  rp_rows_affected :: u64

datatype live_event =
    EvSnapshot "json option" "string option" u64
  | EvInsert string json u32
  | EvUpdate string json u32
  | EvDelete string json u32
  | EvUpToDate u32
  | EvReset

subsection \<open>Errors\<close>

datatype error_code = CodeInvalidInput | CodeUnauthorized | CodeBusy | CodeInternal

record handler_failure =
  hf_code :: error_code
  hf_message :: string

type_synonym 'a handled = "handler_failure + 'a"

fun handler_code :: "cache_error \<Rightarrow> error_code" where
  "handler_code (Rejected _) = CodeInvalidInput"
| "handler_code (Parse _) = CodeInvalidInput"
| "handler_code (Unauthorized _) = CodeUnauthorized"
| "handler_code (Forbidden _) = CodeUnauthorized"
| "handler_code (Halted _) = CodeBusy"
| "handler_code _ = CodeInternal"

definition handler_error :: "(pg_error \<Rightarrow> string) \<Rightarrow> cache_error \<Rightarrow> handler_failure" where
  "handler_error pg_display error = \<lparr>hf_code = handler_code error, hf_message = error_display pg_display error\<rparr>"

subsection \<open>Decoding\<close>

definition parse_rows :: "json_parser \<Rightarrow> (string \<Rightarrow> string) \<Rightarrow> string \<Rightarrow> json result" where
  "parse_rows from_str json_error t = (case from_str t of Some v \<Rightarrow> Inr v | None \<Rightarrow> Inl (Cache (json_error t)))"

definition missing_field :: "string \<Rightarrow> handler_failure" where
  "missing_field field = \<lparr>hf_code = CodeInternal, hf_message = ''live event missing '' @ field\<rparr>"

definition string_field :: "json \<Rightarrow> string \<Rightarrow> string handled" where
  "string_field v field =
     (case Option.bind (json_get field v) as_str of Some s \<Rightarrow> Inr s | None \<Rightarrow> Inl (missing_field field))"

definition try_into_u32 :: "u64 \<Rightarrow> u32 option" where
  "try_into_u32 n = (if unat n < 2 ^ 32 then Some (ucast n) else None)"

definition number_field :: "json \<Rightarrow> string \<Rightarrow> u32 handled" where
  "number_field v field =
     (case Option.bind (Option.bind (json_get field v) as_u64) try_into_u32 of
        Some n \<Rightarrow> Inr n | None \<Rightarrow> Inl (missing_field field))"

text \<open>\<open>value["row"]\<close>: a missing member reads as \<open>null\<close>.\<close>

definition index_or_null :: "string \<Rightarrow> json \<Rightarrow> json" where
  "index_or_null k v = (case json_get k v of Some x \<Rightarrow> x | None \<Rightarrow> Null)"

text \<open>\<open>url.split('/').nth(2)\<close>.\<close>

definition url_hash :: "string \<Rightarrow> string option" where
  "url_hash url =
     (let parts = split_on (\<lambda>c. c = CHR ''/'') url in if 2 < length parts then Some (parts ! 2) else None)"

definition row_event :: "(string \<Rightarrow> json \<Rightarrow> u32 \<Rightarrow> live_event) \<Rightarrow> json \<Rightarrow> live_event handled" where
  "row_event mk v =
     bind_res (string_field v ''key'') (\<lambda>key.
     bind_res (number_field v ''txid'') (\<lambda>txid. Inr (mk key (index_or_null ''row'' v) txid)))"

definition decode_value :: "json \<Rightarrow> live_event handled" where
  "decode_value v =
     (if Option.bind (json_get ''type'' v) as_str = Some ''snapshot'' then
        Inr (EvSnapshot (json_get ''rows'' v)
               (Option.bind (Option.bind (json_get ''url'' v) as_str) url_hash)
               (case Option.bind (json_get ''version'' v) as_u64 of Some n \<Rightarrow> n | None \<Rightarrow> 0))
      else case Option.bind (json_get ''op'' v) as_str of
        Some op \<Rightarrow>
          if op = ''insert'' then row_event EvInsert v
          else if op = ''update'' then row_event EvUpdate v
          else if op = ''delete'' then row_event EvDelete v
          else if op = ''up-to-date'' then bind_res (number_field v ''txid'') (\<lambda>txid. Inr (EvUpToDate txid))
          else if op = ''reset'' then Inr EvReset
          else Inl \<lparr>hf_code = CodeInternal, hf_message = ''invalid live event''\<rparr>
      | None \<Rightarrow> Inl \<lparr>hf_code = CodeInternal, hf_message = ''invalid live event''\<rparr>)"

definition decode_event :: "json_parser \<Rightarrow> (string \<Rightarrow> string) \<Rightarrow> string \<Rightarrow> live_event handled" where
  "decode_event from_str json_error event =
     (let t = (case strip_prefix ''data: '' (trim event) of Some rest \<Rightarrow> rest | None \<Rightarrow> trim event)
      in case from_str t of
           None \<Rightarrow> Inl \<lparr>hf_code = CodeInternal, hf_message = json_error t\<rparr>
         | Some v \<Rightarrow> decode_value v)"

definition wire_headers :: "json_printer \<Rightarrow> (string \<Rightarrow> string option) \<Rightarrow> (string \<times> string) list \<Rightarrow> string option" where
  "wire_headers json_text to_str headers =
     (let kept = List.map_filter (\<lambda>(name, value). map_option (\<lambda>v. (name, String v)) (to_str value))
                   (filter (\<lambda>(name, value). \<not> prefix ''unb-'' name) headers)
      in if kept = [] then None else Some (json_text (mk_object kept)))"

subsection \<open>Services\<close>

text \<open>
  The SQL service.  \<open>deadline\<close> is \<open>Some left\<close> when the deadline expires first: the execution is
  abandoned, and \<open>left\<close> is the state its dropped future left behind.
\<close>

record ('w, 'k) sql_lib =
  s_engine :: "'w engine"
  s_front :: sql_front
  s_up :: "string \<Rightarrow> string"
  s_json_text :: json_printer
  s_from_str :: json_parser
  s_json_error :: "string \<Rightarrow> string"
  s_pg_display :: "pg_error \<Rightarrow> string"
  s_jwt :: "'k jwt_lib"
  s_to_str :: "string \<Rightarrow> string option"

definition deadline_exceeded :: handler_failure where
  "deadline_exceeded =
     \<lparr>hf_code = CodeBusy, hf_message = ''statement exceeded the '' @ show_nat SQL_DEADLINE_SECS @ ''s execution deadline''\<rparr>"

definition unb_sql ::
  "('w, 'k) sql_lib \<Rightarrow> 'k sql_operations \<Rightarrow> (string \<times> string) list \<Rightarrow> sql_request \<Rightarrow> 'w io option \<Rightarrow> 'w io \<Rightarrow>
   sql_reply handled \<times> 'w io" where
  "unb_sql lib ops raw_headers request deadline s =
     (let headers = wire_headers (s_json_text lib) (s_to_str lib) raw_headers
      in case sql_authenticate (s_jwt lib) (s_json_text lib) (so_verifier ops) (rq_bearer request) of
           Inl e \<Rightarrow> (Inl (handler_error (s_pg_display lib) e), s)
         | Inr who \<Rightarrow>
             (case deadline of
                Some left_state \<Rightarrow> (Inl deadline_exceeded, left_state)
              | None \<Rightarrow>
                  (case execute (s_engine lib) (s_front lib) (s_up lib) (s_from_str lib) (s_pg_display lib) ops
                          (rq_sql request) (rq_params request) who headers s of
                     (Inl e, s') \<Rightarrow> (Inl (handler_error (s_pg_display lib) e), s')
                   | (Inr outcome, s') \<Rightarrow>
                       (bind_res (map_err (handler_error (s_pg_display lib))
                                    (parse_rows (s_from_str lib) (s_json_error lib) (o_rows_json outcome)))
                          (\<lambda>rows. Inr \<lparr>rp_command = o_command outcome, rp_rows = rows, rp_rows_affected = o_rows_affected outcome\<rparr>),
                        s'))))"

text \<open>The live service: a subscription whose frames are decoded one by one as they arrive.\<close>

definition unb_live ::
  "('w, 'm) read_lib \<Rightarrow> 'k jwt_lib \<Rightarrow> (string \<Rightarrow> string option) \<Rightarrow> (string \<times> string) list \<Rightarrow> live_request \<Rightarrow>
   ('w, 'm, 'k) read_state \<Rightarrow> live_subscription handled \<times> ('w, 'm, 'k) read_state" where
  "unb_live lib jwt to_str raw_headers request s =
     (let headers = wire_headers (l_json_text lib) to_str raw_headers
      in case read_authenticate jwt (l_json_text lib) (rs_verifier s) (rq_bearer request) of
           Inl e \<Rightarrow> (Inl (handler_error (l_pg_display lib) e), s)
         | Inr who \<Rightarrow>
             (case bind_read (prepare lib (rq_sql request) who headers (rq_params request)) (read_subscribe lib) s of
                (r, s') \<Rightarrow> (map_err (handler_error (l_pg_display lib)) r, s')))"

definition live_frames :: "json_parser \<Rightarrow> (string \<Rightarrow> string) \<Rightarrow> string list \<Rightarrow> live_event handled list" where
  "live_frames from_str json_error frames = map (decode_event from_str json_error) frames"

definition register_unb :: "('w, 'm, 'k) read_state \<Rightarrow> 'k sql_operations \<times> string list" where
  "register_unb s = (read_sql_operations None s, [SQL_SUBJECT, LIVE_SUBJECT])"

subsection \<open>The documented form of printed objects\<close>

text \<open>
  The printer of \<open>serde_json\<close> writes an object between braces, without spaces; for the object of a
  reset frame this is the text the hub sends literally.
\<close>

definition reset_value :: json where
  "reset_value = mk_object [(''op'', String ''reset'')]"

definition reset_text :: string where
  "reset_text = ''{'' @ [CHR 0x22] @ ''op'' @ [CHR 0x22] @ '':'' @ [CHR 0x22] @ ''reset'' @ [CHR 0x22] @ ''}''"

definition json_compact :: "json_printer \<Rightarrow> bool" where
  "json_compact json_text \<longleftrightarrow>
     (\<forall>m. json_plain (Object m) \<longrightarrow> (\<exists>t. json_text (Object m) = CHR ''{'' # t @ [CHR ''}''])) \<and> json_text reset_value = reset_text"

subsection \<open>Lemmas\<close>

lemma trailing_ws_newline: "trailing_ws (s @ [CHR 0x0A]) = Some [CHR 0x0A]"
  by (simp add: trailing_ws_def ws_chars_def suffix_to_prefix)

lemma trailing_ws_brace: "trailing_ws (s @ [CHR ''}'']) = None"
  by (simp add: trailing_ws_def ws_chars_def suffix_to_prefix)

lemma trim_end_newline: "trim_end (s @ [CHR 0x0A]) = trim_end s"
  by (subst trim_end.simps) (simp add: trailing_ws_newline)

lemma trim_end_brace: "trim_end (s @ [CHR ''}'']) = s @ [CHR ''}'']"
  by (subst trim_end.simps) (simp add: trailing_ws_brace)

lemma trim_start_frame: "trim_start (sse_frame payload) = sse_frame payload"
  by (subst trim_start.simps) (simp add: leading_ws_def ws_chars_def sse_frame_def)

lemma trim_frame:
  assumes "\<exists>t. payload = CHR ''{'' # t @ [CHR ''}'']"
  shows "trim (sse_frame payload) = ''data: '' @ payload"
proof -
  from assms obtain t where t: "payload = CHR ''{'' # t @ [CHR ''}'']" by blast
  have "trim (sse_frame payload) = trim_end (((''data: '' @ payload) @ [CHR 0x0A]) @ [CHR 0x0A])"
    unfolding trim_def trim_start_frame by (simp add: sse_frame_def)
  also have "\<dots> = trim_end ((''data: '' @ CHR ''{'' # t) @ [CHR ''}''])"
    unfolding trim_end_newline t by simp
  finally show ?thesis unfolding trim_end_brace t by simp
qed

lemma decode_frame:
  assumes "json_roundtrip json_text from_str" and "json_compact json_text"
    and "json_plain (Object m)" and "json_depth (Object m) \<le> json_limit"
  shows "decode_event from_str json_error (sse_frame (json_text (Object m))) = decode_value (Object m)"
proof -
  have "\<exists>t. json_text (Object m) = CHR ''{'' # t @ [CHR ''}'']" using assms(2,3) unfolding json_compact_def by blast
  from trim_frame [OF this] have t: "strip_prefix ''data: '' (trim (sse_frame (json_text (Object m)))) = Some (json_text (Object m))"
    unfolding strip_prefix_Some .
  show ?thesis
    unfolding decode_event_def t Let_def option.case json_roundtrip_print [OF assms(1,3,4)] ..
qed

lemma decode_object_frame:
  assumes "json_roundtrip json_text from_str" and "json_compact json_text" and "\<forall>p \<in> set kvs. json_member (snd p)"
  shows "decode_event from_str json_error (sse_frame (json_text (mk_object kvs))) = decode_value (mk_object kvs)"
  using decode_frame [OF assms(1,2)] json_object_readable [OF assms(3)] unfolding mk_object_def by blast

lemma try_into_u32_ucast: "try_into_u32 (ucast (n :: u32)) = Some n"
proof -
  have bound: "unat n < 2 ^ 32" using unsigned_less [of n, where 'a = nat] by simp
  then have "unat n < 2 ^ 64" by simp
  then have "unat (ucast n :: u64) = unat n" by (simp add: unsigned_ucast_eq take_bit_nat_eq_self)
  moreover have "ucast (ucast n :: u64) = n" by transfer simp
  ultimately show ?thesis using bound by (simp add: try_into_u32_def)
qed

text \<open>The event a delta stands for.\<close>

fun delta_event :: "delta \<Rightarrow> u32 \<Rightarrow> live_event" where
  "delta_event (Delta_Insert key row) txid = EvInsert key row txid"
| "delta_event (Delta_Update key row) txid = EvUpdate key row txid"
| "delta_event (Delta_Delete key row) txid = EvDelete key row txid"

lemma decode_delta: "decode_value (delta_payload d txid) = Inr (delta_event d txid)"
  by (cases d) (simp_all add: decode_value_def row_event_def string_field_def number_field_def index_or_null_def try_into_u32_ucast)

lemma url_hash_cursor:
  assumes "CHR ''/'' \<notin> set hash"
  shows "url_hash (''/q/'' @ hash @ ''/'' @ version) = Some hash"
proof -
  have "split_on (\<lambda>c. c = CHR ''/'') (hash @ CHR ''/'' # version) = hash # split_on (\<lambda>c. c = CHR ''/'') version"
    using assms by (induction hash) auto
  then show ?thesis by (simp add: url_hash_def Let_def)
qed

lemma show_hex_no_slash: "CHR ''/'' \<notin> set (show_hex w)"
  using show_hex_chars [of "CHR ''/''" w] by auto

lemma decode_reset:
  assumes "json_roundtrip json_text from_str" and "json_compact json_text"
  shows "decode_event from_str json_error reset = Inr EvReset"
proof -
  have "reset = sse_frame (json_text reset_value)"
    using assms(2) by (simp add: json_compact_def reset_def reset_text_def sse_frame_def)
  then show ?thesis
    using decode_object_frame [OF assms, of "[(''op'', String ''reset'')]" json_error]
    by (simp add: reset_value_def decode_value_def)
qed

lemma decode_encode:
  assumes "json_roundtrip json_text from_str" and "json_compact json_text" and "json_member (delta_row d)"
  shows "decode_event from_str json_error (encode json_text d txid) = Inr (delta_event d txid)"
proof -
  from delta_payload_object [OF assms(3)] obtain kvs where
      kvs: "delta_payload d txid = mk_object kvs" "\<forall>p \<in> set kvs. json_member (snd p)" by blast
  then show ?thesis
    using decode_object_frame [OF assms(1,2) kvs(2)] decode_delta [of d txid] by (simp add: encode_def)
qed

lemma decode_up_to_date:
  assumes "json_roundtrip json_text from_str" and "json_compact json_text"
  shows "decode_event from_str json_error (up_to_date json_text txid) = Inr (EvUpToDate txid)"
  unfolding up_to_date_def using assms
  by (simp add: decode_object_frame decode_value_def number_field_def try_into_u32_ucast)

lemma url_hash_some: "\<exists>hash. url_hash (''/q/'' @ t) = Some hash"
  using split_on_not_Nil [of "\<lambda>c. c = CHR ''/''" t] by (simp add: url_hash_def Let_def)

text \<open>
  A public snapshot decodes to the fingerprint in its cursor; a scoped one to its rows, unless they
  are nested up to the limit of the parser, which then refuses the frame that wraps them.
\<close>

definition snapshot_rows :: "json_parser \<Rightarrow> string \<Rightarrow> json" where
  "snapshot_rows from_str snapshot_body = (case from_str snapshot_body of Some rows \<Rightarrow> rows | None \<Rightarrow> Array [])"

lemma decode_public_snapshot:
  assumes "json_roundtrip json_text from_str" and "json_compact json_text"
  shows "decode_event from_str json_error (snapshot_frame json_text from_str False hash version snapshot_body) =
           Inr (EvSnapshot None (url_hash (''/q/'' @ hash @ ''/'' @ show_nat (unat version))) version)"
  unfolding snapshot_frame_def if_False by (subst decode_object_frame [OF assms]) (simp_all add: decode_value_def)

lemma decode_scoped_snapshot:
  assumes "json_roundtrip json_text from_str" and "json_compact json_text"
  shows "decode_event from_str json_error (snapshot_frame json_text from_str True hash version snapshot_body) =
    (if json_depth (snapshot_rows from_str snapshot_body) < json_limit
     then Inr (EvSnapshot (Some (snapshot_rows from_str snapshot_body)) None version)
     else Inl \<lparr>hf_code = CodeInternal, hf_message = json_error (json_text (mk_object
       [(''type'', String ''snapshot''), (''rows'', snapshot_rows from_str snapshot_body), (''version'', Number (PosInt version))]))\<rparr>)"
proof -
  let ?rows = "snapshot_rows from_str snapshot_body"
  let ?o = "mk_object [(''type'', String ''snapshot''), (''rows'', ?rows), (''version'', Number (PosInt version))]"
  have plain: "json_plain ?rows" using json_roundtrip_read [OF assms(1)] by (auto simp: snapshot_rows_def split: option.splits)
  have frame: "snapshot_frame json_text from_str True hash version snapshot_body = sse_frame (json_text ?o)"
    by (simp add: snapshot_frame_def snapshot_rows_def)
  show ?thesis
  proof (cases "json_depth ?rows < json_limit")
    case True
    then have "\<forall>p \<in> set [(''type'', String ''snapshot''), (''rows'', ?rows), (''version'', Number (PosInt version))]. json_member (snd p)"
      using plain by (simp add: json_member_def)
    from decode_object_frame [OF assms this, of json_error] show ?thesis
      using True by (simp add: frame decode_value_def)
  next
    case False
    obtain m where m: "?o = Object m" by (simp add: mk_object_def)
    have "json_get ''rows'' ?o = Some ?rows" by simp
    then have "(''rows'', ?rows) \<in> set m" unfolding m by (auto dest: map_of_SomeD)
    from json_depth_member [OF this] False have deep: "\<not> json_depth ?o \<le> json_limit" unfolding m by simp
    have pl: "json_plain ?o" using plain by (intro json_plain_mk_object) simp
    obtain t where "json_text ?o = CHR ''{'' # t @ [CHR ''}'']" using assms(2) pl unfolding m json_compact_def by blast
    then have t: "strip_prefix ''data: '' (trim (sse_frame (json_text ?o))) = Some (json_text ?o)"
      unfolding strip_prefix_Some by (intro trim_frame exI)
    have "from_str (json_text ?o) = None" using assms(1) pl deep by (simp add: json_roundtrip_def)
    then show ?thesis using False by (simp add: frame decode_event_def t)
  qed
qed

text \<open>
  Every frame the live hub emits decodes to the event it stands for: a delta to the typed event with
  its key, row and transaction number, whatever the row; the marks to their events; a public snapshot
  to the fingerprint and the version of the cursor it points to.
\<close>

lemma live_frames_decode:
  assumes "json_roundtrip json_text from_str" and "json_compact json_text"
  shows "(json_member (delta_row d) \<longrightarrow> decode_event from_str json_error (encode json_text d txid) = Inr (delta_event d txid)) \<and>
         decode_event from_str json_error (up_to_date json_text txid) = Inr (EvUpToDate txid) \<and>
         decode_event from_str json_error reset = Inr EvReset \<and>
         decode_event from_str json_error (snapshot_frame json_text from_str False (show_hex fp) version snapshot_body) =
           Inr (EvSnapshot None (Some (show_hex fp)) version)"
  using decode_encode [OF assms] decode_up_to_date [OF assms] decode_reset [OF assms] decode_public_snapshot [OF assms]
    url_hash_cursor [OF show_hex_no_slash, of fp "show_nat (unat version)"] by simp

text \<open>A codec with both laws.\<close>

definition compact_json_text :: json_printer where
  "compact_json_text v =
     (if v = reset_value then reset_text
      else case v of Object m \<Rightarrow> CHR ''{'' # sample_json_text v @ [CHR ''}''] | _ \<Rightarrow> sample_json_text v)"

definition compact_from_str :: json_parser where
  "compact_from_str s =
     (if s = reset_text then Some reset_value
      else let v = from_nat (length s - (if prefix ''{'' s then 2 else 0)) :: json
           in if json_plain v \<and> json_depth v \<le> json_limit \<and> compact_json_text v = s then Some v else None)"

lemma compact_json_compact: "json_compact compact_json_text"
  by (auto simp: json_compact_def compact_json_text_def reset_text_def)

lemma sample_json_text_not_brace: "\<not> prefix ''{'' (sample_json_text v)"
  by (cases "to_nat v") (simp_all add: sample_json_text_def)

lemma compact_json_text_neq: "v \<noteq> reset_value \<Longrightarrow> compact_json_text v \<noteq> reset_text"
proof -
  have "CHR ''o'' \<in> set reset_text" by (simp add: reset_text_def)
  moreover assume "v \<noteq> reset_value"
  then have "CHR ''o'' \<notin> set (compact_json_text v)"
    by (auto simp: compact_json_text_def sample_json_text_def split: json.splits)
  ultimately show ?thesis by metis
qed

lemma compact_json_roundtrip: "json_roundtrip compact_json_text compact_from_str"
  unfolding json_roundtrip_def
proof (intro conjI allI impI)
  have reset: "json_plain reset_value \<and> json_depth reset_value \<le> json_limit"
    unfolding reset_value_def by (rule json_object_readable) simp
  fix v
  assume wf: "json_plain v"
  show "compact_from_str (compact_json_text v) = (if json_depth v \<le> json_limit then Some v else None)"
  proof (cases "v = reset_value")
    case True
    then show ?thesis using reset by (simp add: compact_from_str_def compact_json_text_def)
  next
    case False
    have "from_nat (length (compact_json_text v) - (if prefix ''{'' (compact_json_text v) then 2 else 0)) = v"
      using False sample_json_text_not_brace [of v]
      by (cases v) (simp_all add: compact_json_text_def, simp_all add: sample_json_text_def)
    then show ?thesis using wf compact_json_text_neq [OF False] unfolding compact_from_str_def Let_def by simp
  qed
  show "CHR 0x0A \<notin> set (compact_json_text v)"
    by (auto simp: compact_json_text_def sample_json_text_def reset_text_def split: json.splits)
next
  have reset: "json_plain reset_value \<and> json_depth reset_value \<le> json_limit"
    unfolding reset_value_def by (rule json_object_readable) simp
  fix s v
  assume "compact_from_str s = Some v"
  then show "json_plain v" "json_depth v \<le> json_limit" using reset by (auto simp: compact_from_str_def Let_def split: if_splits)
qed

end
