(* ===== verification/Session.thy ===== *)
theory Session
  imports Unb
begin

text \<open>
  The protocol of a live stream.  The frames of a channel of the hub (\<open>src/capability/live.rs\<close>) form
  words of a small grammar: one snapshot, then blocks of deltas that carry one transaction number and
  end with its \<open>up-to-date\<close> mark, then possibly one reset.  Decoded by \<open>src/binding/unb.rs\<close> they are
  typed events, the declared type of the stream of the live service.

  The lemmas show that every step of the hub extends each channel by whole blocks.
\<close>

subsection \<open>Words of frames\<close>

text \<open>The flag says whether the word has ended with a reset.\<close>

inductive stream_word :: "json_printer \<Rightarrow> json_parser \<Rightarrow> bool \<Rightarrow> string list \<Rightarrow> bool"
  for json_text from_str where
  word_start: "stream_word json_text from_str False [snapshot_frame json_text from_str scoped hash version snapshot_body]"
| word_block: "stream_word json_text from_str False frames \<Longrightarrow> \<forall>d \<in> set ds. json_member (delta_row d) \<Longrightarrow>
    stream_word json_text from_str False (frames @ map (\<lambda>d. encode json_text d txid) ds @ [up_to_date json_text txid])"
| word_reset: "stream_word json_text from_str False frames \<Longrightarrow> stream_word json_text from_str True (frames @ [reset])"

definition chan_ok :: "json_printer \<Rightarrow> json_parser \<Rightarrow> live_hub \<Rightarrow> nat \<Rightarrow> bool" where
  "chan_ok json_text from_str hub i \<longleftrightarrow>
     (\<exists>ended. stream_word json_text from_str ended (ch_frames (h_chans hub ! i)) \<and>
        (ended \<longrightarrow> (\<forall>(sid, sub) \<in> set (h_subs hub). sub_sender sub \<noteq> i)))"

definition streams_ok :: "json_printer \<Rightarrow> json_parser \<Rightarrow> live_hub \<Rightarrow> bool" where
  "streams_ok json_text from_str hub \<longleftrightarrow> (\<forall>i < length (h_chans hub). chan_ok json_text from_str hub i)"

lemma chan_ok_used:
  assumes "chan_ok json_text from_str hub i" and "(sid, sub) \<in> set (h_subs hub)" and "sub_sender sub = i"
  shows "stream_word json_text from_str False (ch_frames (h_chans hub ! i))"
proof -
  from assms(1) obtain ended where e: "stream_word json_text from_str ended (ch_frames (h_chans hub ! i))"
      "ended \<longrightarrow> (\<forall>(sid, sub) \<in> set (h_subs hub). sub_sender sub \<noteq> i)"
    unfolding chan_ok_def by blast
  have "\<not> ended" using e(2) assms(2,3) by blast
  then show ?thesis using e(1) by simp
qed

lemma chan_ok_live: "stream_word json_text from_str False (ch_frames (h_chans hub ! i)) \<Longrightarrow> chan_ok json_text from_str hub i"
  unfolding chan_ok_def by blast

text \<open>Fewer subscriptions, the same frames.\<close>

lemma chan_ok_shrink:
  assumes "chan_ok json_text from_str hub i" and "ch_frames (h_chans hub' ! i) = ch_frames (h_chans hub ! i)"
    and "set (h_subs hub') \<subseteq> set (h_subs hub)"
  shows "chan_ok json_text from_str hub' i"
  using assms unfolding chan_ok_def by (metis (no_types, lifting) subsetD)

lemma streams_ok_shrink:
  assumes "streams_ok json_text from_str hub" and "length (h_chans hub') = length (h_chans hub)"
    and "\<And>i. ch_frames (h_chans hub' ! i) = ch_frames (h_chans hub ! i)" and "set (h_subs hub') \<subseteq> set (h_subs hub)"
  shows "streams_ok json_text from_str hub'"
  unfolding streams_ok_def
proof (intro allI impI)
  fix i
  assume "i < length (h_chans hub')"
  then show "chan_ok json_text from_str hub' i"
    using assms(1,2) by (intro chan_ok_shrink [OF _ assms(3,4)]) (simp add: streams_ok_def)
qed

lemma set_delete_subset: "set (AList.delete k xs) \<subseteq> set xs"
  by (auto simp: AList.delete_eq)

lemma set_update_subset: "set (AList.update k v xs) \<subseteq> insert (k, v) (set xs)"
  by (induction xs) auto

subsection \<open>Steps of the hub\<close>

lemma streams_ok_subscribe:
  assumes "streams_ok json_text from_str hub" and "hub_ok from_str hub"
    and "hub_subscribe json_text from_str finish sql ts hash version snapshot_body who headers params hub = (ls, hub')"
  shows "streams_ok json_text from_str hub'"
  unfolding streams_ok_def
proof (intro allI impI)
  fix i
  assume i: "i < length (h_chans hub')"
  let ?n = "length (h_chans hub)"
  define sub where "sub = \<lparr>sub_tables = ts, sub_pk = pk_of_tables hub ts, sub_sql = sql, sub_sender = ?n,
    sub_last = keyed_map json_text from_str finish snapshot_body (pk_of_tables hub ts), sub_who = who, sub_headers = headers, sub_params = params\<rparr>"
  have subs: "set (h_subs hub') \<subseteq> insert (h_next_id hub, sub) (set (h_subs hub))" "sub_sender sub = ?n"
      and chans: "h_chans hub' = h_chans hub @ [\<lparr>ch_frames = [snapshot_frame json_text from_str (who \<noteq> None \<or> headers \<noteq> None) hash version snapshot_body],
        ch_open = True, ch_base = keyed_map json_text from_str finish snapshot_body (pk_of_tables hub ts)\<rparr>]"
    using assms(3) set_update_subset [of "h_next_id hub" sub "h_subs hub"] by (auto simp: hub_subscribe_eq Let_def sub_def)
  show "chan_ok json_text from_str hub' i"
  proof (cases "i = ?n")
    case True
    then show ?thesis by (intro chan_ok_live) (simp add: chans word_start)
  next
    case False
    then have "i < ?n" using i chans by simp
    then obtain ended where "stream_word json_text from_str ended (ch_frames (h_chans hub ! i))"
        "ended \<longrightarrow> (\<forall>(sid, sub) \<in> set (h_subs hub). sub_sender sub \<noteq> i)"
      using assms(1) unfolding streams_ok_def chan_ok_def by blast
    then show ?thesis
      using subs False \<open>i < ?n\<close> unfolding chan_ok_def chans by (fastforce simp: nth_append)
  qed
qed

lemma streams_ok_fail:
  assumes "streams_ok json_text from_str hub" and "hub_ok from_str hub" and "length (h_chans hub) \<le> 2 ^ 64"
  shows "streams_ok json_text from_str (fail_job job hub)"
proof (cases "map_of (h_subs hub) (job_id job)")
  case None
  then show ?thesis using assms(1) by (simp add: fail_job_def)
next
  case (Some sub)
  note ok = hub_okD [OF assms(2) Some]
  have mem: "(job_id job, sub) \<in> set (h_subs hub)" using Some by (rule map_of_SomeD)
  let ?i = "sub_sender sub"
  have hub': "fail_job job hub = hub\<lparr>h_subs := AList.delete (job_id job) (h_subs hub),
      h_chans := (h_chans hub)[?i := (h_chans hub ! ?i)\<lparr>ch_frames := ch_frames (h_chans hub ! ?i) @ [reset]\<rparr>]\<rparr>"
    using Some ok by (simp add: fail_job_def send_open sub_ok_def)
  have gone: "sub_sender sub' \<noteq> ?i" if "(sid', sub') \<in> set (AList.delete (job_id job) (h_subs hub))" for sid' sub'
    using same_sender [OF assms(3) hub_ok_mem [OF assms(2)] ok] that by (auto simp: AList.delete_eq)
  show ?thesis
    unfolding streams_ok_def
  proof (intro allI impI)
    fix j
    assume "j < length (h_chans (fail_job job hub))"
    then have j: "j < length (h_chans hub)" "chan_ok json_text from_str hub j" using assms(1) by (simp_all add: hub' streams_ok_def)
    show "chan_ok json_text from_str (fail_job job hub) j"
    proof (cases "j = ?i")
      case True
      then show ?thesis
        using word_reset [OF chan_ok_used [OF j(2) mem]] gone j(1) unfolding chan_ok_def hub' by (fastforce intro: exI [of _ True])
    next
      case False
      then show ?thesis by (intro chan_ok_shrink [OF j(2)]) (simp_all add: hub' set_delete_subset)
    qed
  qed
qed

lemma streams_ok_deliver:
  assumes "json_roundtrip json_text from_str" and "fair_iter it" and "streams_ok json_text from_str hub"
    and "hub_ok from_str hub" and "job_ok hub job"
  shows "streams_ok json_text from_str (deliver_job json_text from_str finish it txid job fresh hub)"
proof (cases "map_of (h_subs hub) (job_id job)")
  case None
  then show ?thesis using assms(3) by (simp add: deliver_job_def)
next
  case (Some sub)
  note ok = hub_okD [OF assms(4) Some]
  have mem: "(job_id job, sub) \<in> set (h_subs hub)" using Some by (rule map_of_SomeD)
  let ?hub' = "deliver_job json_text from_str finish it txid job fresh hub"
  let ?nxt = "keyed_map json_text from_str finish fresh (job_pk job)"
  have rows: "\<forall>d \<in> set (diff it (job_last job) ?nxt). json_member (delta_row d)"
    using diff_rows_wf [OF assms(2) _ rows_wf_keyed_map [OF assms(1)], of "job_last job"] assms(5) by (simp add: job_ok_def)
  note eq = deliver_job_present [OF Some ok, of json_text finish it txid fresh, unfolded Let_def]
  have subs: "sub_sender sub'' \<in> sub_sender ` snd ` set (h_subs hub)" if "(sid, sub'') \<in> set (h_subs ?hub')" for sid sub''
    using that set_update_subset [of "job_id job" "sub\<lparr>sub_last := ?nxt\<rparr>" "h_subs hub"] mem by (force simp: eq)
  show ?thesis
    unfolding streams_ok_def
  proof (intro allI impI)
    fix j
    assume "j < length (h_chans ?hub')"
    then have j: "j < length (h_chans hub)" "chan_ok json_text from_str hub j" using assms(3) by (simp_all add: eq streams_ok_def)
    show "chan_ok json_text from_str ?hub' j"
    proof (cases "j = sub_sender sub")
      case True
      then show ?thesis
        using word_block [OF chan_ok_used [OF j(2) mem] rows] j(1) by (intro chan_ok_live) (simp add: eq)
    next
      case False
      then obtain ended where "stream_word json_text from_str ended (ch_frames (h_chans ?hub' ! j))"
          "ended \<longrightarrow> (\<forall>(sid, sub) \<in> set (h_subs hub). sub_sender sub \<noteq> j)"
        using j(2) unfolding chan_ok_def by (auto simp: eq)
      then show ?thesis unfolding chan_ok_def using subs by fastforce
    qed
  qed
qed

lemma reset_fold:
  assumes "distinct (map (\<lambda>(sid, sub). sub_sender sub) xs)"
    and "\<forall>(sid, sub) \<in> set xs. sub_sender sub < length chans \<and> ch_open (chans ! sub_sender sub)"
  shows "ch_frames (foldl (\<lambda>chans (sid, sub). snd (send (sub_sender sub) reset chans)) chans xs ! i) =
    ch_frames (chans ! i) @ (if i \<in> (\<lambda>(sid, sub). sub_sender sub) ` set xs then [reset] else [])"
  using assms
proof (induction xs arbitrary: chans)
  case Nil
  then show ?case by simp
next
  case (Cons x xs)
  obtain sid sub where x: "x = (sid, sub)" by (cases x)
  let ?k = "sub_sender sub"
  let ?chans = "chans[?k := (chans ! ?k)\<lparr>ch_frames := ch_frames (chans ! ?k) @ [reset]\<rparr>]"
  have k: "?k < length chans" "ch_open (chans ! ?k)" using Cons.prems(2) x by auto
  have other: "sub_sender sub' \<noteq> ?k" if "(sid', sub') \<in> set xs" for sid' sub'
    using Cons.prems(1) that by (force simp: x)
  have "distinct (map (\<lambda>(sid, sub). sub_sender sub) xs)" using Cons.prems(1) by simp
  moreover have "\<forall>(sid', sub') \<in> set xs. sub_sender sub' < length ?chans \<and> ch_open (?chans ! sub_sender sub')"
    using Cons.prems(2) other by (fastforce simp: x)
  ultimately have "ch_frames (foldl (\<lambda>chans (sid, sub). snd (send (sub_sender sub) reset chans)) ?chans xs ! i) =
      ch_frames (?chans ! i) @ (if i \<in> (\<lambda>(sid, sub). sub_sender sub) ` set xs then [reset] else [])"
    by (rule Cons.IH)
  moreover have "i = ?k \<Longrightarrow> i \<notin> (\<lambda>(sid, sub). sub_sender sub) ` set xs" using other by fastforce
  ultimately show ?case using k by (auto simp: x send_open nth_list_update)
qed

text \<open>Everybody registered hears the reset, and nobody else.\<close>

lemma reset_all_sends:
  assumes "fair_iter its" and "hub_ok from_str hub" and "length (h_chans hub) \<le> 2 ^ 64"
  shows "ch_frames (h_chans (reset_all its hub) ! i) =
    ch_frames (h_chans hub ! i) @ (if i \<in> (\<lambda>(sid, sub). sub_sender sub) ` set (h_subs hub) then [reset] else [])"
proof -
  let ?xs = "its (h_subs hub)"
  have set_xs: "set ?xs = set (h_subs hub)" by (rule fair_iter_set [OF assms(1)])
  have keys: "distinct (map fst ?xs)" using fair_iter_distinct_keys [OF assms(1)] assms(2) by (simp add: hub_ok_def)
  have "inj_on (\<lambda>(sid, sub). sub_sender sub) (set ?xs)"
  proof (rule inj_onI)
    fix p q
    assume p: "p \<in> set ?xs" and q: "q \<in> set ?xs" and eq: "(\<lambda>(sid, sub). sub_sender sub) p = (\<lambda>(sid, sub). sub_sender sub) q"
    have "fst p = fst q"
      using same_sender [OF assms(3) hub_ok_mem [OF assms(2)] hub_ok_mem [OF assms(2)]] p q eq unfolding set_xs by (cases p; cases q) auto
    then show "p = q" using p q eq_key_imp_eq_value [OF keys, of "fst p" "snd p" "snd q"] by (metis prod.collapse)
  qed
  then have "distinct (map (\<lambda>(sid, sub). sub_sender sub) ?xs)"
    using keys by (simp add: distinct_map)
  then show ?thesis
    unfolding reset_all_def using reset_fold [of ?xs "h_chans hub" i] hub_ok_mem [OF assms(2)] by (fastforce simp: set_xs sub_ok_def)
qed

lemma streams_ok_reset_all:
  assumes "fair_iter its" and "streams_ok json_text from_str hub" and "hub_ok from_str hub" and "length (h_chans hub) \<le> 2 ^ 64"
  shows "streams_ok json_text from_str (reset_all its hub)"
  unfolding streams_ok_def
proof (intro allI impI)
  fix i
  assume i: "i < length (h_chans (reset_all its hub))"
  then have ok: "chan_ok json_text from_str hub i" using assms(2) reset_all_shape [of its hub] by (simp add: streams_ok_def)
  note frames = reset_all_sends [OF assms(1,3,4), of i]
  show "chan_ok json_text from_str (reset_all its hub) i"
  proof (cases "i \<in> (\<lambda>(sid, sub). sub_sender sub) ` set (h_subs hub)")
    case True
    then obtain sid sub where sub: "(sid, sub) \<in> set (h_subs hub)" "sub_sender sub = i" by auto
    show ?thesis
      using word_reset [OF chan_ok_used [OF ok sub]] frames True reset_all_shape [of its hub]
      unfolding chan_ok_def by (intro exI [of _ True]) simp
  next
    case False
    then show ?thesis using ok frames reset_all_shape [of its hub] unfolding chan_ok_def by auto
  qed
qed

definition session_inv :: "json_printer \<Rightarrow> json_parser \<Rightarrow> 'w live_state \<Rightarrow> bool" where
  "session_inv json_text from_str s \<longleftrightarrow>
     live_inv from_str s \<and> (length (h_chans (st_hub s)) \<le> 2 ^ 64 \<longrightarrow> streams_ok json_text from_str (st_hub s))"

lemma session_inv_step:
  assumes codec: "json_roundtrip json_text from_str" and inv: "session_inv json_text from_str s"
    and step: "live_step eng json_text from_str finish s t"
  shows "session_inv json_text from_str t"
proof -
  have live: "live_inv from_str s" "live_inv from_str t"
    using inv live_inv_step [OF codec _ step] by (simp_all add: session_inv_def)
  have "streams_ok json_text from_str (st_hub t)" if len: "length (h_chans (st_hub t)) \<le> 2 ^ 64"
  proof -
    have grow: "length (h_chans (st_hub s)) \<le> length (h_chans (st_hub t))"
      using step by cases (auto simp: hub_subscribe_eq Let_def drop_remove_def drop_close_def apply_job_counts retain_open_def reset_all_shape)
    then have len_s: "length (h_chans (st_hub s)) \<le> 2 ^ 64" using len by simp
    have ok: "streams_ok json_text from_str (st_hub s)" "state_ok from_str s"
      using inv live len_s by (simp_all add: session_inv_def live_inv_def)
    have hub: "hub_ok from_str (st_hub s)" using ok(2) by (simp add: state_ok_def)
    from step show ?thesis
    proof cases
      case (live_subscribe sql ts hash version snapshot_body who headers params ls hub')
      then show ?thesis using streams_ok_subscribe [OF ok(1) hub live_subscribe(2)] by simp
    next
      case (live_drop ls)
      then show ?thesis using streams_ok_shrink [OF ok(1)] by (simp add: drop_remove_def set_delete_subset)
    next
      case (live_close ls)
      have "ch_frames (h_chans (drop_close ls (st_hub s)) ! i) = ch_frames (h_chans (st_hub s) ! i)" for i
        by (cases "i = ls_receiver ls") (simp_all add: drop_close_def)
      then show ?thesis using live_close streams_ok_shrink [OF ok(1), of "drop_close ls (st_hub s)"] by (simp add: drop_close_def)
    next
      case (live_apply txid job r jobs it)
      then have "job_ok (st_hub s) job" using ok(2) by (simp add: state_ok_def)
      then show ?thesis
        using live_apply streams_ok_fail [OF ok(1) hub len_s, of job] streams_ok_deliver [OF codec live_apply(3) ok(1) hub]
        by (simp add: apply_job_def split: sum.split)
    next
      case (live_finish txid)
      then show ?thesis using ok(1) retain_open_id [OF hub] by simp
    next
      case (live_lagged its)
      then show ?thesis using streams_ok_reset_all [OF live_lagged(3) ok(1) hub len_s] by simp
    qed (use ok(1) in simp_all)
  qed
  then show ?thesis using live(2) by (simp add: session_inv_def)
qed

lemma session_inv_init: "live_init s \<Longrightarrow> session_inv json_text from_str s"
  using live_inv_init by (fastforce simp: session_inv_def streams_ok_def live_init_def hub_start_def)

interpretation sess: invariant_system live_init
  "\<lambda>s t. json_roundtrip json_text from_str \<and> live_step eng json_text from_str finish s t" "session_inv json_text from_str"
  by unfold_locales (auto intro: session_inv_init session_inv_step)

subsection \<open>Typed sessions\<close>

text \<open>
  The type of a stream after its first event: \<open>Some txid\<close> is the state inside the block of a
  transaction.
\<close>

fun session :: "u32 option \<Rightarrow> live_event list \<Rightarrow> bool" where
  "session st [] = (st = None)"
| "session st (EvSnapshot _ _ _ # es) = False"
| "session st (EvInsert _ _ txid # es) = (st \<in> {None, Some txid} \<and> session (Some txid) es)"
| "session st (EvUpdate _ _ txid # es) = (st \<in> {None, Some txid} \<and> session (Some txid) es)"
| "session st (EvDelete _ _ txid # es) = (st \<in> {None, Some txid} \<and> session (Some txid) es)"
| "session st (EvUpToDate txid # es) = (st \<in> {None, Some txid} \<and> session None es)"
| "session st (EvReset # es) = (st = None \<and> es = [])"

text \<open>What a typed client does with an event.\<close>

fun apply_event :: "(string \<rightharpoonup> json) \<Rightarrow> live_event \<Rightarrow> (string \<rightharpoonup> json)" where
  "apply_event m (EvInsert key row txid) = m(key \<mapsto> row)"
| "apply_event m (EvUpdate key row txid) = m(key \<mapsto> row)"
| "apply_event m (EvDelete key row txid) = m(key := None)"
| "apply_event m e = m"

definition block_events :: "delta list \<Rightarrow> u32 \<Rightarrow> live_event list" where
  "block_events ds txid = map (\<lambda>d. delta_event d txid) ds @ [EvUpToDate txid]"

lemma session_block: "st \<in> {None, Some txid} \<Longrightarrow> session st (block_events ds txid @ es) = session None es"
proof (induction ds arbitrary: st)
  case Nil
  then show ?case by (simp add: block_events_def)
next
  case (Cons d ds)
  then show ?case using Cons.IH [of "Some txid"] by (cases d) (auto simp: block_events_def)
qed

lemma session_append: "session st es \<Longrightarrow> EvReset \<notin> set es \<Longrightarrow> session None fs \<Longrightarrow> session st (es @ fs)"
  by (induction st es rule: session.induct) auto

lemma apply_delta_event: "apply_event m (delta_event d txid) = apply_delta m d"
  by (cases d) simp_all

lemma delta_event_not_reset: "EvReset \<noteq> delta_event d txid"
  by (cases d) simp_all

text \<open>
  A word decodes to a typed session: the reading of its first frame, and events that replay like the
  frames.
\<close>

definition reads_as :: "json_parser \<Rightarrow> (string \<Rightarrow> string) \<Rightarrow> bool \<Rightarrow> string list \<Rightarrow> live_event list \<Rightarrow> bool" where
  "reads_as from_str json_error ended rest es \<longleftrightarrow>
     live_frames from_str json_error rest = map Inr es \<and> session None es \<and> (EvReset \<in> set es \<longleftrightarrow> ended) \<and>
     (\<forall>m. foldl (client_apply from_str) m rest = foldl apply_event m es)"

lemma client_apply_reset:
  assumes "json_roundtrip json_text from_str" and "json_compact json_text"
  shows "client_apply from_str m reset = m"
proof -
  have eq: "reset = sse_frame (json_text reset_value)"
    using assms(2) by (simp add: json_compact_def reset_def reset_text_def sse_frame_def)
  have "json_plain reset_value" unfolding reset_value_def by (rule json_plain_mk_object) simp
  then show ?thesis unfolding eq by (rule client_apply_no_op [OF assms(1)]) (simp add: reset_value_def event_delta_def)
qed

lemma stream_word_reads:
  assumes "stream_word json_text from_str ended frames"
    and "json_roundtrip json_text from_str" and "json_compact json_text"
  shows "\<exists>scoped hash version snapshot_body rest es.
    frames = snapshot_frame json_text from_str scoped hash version snapshot_body # rest \<and> reads_as from_str json_error ended rest es"
  using assms(1)
proof induction
  case (word_start scoped hash version snapshot_body)
  show ?case by (auto simp: reads_as_def live_frames_def)
next
  case (word_block frames ds txid)
  from word_block.IH obtain scoped hash version snapshot_body rest es where
      f: "frames = snapshot_frame json_text from_str scoped hash version snapshot_body # rest" and r: "reads_as from_str json_error False rest es"
    by blast
  let ?block = "map (\<lambda>d. encode json_text d txid) ds @ [up_to_date json_text txid]"
  have dec: "live_frames from_str json_error ?block = map Inr (block_events ds txid)"
    using word_block.hyps(2) decode_encode [OF assms(2,3)] decode_up_to_date [OF assms(2,3)]
    by (simp add: live_frames_def block_events_def)
  have "foldl apply_event m (block_events ds txid) = foldl apply_delta m ds" for m
    by (simp add: block_events_def foldl_map apply_delta_event)
  moreover have "foldl (client_apply from_str) m ?block = foldl apply_delta m ds" for m
    using client_replays_deltas [OF assms(2) word_block.hyps(2)] by (simp add: client_apply_up_to_date [OF assms(2)])
  ultimately have view: "foldl (client_apply from_str) m ?block = foldl apply_event m (block_events ds txid)" for m by simp
  have "EvReset \<notin> set (block_events ds txid)" using delta_event_not_reset by (auto simp: block_events_def)
  then have "reads_as from_str json_error False (rest @ ?block) (es @ block_events ds txid)"
    using r dec view session_append [of None es] session_block [of None txid ds "[]"]
    by (simp add: reads_as_def live_frames_def del: map_append foldl_append) (simp add: foldl_append)
  then show ?case unfolding f by fastforce
next
  case (word_reset frames)
  from word_reset.IH obtain scoped hash version snapshot_body rest es where
      f: "frames = snapshot_frame json_text from_str scoped hash version snapshot_body # rest" and r: "reads_as from_str json_error False rest es"
    by blast
  have "reads_as from_str json_error True (rest @ [reset]) (es @ [EvReset])"
    using r session_append [of None es "[EvReset]"] decode_reset [OF assms(2,3)] client_apply_reset [OF assms(2,3)]
    by (simp add: reads_as_def live_frames_def)
  then show ?case unfolding f by fastforce
qed

lemma decode_snapshot:
  assumes "json_roundtrip json_text from_str" and "json_compact json_text"
  shows "(\<exists>rows hash. decode_event from_str json_error (snapshot_frame json_text from_str scoped hash' version snapshot_body) =
            Inr (EvSnapshot rows hash version) \<and> (rows = None \<longleftrightarrow> hash \<noteq> None)) \<or>
         (scoped \<and> json_limit \<le> json_depth (snapshot_rows from_str snapshot_body) \<and>
          (\<exists>m. decode_event from_str json_error (snapshot_frame json_text from_str scoped hash' version snapshot_body) =
            Inl \<lparr>hf_code = CodeInternal, hf_message = m\<rparr>))"
proof (cases scoped)
  case True
  then show ?thesis using decode_scoped_snapshot [OF assms, of json_error hash' version snapshot_body] by (auto split: if_splits)
next
  case False
  then show ?thesis
    using decode_public_snapshot [OF assms, of json_error hash' version snapshot_body] url_hash_some [of "hash' @ ''/'' @ show_nat (unat version)"]
    by auto
qed

subsection \<open>Properties\<close>


definition compact_sub :: "live_subscription \<times> live_hub" where
  "compact_sub =
     hub_subscribe compact_json_text compact_from_str (\<lambda>_. 0) ''select 1'' [''users''] ''1f'' 7 ''x'' None None [] (hub_start Map.empty)"

lemma compact_sub_step:
  "live_step (one_row_engine []) compact_json_text compact_from_str (\<lambda>_. 0) sample_live
     (sample_live\<lparr>st_hub := snd compact_sub, st_handles := [fst compact_sub]\<rparr>)"
proof -
  have "hub_subscribe compact_json_text compact_from_str (\<lambda>_. 0) ''select 1'' [''users''] ''1f'' 7 ''x'' None None [] (st_hub sample_live)
      = (fst compact_sub, snd compact_sub)"
    by (simp add: compact_sub_def sample_live_def)
  from live_subscribe [OF this, of "one_row_engine []"] show ?thesis by (simp add: sample_live_def)
qed


end
