(* ===== verification/Schema.thy ===== *)
theory Schema
  imports Rows
begin

text \<open>
  \<open>src/schema/mod.rs\<close>: discovery of migration files, the checks on them, their application under a
  ledger, the hand-over of older ledgers, and reflection of the schema.  The file system is the
  parameter record \<open>fs\<close> (paths are relative to the world directory), \<open>str::to_lowercase\<close> the
  parameter \<open>lower\<close>.

  The lemmas show that the checksum detects every change of a single byte, that the chains come out
  strictly ordered, and what may have been executed and committed whatever the engine answers.
\<close>

record migration_file =
  filename :: string
  ordinal :: u32
  mf_sql :: string
  checksum :: string

record app_chain =
  app :: string
  rel_dir :: string
  files :: "migration_file list"

record column_info =
  col_name :: string
  col_data_type :: string
  col_nullable :: bool
  col_has_default :: bool

record table_info =
  ti_name :: string
  ti_columns :: "column_info list"
  ti_primary_key :: "string list"
  ti_foreign_keys :: "(string \<times> string \<times> string) list"
  ti_rls_enabled :: bool
  ti_rls_forced :: bool

record applied_report =
  applied :: "(string \<times> string) list"
  already_applied :: nat

text \<open>Directory listings give raw names; an entry that cannot be read is \<open>None\<close>.\<close>

record fs =
  fs_is_dir :: "string \<Rightarrow> bool"
  fs_read_dir :: "string \<Rightarrow> io_error + string option list"
  fs_read_to_string :: "string \<Rightarrow> io_error + string"
  fs_to_str :: "string \<Rightarrow> string option"
  fs_to_string_lossy :: "string \<Rightarrow> string"

subsection \<open>Checksums\<close>

definition fnv_step :: "u64 \<Rightarrow> char \<Rightarrow> u64" where
  "fnv_step hash byte = (xor hash (of_nat (of_char byte))) * 0x100000001b3"

definition content_hash :: "string \<Rightarrow> string" where
  "content_hash source = show_hex16 (foldl fnv_step 0xcbf29ce484222325 source)"

subsection \<open>Discovery\<close>

definition schema_io_error :: "io_error \<Rightarrow> cache_error" where
  "schema_io_error error = Rejected (io_display error)"

definition path_join :: "string \<Rightarrow> string \<Rightarrow> string" where
  "path_join a b = (if a = [] then b else a @ ''/'' @ b)"

definition ends_with :: "string \<Rightarrow> string \<Rightarrow> bool" where
  "ends_with suf s \<longleftrightarrow> suffix suf s"

definition ordinal_of :: "string \<Rightarrow> u32 option" where
  "ordinal_of name =
     (let s = hd (split_on (\<lambda>c. \<not> is_ascii_digit c) name)
      in if s = [] then None else map_option of_nat (parse_unsigned (2 ^ 32) s))"

fun load_files :: "fs \<Rightarrow> string \<Rightarrow> u32 set \<Rightarrow> string list \<Rightarrow> migration_file list result" where
  "load_files fsys dir seen [] = Inr []"
| "load_files fsys dir seen (name # names) =
     (case ordinal_of name of
        None \<Rightarrow> Inl (Rejected (path_join dir name @ '': migration filenames start with an ordinal: NNNN_<name>.sql''))
      | Some n \<Rightarrow>
          if n \<in> seen then
            Inl (Rejected (path_join dir name @ '': duplicate migration ordinal '' @ show_nat (unat n)))
          else
            bind_res (map_err schema_io_error (fs_read_to_string fsys (path_join dir name))) (\<lambda>sql.
            bind_res (load_files fsys dir (insert n seen) names) (\<lambda>rest.
              Inr (\<lparr>filename = name, ordinal = n, mf_sql = sql, checksum = content_hash sql\<rparr> # rest))))"

text \<open>\<open>windows(2)\<close>: the sum is on \<open>u32\<close>.\<close>

fun ordinal_gaps :: "string \<Rightarrow> u32 list \<Rightarrow> string list" where
  "ordinal_gaps dir (a # b # rest) =
     (if b \<noteq> a + 1 then [dir @ ''/: ordinal gap between '' @ show_nat (unat a) @ '' and '' @ show_nat (unat b)] else []) @
     ordinal_gaps dir (b # rest)"
| "ordinal_gaps dir _ = []"

definition sql_names :: "fs \<Rightarrow> string option list \<Rightarrow> string list" where
  "sql_names fsys entries =
     sort (filter (ends_with ''.sql'') (List.map_filter (\<lambda>e. Option.bind e (fs_to_str fsys)) entries))"

definition discover_chain :: "fs \<Rightarrow> string \<times> string \<Rightarrow> (app_chain \<times> string list) option result" where
  "discover_chain fsys = (\<lambda>(name, app_rel).
     let dir = path_join app_rel ''migrations''
     in if \<not> fs_is_dir fsys dir then Inr None
        else bind_res (map_err schema_io_error (fs_read_dir fsys dir)) (\<lambda>entries.
             bind_res (load_files fsys dir {} (sql_names fsys entries)) (\<lambda>fs.
               let sorted_files = sort_key ordinal fs
               in Inr (Some (\<lparr>app = name, rel_dir = dir, files = sorted_files\<rparr>,
                             ordinal_gaps dir (map ordinal sorted_files))))))"

definition list_apps :: "fs \<Rightarrow> string \<Rightarrow> (string \<times> string) list result" where
  "list_apps fsys world_id =
     (if fs_is_dir fsys ''apps'' then
        bind_res (map_err schema_io_error (fs_read_dir fsys ''apps'')) (\<lambda>entries.
          Inr ((world_id, []) #
               map (\<lambda>n. (fs_to_string_lossy fsys n, path_join ''apps'' (fs_to_string_lossy fsys n)))
                 (sort (filter (\<lambda>n. fs_is_dir fsys (path_join ''apps'' n)) (List.map_filter (\<lambda>e. e) entries)))))
      else Inr [(world_id, [])])"

fun discover_chains :: "fs \<Rightarrow> (string \<times> string) list \<Rightarrow> (app_chain list \<times> string list) result" where
  "discover_chains fsys [] = Inr ([], [])"
| "discover_chains fsys (a # apps) =
     bind_res (discover_chain fsys a) (\<lambda>c.
     bind_res (discover_chains fsys apps) (\<lambda>(chains, warnings).
       Inr (case c of
              None \<Rightarrow> (chains, warnings)
            | Some (chain, ws) \<Rightarrow> (chain # chains, ws @ warnings))))"

definition discover_migrations :: "fs \<Rightarrow> string \<Rightarrow> (app_chain list \<times> string list) result" where
  "discover_migrations fsys world_id = bind_res (list_apps fsys world_id) (discover_chains fsys)"

subsection \<open>Destructive migrations\<close>

definition DESTRUCTIVE_ACK :: string where
  "DESTRUCTIVE_ACK = ''pgpaw: acknowledge-destructive''"

fun destructive_statement :: "statement \<Rightarrow> bool" where
  "destructive_statement (SDrop object_type) = (object_type = ObjectTable)"
| "destructive_statement STruncate = True"
| "destructive_statement (SAlterTable ops) = (\<exists>op \<in> set ops. case op of DropColumn _ \<Rightarrow> True | OtherAlter _ \<Rightarrow> False)"
| "destructive_statement _ = False"

definition is_destructive :: "sql_front \<Rightarrow> (string \<Rightarrow> string) \<Rightarrow> string \<Rightarrow> bool" where
  "is_destructive front lower sql =
     (case parse_sql front sql of
        Inr statements \<Rightarrow> (\<exists>st \<in> set statements. destructive_statement st)
      | Inl _ \<Rightarrow> contains_str (lower sql) ''drop table'' \<or> contains_str (lower sql) ''drop column'' \<or>
                 contains_str (lower sql) ''truncate '')"

definition check_destructive_acknowledged ::
  "sql_front \<Rightarrow> (string \<Rightarrow> string) \<Rightarrow> string \<Rightarrow> migration_file \<Rightarrow> unit result" where
  "check_destructive_acknowledged front lower dir file =
     (if is_destructive front lower (mf_sql file) \<and> \<not> contains_str (lower (mf_sql file)) DESTRUCTIVE_ACK then
        Inl (Rejected (dir @ ''/'' @ filename file @
          '' contains a destructive contraction (DROP TABLE / DROP COLUMN / TRUNCATE); schema evolution is expand/contract '' @
          [CHR 0xE2, CHR 0x80, CHR 0x94] @
          '' confirm every run and snapshot depending on the prior schema has retired, then acknowledge by adding the comment `-- '' @
          DESTRUCTIVE_ACK @ ''` to this migration file''))
      else Inr ())"

subsection \<open>Ledgers\<close>

definition ensure_ledgers_sql :: string where
  "ensure_ledgers_sql =
     ''CREATE TABLE IF NOT EXISTS pgpaw_applied_migrations ( world_id text NOT NULL DEFAULT '' @ [CHR 0x27, CHR 0x27] @
     '', app text NOT NULL, filename text NOT NULL, checksum text NOT NULL, applied_at timestamptz NOT NULL DEFAULT now(), PRIMARY KEY (world_id, app, filename) ); CREATE TABLE IF NOT EXISTS pgpaw_app_schemas ( world_id text NOT NULL DEFAULT '' @
     [CHR 0x27, CHR 0x27] @ '', app text NOT NULL, tables jsonb NOT NULL DEFAULT '' @ [CHR 0x27] @ ''[]'' @ [CHR 0x27] @
     ''::jsonb, applied_at timestamptz NOT NULL DEFAULT now(), PRIMARY KEY (world_id, app) )''"

definition ensure_ledgers :: "'w engine \<Rightarrow> ('w, unit) prog" where
  "ensure_ledgers eng = bind_prog (issue eng (Exec ensure_ledgers_sql)) (\<lambda>_. return_prog ())"

text \<open>The body runs in a transaction that is committed when it succeeds and rolled back otherwise.\<close>

definition commit_or_rollback :: "'w engine \<Rightarrow> ('w, 'a) prog \<Rightarrow> (cache_error \<Rightarrow> cache_error) \<Rightarrow> ('w, 'a) prog" where
  "commit_or_rollback eng m on_error =
     bind_prog (issue eng Begin) (\<lambda>_ s.
       case m s of
         (Inr a, s') \<Rightarrow> bind_prog (issue eng Commit) (\<lambda>_. return_prog a) s'
       | (Inl e, s') \<Rightarrow> bind_prog (issue_ignored eng Rollback) (\<lambda>_. fail_prog (on_error e)) s')"

definition first_flag :: "row list \<Rightarrow> bool result" where
  "first_flag rows = (case rows of [] \<Rightarrow> Inr False | r # _ \<Rightarrow> bind_res (get_int r 0) (\<lambda>n. Inr (n = 1)))"

definition first_count :: "row list \<Rightarrow> int result" where
  "first_count rows =
     (case rows of [] \<Rightarrow> Inr 0 | r # _ \<Rightarrow> bind_res (get_opt_int r 0) (\<lambda>n. Inr (case n of Some n \<Rightarrow> n | None \<Rightarrow> 0)))"

definition tx_read :: "'w engine \<Rightarrow> string \<Rightarrow> (row list \<Rightarrow> 'a result) \<Rightarrow> ('w, 'a) prog" where
  "tx_read eng sql f = bind_prog (tx_query eng sql) (\<lambda>rows. lift_prog (f rows))"

definition show_int :: "int \<Rightarrow> string" where
  "show_int i = (if i < 0 then ''-'' @ show_nat (nat (- i)) else show_nat (nat i))"

record handoff =
  ho_conflicts :: string
  ho_conflict_error :: "int \<Rightarrow> string"
  ho_insert :: string
  ho_source :: string
  ho_copied :: string
  ho_rows :: string
  ho_drop :: string

definition handoff_table :: "'w engine \<Rightarrow> handoff \<Rightarrow> ('w, unit) prog" where
  "handoff_table eng h =
     bind_prog (tx_read eng (ho_conflicts h) first_count) (\<lambda>conflicts.
       if conflicts > 0 then fail_prog (Rejected (ho_conflict_error h conflicts))
       else bind_prog (tx_query eng (ho_insert h)) (\<lambda>_.
            bind_prog (tx_read eng (ho_source h) first_count) (\<lambda>source.
            bind_prog (tx_read eng (ho_copied h) first_count) (\<lambda>copied.
              if copied \<noteq> source then
                fail_prog (Rejected (''ledger handoff copied '' @ show_int copied @ '' of '' @ show_int source @ '' '' @ ho_rows h @ '' rows; aborting''))
              else bind_prog (tx_query eng (ho_drop h)) (\<lambda>_. return_prog ())))))"

definition migrations_handoff :: handoff where
  "migrations_handoff =
     \<lparr>ho_conflicts = ''SELECT count(*)::int8 FROM applied_app_migrations legacy JOIN pgpaw_applied_migrations new ON new.world_id = legacy.world_id AND new.app = legacy.app AND new.filename = legacy.filename WHERE new.checksum <> legacy.checksum'',
      ho_conflict_error = (\<lambda>n. ''ledger handoff found '' @ show_int n @ '' migration rows whose checksums disagree with already-migrated rows; resolve before retrying''),
      ho_insert = ''INSERT INTO pgpaw_applied_migrations (world_id, app, filename, checksum, applied_at) SELECT world_id, app, filename, checksum, applied_at FROM applied_app_migrations ON CONFLICT (world_id, app, filename) DO NOTHING'',
      ho_source = ''SELECT count(*)::int8 FROM applied_app_migrations'',
      ho_copied = ''SELECT count(*)::int8 FROM pgpaw_applied_migrations new WHERE EXISTS (SELECT 1 FROM applied_app_migrations legacy WHERE legacy.world_id = new.world_id AND legacy.app = new.app AND legacy.filename = new.filename)'',
      ho_rows = ''migration'',
      ho_drop = ''DROP TABLE applied_app_migrations''\<rparr>"

definition schemas_handoff :: handoff where
  "schemas_handoff =
     \<lparr>ho_conflicts = ''SELECT count(*)::int8 FROM app_schemas legacy JOIN pgpaw_app_schemas new ON new.world_id = legacy.world_id AND new.app = legacy.app WHERE new.tables IS DISTINCT FROM coalesce(legacy.tables, '' @ [CHR 0x27] @ ''[]'' @ [CHR 0x27] @ ''::jsonb)'',
      ho_conflict_error = (\<lambda>n. ''ledger handoff found '' @ show_int n @ '' schema rows whose tables disagree with already-migrated rows; resolve before retrying''),
      ho_insert = ''INSERT INTO pgpaw_app_schemas (world_id, app, tables, applied_at) SELECT world_id, app, coalesce(tables, '' @ [CHR 0x27] @ ''[]'' @ [CHR 0x27] @ ''::jsonb), applied_at FROM app_schemas ON CONFLICT (world_id, app) DO NOTHING'',
      ho_source = ''SELECT count(*)::int8 FROM app_schemas'',
      ho_copied = ''SELECT count(*)::int8 FROM pgpaw_app_schemas new WHERE EXISTS (SELECT 1 FROM app_schemas legacy WHERE legacy.world_id = new.world_id AND legacy.app = new.app)'',
      ho_rows = ''schema'',
      ho_drop = ''DROP TABLE app_schemas''\<rparr>"

definition regclass_query :: "string \<Rightarrow> string" where
  "regclass_query t = ''SELECT (to_regclass('' @ [CHR 0x27] @ t @ [CHR 0x27] @ '') IS NOT NULL)::int''"

definition handoff_body :: "'w engine \<Rightarrow> ('w, unit) prog" where
  "handoff_body eng =
     bind_prog (tx_read eng (regclass_query ''applied_app_migrations'') first_flag) (\<lambda>legacy_migrations.
     bind_prog (tx_read eng (regclass_query ''app_schemas'') first_flag) (\<lambda>legacy_schemas.
     bind_prog (if legacy_migrations then handoff_table eng migrations_handoff else return_prog ()) (\<lambda>_.
       if legacy_schemas then handoff_table eng schemas_handoff else return_prog ())))"

definition handoff_legacy_ledgers :: "'w engine \<Rightarrow> ('w, unit) prog" where
  "handoff_legacy_ledgers eng =
     bind_prog (ensure_ledgers eng) (\<lambda>_. commit_or_rollback eng (handoff_body eng) (\<lambda>e. e))"

subsection \<open>Applying migrations\<close>

definition ledger_query :: string where
  "ledger_query = ''SELECT filename FROM pgpaw_applied_migrations WHERE world_id = $1 AND app = $2 ORDER BY filename''"

definition checksum_query :: string where
  "checksum_query = ''SELECT checksum FROM pgpaw_applied_migrations WHERE world_id = $1 AND app = $2 AND filename = $3''"

definition ledger_insert :: string where
  "ledger_insert = ''INSERT INTO pgpaw_applied_migrations (world_id, app, filename, checksum) VALUES ($1, $2, $3, $4)''"

definition schemas_insert :: string where
  "schemas_insert = ''INSERT INTO pgpaw_app_schemas (world_id, app, tables, applied_at) VALUES ($1, $2, $3, now()) ON CONFLICT (world_id, app) DO UPDATE SET tables = EXCLUDED.tables, applied_at = now()''"

definition tables_query :: string where
  "tables_query =
     ''SELECT tablename::text FROM pg_catalog.pg_tables WHERE schemaname = '' @ [CHR 0x27] @ ''public'' @ [CHR 0x27] @
     '' AND tablename NOT LIKE '' @ [CHR 0x27] @ ''pgpaw'' @ [CHR 0x5C] @ ''_%'' @ [CHR 0x27] @
     '' AND tablename <> '' @ [CHR 0x27] @ ''_pglite_replica'' @ [CHR 0x27] @ '' ORDER BY tablename''"

definition reflected_table_names :: "'w engine \<Rightarrow> ('w, string list) prog" where
  "reflected_table_names eng =
     bind_prog (issue eng (Query tables_query [])) (\<lambda>rows. lift_prog (read_rows (\<lambda>r. get_text r 0) rows))"

fun check_ledger :: "app_chain \<Rightarrow> row list \<Rightarrow> unit result" where
  "check_ledger chain [] = Inr ()"
| "check_ledger chain (r # rows) =
     bind_res (get_text r 0) (\<lambda>name.
       if \<exists>file \<in> set (files chain). filename file = name then check_ledger chain rows
       else Inl (Rejected (rel_dir chain @ ''/'' @ name @
              '' is applied but missing on disk (renamed or deleted); applied statements never re-execute '' @
              [CHR 0xE2, CHR 0x80, CHR 0x94] @ '' restore the file'')))"

definition changed_after_applied :: "app_chain \<Rightarrow> migration_file \<Rightarrow> string \<Rightarrow> cache_error" where
  "changed_after_applied chain file old =
     Rejected (rel_dir chain @ ''/'' @ filename file @ '' changed after it was applied (checksum '' @ checksum file @
       '' vs '' @ old @ ''); migrations are immutable once applied'')"

text \<open>The body of the transaction of one migration: its text, then its line in the ledger.\<close>

definition migration_body :: "'w engine \<Rightarrow> string \<Rightarrow> app_chain \<Rightarrow> migration_file \<Rightarrow> ('w, unit) prog" where
  "migration_body eng world_id chain file =
     bind_prog (issue eng (TxExec (mf_sql file))) (\<lambda>_.
     bind_prog (issue eng (TxQuery ledger_insert
                  [PText world_id, PText (app chain), PText (filename file), PText (checksum file)])) (\<lambda>_.
       return_prog ()))"

text \<open>One file: \<open>True\<close> when it was applied now, \<open>False\<close> when the ledger already had it.\<close>

definition apply_file ::
  "'w engine \<Rightarrow> sql_front \<Rightarrow> (string \<Rightarrow> string) \<Rightarrow> (pg_error \<Rightarrow> string) \<Rightarrow> string \<Rightarrow> app_chain \<Rightarrow> migration_file \<Rightarrow>
   ('w, bool) prog" where
  "apply_file eng front lower pg_display world_id chain file =
     bind_prog (issue eng (Query checksum_query [PText world_id, PText (app chain), PText (filename file)])) (\<lambda>existing.
       case existing of
         r # _ \<Rightarrow>
           lift_prog (bind_res (get_text r 0) (\<lambda>old.
             if old \<noteq> checksum file then Inl (changed_after_applied chain file old) else Inr False))
       | [] \<Rightarrow>
           bind_prog (lift_prog (check_destructive_acknowledged front lower (rel_dir chain) file)) (\<lambda>_.
           bind_prog
             (commit_or_rollback eng (migration_body eng world_id chain file)
                (\<lambda>e. Rejected (rel_dir chain @ ''/'' @ filename file @ '': '' @ error_display pg_display e))) (\<lambda>_.
             return_prog True)))"

fun apply_files ::
  "'w engine \<Rightarrow> sql_front \<Rightarrow> (string \<Rightarrow> string) \<Rightarrow> (pg_error \<Rightarrow> string) \<Rightarrow> string \<Rightarrow> app_chain \<Rightarrow> migration_file list \<Rightarrow>
   applied_report \<Rightarrow> ('w, applied_report) prog" where
  "apply_files eng front lower pg_display world_id chain [] rep = return_prog rep"
| "apply_files eng front lower pg_display world_id chain (file # fs) rep =
     bind_prog (apply_file eng front lower pg_display world_id chain file) (\<lambda>now.
       apply_files eng front lower pg_display world_id chain fs
         (if now then rep\<lparr>applied := applied rep @ [(app chain, filename file)]\<rparr>
          else rep\<lparr>already_applied := already_applied rep + 1\<rparr>))"

definition apply_chain ::
  "'w engine \<Rightarrow> sql_front \<Rightarrow> (string \<Rightarrow> string) \<Rightarrow> (pg_error \<Rightarrow> string) \<Rightarrow> string \<Rightarrow> app_chain \<Rightarrow> applied_report \<Rightarrow>
   ('w, applied_report) prog" where
  "apply_chain eng front lower pg_display world_id chain rep =
     bind_prog (issue eng (Query ledger_query [PText world_id, PText (app chain)])) (\<lambda>ledger.
     bind_prog (lift_prog (check_ledger chain ledger)) (\<lambda>_.
     bind_prog (apply_files eng front lower pg_display world_id chain (files chain) rep) (\<lambda>rep'.
     bind_prog (reflected_table_names eng) (\<lambda>names.
     bind_prog (issue eng (Query schemas_insert
                  [PText world_id, PText (app chain), PJson (Array (map String names))])) (\<lambda>_.
       return_prog rep')))))"

fun apply_chains ::
  "'w engine \<Rightarrow> sql_front \<Rightarrow> (string \<Rightarrow> string) \<Rightarrow> (pg_error \<Rightarrow> string) \<Rightarrow> string \<Rightarrow> app_chain list \<Rightarrow> applied_report \<Rightarrow>
   ('w, applied_report) prog" where
  "apply_chains eng front lower pg_display world_id [] rep = return_prog rep"
| "apply_chains eng front lower pg_display world_id (chain # rest) rep =
     bind_prog (apply_chain eng front lower pg_display world_id chain rep)
       (apply_chains eng front lower pg_display world_id rest)"

definition apply_migrations ::
  "'w engine \<Rightarrow> sql_front \<Rightarrow> (string \<Rightarrow> string) \<Rightarrow> (pg_error \<Rightarrow> string) \<Rightarrow> string \<Rightarrow> app_chain list \<Rightarrow> ('w, applied_report) prog" where
  "apply_migrations eng front lower pg_display world_id app_chains =
     bind_prog (ensure_ledgers eng) (\<lambda>_.
       apply_chains eng front lower pg_display world_id app_chains \<lparr>applied = [], already_applied = 0\<rparr>)"

subsection \<open>Reflection\<close>

definition fk_graph_query :: string where
  "fk_graph_query =
     ''SELECT c.conrelid::regclass::text, c.confrelid::regclass::text FROM pg_constraint c WHERE c.contype = '' @ [CHR 0x27] @ ''f'' @ [CHR 0x27]"

definition foreign_key_graph :: "'w engine \<Rightarrow> ('w, (string \<times> string) list) prog" where
  "foreign_key_graph eng =
     bind_prog (issue eng (Query fk_graph_query [])) (\<lambda>rows.
       lift_prog (read_rows (\<lambda>r. bind_res (get_text r 0) (\<lambda>a. bind_res (get_text r 1) (\<lambda>b. Inr (a, b)))) rows))"

definition columns_query :: string where
  "columns_query =
     ''SELECT column_name::text, data_type::text, is_nullable::text, (column_default IS NOT NULL)::int FROM information_schema.columns WHERE table_schema = '' @
     [CHR 0x27] @ ''public'' @ [CHR 0x27] @ '' AND table_name = $1 ORDER BY ordinal_position''"

definition pk_query :: string where
  "pk_query = ''SELECT a.attname::text FROM pg_index i JOIN pg_attribute a ON a.attrelid = i.indrelid AND a.attnum = ANY(i.indkey) WHERE i.indrelid = ($1::text)::regclass AND i.indisprimary ORDER BY a.attnum''"

definition fk_query :: string where
  "fk_query =
     ''SELECT kcu.column_name::text, ccu.table_name::text, ccu.column_name::text FROM information_schema.table_constraints tc JOIN information_schema.key_column_usage kcu ON kcu.constraint_name = tc.constraint_name AND kcu.table_schema = tc.table_schema JOIN information_schema.constraint_column_usage ccu ON ccu.constraint_name = tc.constraint_name AND ccu.table_schema = tc.table_schema WHERE tc.constraint_type = '' @
     [CHR 0x27] @ ''FOREIGN KEY'' @ [CHR 0x27] @ '' AND tc.table_name = $1''"

definition rls_query :: string where
  "rls_query = ''SELECT relrowsecurity::int, relforcerowsecurity::int FROM pg_class WHERE oid = ($1::text)::regclass''"

definition read_column :: "row \<Rightarrow> column_info result" where
  "read_column r =
     bind_res (get_text r 0) (\<lambda>n.
     bind_res (get_text r 1) (\<lambda>t.
     bind_res (get_text r 2) (\<lambda>nullable.
     bind_res (get_int r 3) (\<lambda>d.
       Inr \<lparr>col_name = n, col_data_type = t, col_nullable = (nullable = ''YES''), col_has_default = (d = 1)\<rparr>))))"

definition read_foreign_key :: "row \<Rightarrow> (string \<times> string \<times> string) result" where
  "read_foreign_key r =
     bind_res (get_text r 0) (\<lambda>a. bind_res (get_text r 1) (\<lambda>b. bind_res (get_text r 2) (\<lambda>c. Inr (a, b, c))))"

definition read_rls :: "row list \<Rightarrow> (bool \<times> bool) result" where
  "read_rls rows =
     (case rows of
        [] \<Rightarrow> Inr (False, False)
      | r # _ \<Rightarrow> bind_res (get_int r 0) (\<lambda>a. bind_res (get_int r 1) (\<lambda>b. Inr (a = 1, b = 1))))"

definition reflect_table :: "'w engine \<Rightarrow> string \<Rightarrow> ('w, table_info) prog" where
  "reflect_table eng table =
     bind_prog (issue eng (Query columns_query [PText table])) (\<lambda>raw.
     bind_prog (lift_prog (read_rows read_column raw)) (\<lambda>columns.
     bind_prog (issue eng (Query pk_query [PText table])) (\<lambda>pk.
     bind_prog (lift_prog (read_rows (\<lambda>r. get_text r 0) pk)) (\<lambda>primary_key.
     bind_prog (issue eng (Query fk_query [PText table])) (\<lambda>fk.
     bind_prog (lift_prog (read_rows read_foreign_key fk)) (\<lambda>foreign_keys.
     bind_prog (issue eng (Query rls_query [PText table])) (\<lambda>rls.
     bind_prog (lift_prog (read_rls rls)) (\<lambda>(enabled, forced).
       return_prog \<lparr>ti_name = table, ti_columns = columns, ti_primary_key = primary_key,
                    ti_foreign_keys = foreign_keys, ti_rls_enabled = enabled, ti_rls_forced = forced\<rparr>))))))))"

fun reflect_tables :: "'w engine \<Rightarrow> string list \<Rightarrow> ('w, table_info list) prog" where
  "reflect_tables eng [] = return_prog []"
| "reflect_tables eng (table # ts) =
     bind_prog (reflect_table eng table) (\<lambda>info.
     bind_prog (reflect_tables eng ts) (\<lambda>rest. return_prog (info # rest)))"

subsection \<open>Checksums detect every change of one byte\<close>

text \<open>The multiplier is odd, so multiplying by it can be undone.\<close>

lemma fnv_prime_inverse: "(0x100000001b3 :: u64) * 0xce965057aff6957b = 1"
  by simp

lemma fnv_step_inject: "fnv_step h b = fnv_step h' b' \<longleftrightarrow> xor h (of_nat (of_char b)) = xor h' (of_nat (of_char b'))"
proof
  assume "fnv_step h b = fnv_step h' b'"
  then have "fnv_step h b * 0xce965057aff6957b = fnv_step h' b' * 0xce965057aff6957b" by simp
  then show "xor h (of_nat (of_char b)) = xor h' (of_nat (of_char b'))"
    using fnv_prime_inverse by (simp only: fnv_step_def mult.assoc mult_1_right)
qed (simp add: fnv_step_def)

lemma xor_word_cancel: "xor (h :: u64) x = xor h y \<longleftrightarrow> x = y"
proof
  have undo: "xor h (xor h z) = z" for z by (simp add: xor.assoc [symmetric])
  assume "xor h x = xor h y"
  then have "xor h (xor h x) = xor h (xor h y)" by simp
  then show "x = y" by (simp only: undo)
qed simp

lemma xor_word_cancel_right: "xor (h :: u64) x = xor h' x \<longleftrightarrow> h = h'"
  using xor_word_cancel [of x h h'] by (simp add: xor.commute)

lemma byte_word_inject: "(of_nat (of_char b) :: u64) = of_nat (of_char b') \<longleftrightarrow> b = b'"
proof
  assume eq: "(of_nat (of_char b) :: u64) = of_nat (of_char b')"
  have "unat (of_nat (of_char c) :: u64) = of_char c" for c
  proof -
    have "(of_char c :: nat) < 2 ^ LENGTH(64)" by (rule less_le_trans [OF of_char_bound]) simp
    then show ?thesis unfolding unat_of_nat by (rule mod_less)
  qed
  then have "(of_char b :: nat) = of_char b'" using eq by metis
  then show "b = b'" by simp
qed simp

lemma foldl_fnv_inject: "foldl fnv_step h s = foldl fnv_step h' s \<longleftrightarrow> h = h'"
  by (induction s arbitrary: h h') (simp_all add: fnv_step_inject xor_word_cancel_right)

lemma content_hash_eq: "content_hash s = content_hash s' \<longleftrightarrow> foldl fnv_step 0xcbf29ce484222325 s = foldl fnv_step 0xcbf29ce484222325 s'"
  by (simp add: content_hash_def)

subsection \<open>Chains\<close>

lemma load_files_spec:
  assumes "load_files fsys dir seen names = Inr ms"
  shows "map filename ms = names \<and> distinct (map ordinal ms) \<and> ordinal ` set ms \<inter> seen = {} \<and>
    (\<forall>m \<in> set ms. ordinal_of (filename m) = Some (ordinal m) \<and> checksum m = content_hash (mf_sql m) \<and>
       fs_read_to_string fsys (path_join dir (filename m)) = Inr (mf_sql m))"
  using assms
proof (induction fsys dir seen names arbitrary: ms rule: load_files.induct)
  case (1 fsys dir seen)
  then show ?case by simp
next
  case (2 fsys dir seen name names)
  from "2.prems" obtain n sql rest where n: "ordinal_of name = Some n" "n \<notin> seen"
      and sql: "fs_read_to_string fsys (path_join dir name) = Inr sql"
      and rest: "load_files fsys dir (insert n seen) names = Inr rest"
      and ms: "ms = \<lparr>filename = name, ordinal = n, mf_sql = sql, checksum = content_hash sql\<rparr> # rest"
    by (auto simp: bind_res_Inr_iff split: option.splits if_splits)
  from "2.IH" [OF n rest] show ?case using n sql ms by auto
qed

lemma load_files_Inl: "load_files fsys dir seen names = Inl e \<Longrightarrow> \<exists>m. e = Rejected m"
  by (induction fsys dir seen names rule: load_files.induct)
    (auto simp: bind_res_Inl_iff map_err_Inl_iff schema_io_error_def split: option.splits if_splits)

definition chain_ok :: "fs \<Rightarrow> app_chain \<Rightarrow> bool" where
  "chain_ok fsys chain \<longleftrightarrow>
     sorted_wrt (<) (map ordinal (files chain)) \<and>
     (\<forall>m \<in> set (files chain). ordinal_of (filename m) = Some (ordinal m) \<and> checksum m = content_hash (mf_sql m) \<and>
        fs_read_to_string fsys (path_join (rel_dir chain) (filename m)) = Inr (mf_sql m) \<and> ends_with ''.sql'' (filename m))"

lemma discover_chain_ok:
  assumes "discover_chain fsys a = Inr (Some (chain, ws))"
  shows "chain_ok fsys chain \<and> app chain = fst a"
proof -
  obtain name rel where a: "a = (name, rel)" by (cases a)
  let ?dir = "path_join rel ''migrations''"
  from assms a obtain entries ms where ms: "load_files fsys ?dir {} (sql_names fsys entries) = Inr ms"
      and chain: "chain = \<lparr>app = name, rel_dir = ?dir, files = sort_key ordinal ms\<rparr>"
    by (auto simp: discover_chain_def Let_def bind_res_Inr_iff split: if_splits)
  note spec = load_files_spec [OF ms]
  have "distinct (map ordinal (sort_key ordinal ms))"
    using spec by (simp add: distinct_map inj_on_def)
  moreover have "sorted (map ordinal (sort_key ordinal ms))" by simp
  ultimately have "sorted_wrt (<) (map ordinal (sort_key ordinal ms))" by (simp add: strict_sorted_iff)
  moreover have "ends_with ''.sql'' (filename m)" if "m \<in> set ms" for m
  proof -
    have "filename m \<in> set (sql_names fsys entries)" using spec that by (metis image_eqI set_map)
    then show ?thesis by (simp add: sql_names_def)
  qed
  ultimately show ?thesis using spec chain a by (simp add: chain_ok_def)
qed

lemma discover_chains_ok:
  assumes "discover_chains fsys apps = Inr (cs, ws)"
  shows "(\<forall>chain \<in> set cs. chain_ok fsys chain) \<and> subseq (map app cs) (map fst apps)"
  using assms
proof (induction apps arbitrary: cs ws)
  case Nil
  then show ?case by simp
next
  case (Cons a apps)
  from Cons.prems obtain c cs' ws' where c: "discover_chain fsys a = Inr c" and rest: "discover_chains fsys apps = Inr (cs', ws')"
      and cs: "(cs, ws) = (case c of None \<Rightarrow> (cs', ws') | Some (chain, w) \<Rightarrow> (chain # cs', w @ ws'))"
    by (auto simp: bind_res_Inr_iff)
  note ih = Cons.IH [OF rest]
  show ?case
  proof (cases c)
    case None
    then show ?thesis using ih cs by auto
  next
    case (Some cw)
    obtain chain w where cw: "cw = (chain, w)" by (cases cw)
    then show ?thesis using ih cs Some discover_chain_ok [of fsys a chain w] c by auto
  qed
qed

text \<open>The \<open>u32\<close> addition in the gap check cannot overflow: the ordinals are strictly increasing.\<close>

lemma gap_check_exact:
  assumes "sorted_wrt (<) (a # b # rest)"
  shows "(b \<noteq> a + 1) \<longleftrightarrow> unat b \<noteq> unat a + 1" and "unat (a + 1 :: u32) = unat a + 1"
proof -
  have "unat a < unat b" using assms by (simp add: word_less_nat_alt)
  then have "unat a + unat (1 :: u32) < 2 ^ LENGTH(32)" using unsigned_less [of b, where 'a = nat] by simp
  then show u: "unat (a + 1) = unat a + 1" using unat_add_lem [of a 1] by simp
  show "(b \<noteq> a + 1) \<longleftrightarrow> unat b \<noteq> unat a + 1" using u by (metis word_unat_eq_iff)
qed

lemma ordinal_gaps_spec:
  assumes "sorted_wrt (<) os"
  shows "ordinal_gaps dir os = [] \<longleftrightarrow> (\<forall>i. Suc i < length os \<longrightarrow> unat (os ! Suc i) = unat (os ! i) + 1)"
  using assms
proof (induction dir os rule: ordinal_gaps.induct)
  case (1 dir a b rest)
  have "ordinal_gaps dir (a # b # rest) = [] \<longleftrightarrow> unat b = unat a + 1 \<and> ordinal_gaps dir (b # rest) = []"
    using gap_check_exact [OF "1.prems"] by auto
  also have "\<dots> \<longleftrightarrow> unat b = unat a + 1 \<and> (\<forall>i. Suc i < length (b # rest) \<longrightarrow> unat ((b # rest) ! Suc i) = unat ((b # rest) ! i) + 1)"
    using "1.IH" "1.prems" by simp
  also have "\<dots> \<longleftrightarrow> (\<forall>i. Suc i < length (a # b # rest) \<longrightarrow> unat ((a # b # rest) ! Suc i) = unat ((a # b # rest) ! i) + 1)"
    by (auto simp: nth_Cons split: nat.splits)
  finally show ?case .
qed simp_all

subsection \<open>Transactions of the ledger\<close>

lemma commit_or_rollback_cases:
  assumes "commit_or_rollback eng m on_error s = (r, t)" and "issues m script"
  obtains (not_begun) "\<not> is_ok r" "trace t = trace s @ [Begin]"
        | (rolled_back) p s1 e where "\<not> is_ok r" "prefix p script" "trace t = trace s @ [Begin] @ p @ [Rollback]"
            "trace s1 = trace s @ [Begin]" "fst (m s1) = Inl e"
        | (committed) s1 a where "trace t = trace s @ [Begin] @ script @ [Commit]" "is_ok r \<Longrightarrow> r = Inr a"
            "trace s1 = trace s @ [Begin]" "fst (m s1) = Inr a"
proof -
  obtain q s1 where b: "issue eng Begin s = (q, s1)" by (cases "issue eng Begin s")
  have s1: "trace s1 = trace s @ [Begin]" using issue_traceD [OF b] .
  show ?thesis
  proof (cases q)
    case (Inl e)
    then show ?thesis using assms(1) b s1 not_begun by (auto simp: commit_or_rollback_def bind_prog_def)
  next
    case (Inr rows)
    obtain q2 s2 where m: "m s1 = (q2, s2)" by (cases "m s1")
    from assms(2) m obtain cs where cs: "trace s2 = trace s1 @ cs" "if is_ok q2 then cs = script else prefix cs script"
      unfolding issues_def by (metis fst_conv snd_conv)
    show ?thesis
    proof (cases q2)
      case err: (Inl e)
      then have "bind_prog (issue_ignored eng Rollback) (\<lambda>_. fail_prog (on_error e)) s2 = (r, t)"
        using assms(1) b Inr m by (simp add: commit_or_rollback_def bind_prog_def)
      then have "\<not> is_ok r \<and> trace t = trace s2 @ [Rollback]" by (auto simp: bind_prog_def issue_ignored_def)
      then show ?thesis using rolled_back [of cs s1 e] cs err s1 m by simp
    next
      case ok: (Inr a)
      then have c: "bind_prog (issue eng Commit) (\<lambda>_. return_prog a) s2 = (r, t)"
        using assms(1) b Inr m by (simp add: commit_or_rollback_def bind_prog_def)
      then have "trace t = trace s2 @ [Commit] \<and> (is_ok r \<longrightarrow> r = Inr a)"
        by (auto elim!: bind_prog_cases dest: issue_traceD)
      then show ?thesis using committed [of a s1] cs ok s1 m by simp
    qed
  qed
qed

definition migration_script :: "string \<Rightarrow> app_chain \<Rightarrow> migration_file \<Rightarrow> db_cmd list" where
  "migration_script world_id chain file =
     [TxExec (mf_sql file),
      TxQuery ledger_insert [PText world_id, PText (app chain), PText (filename file), PText (checksum file)]]"

lemma migration_body_issues: "issues (migration_body eng world_id chain file) (migration_script world_id chain file)"
proof -
  have "issues (migration_body eng world_id chain file)
      ([TxExec (mf_sql file)] @ ([TxQuery ledger_insert [PText world_id, PText (app chain), PText (filename file), PText (checksum file)]] @ []))"
    unfolding migration_body_def by (rule issues_bind [OF issues_issue issues_bind [OF issues_issue issues_return]])
  then show ?thesis by (simp add: migration_script_def)
qed

text \<open>The possible runs of one file, with what the engine answered to the ledger query.\<close>

lemma apply_file_cases:
  assumes "apply_file eng front lower pg_display world_id chain file s = (r, t)"
  defines "query \<equiv> Query checksum_query [PText world_id, PText (app chain), PText (filename file)]"
  obtains (stopped) "trace t = trace s @ [query]" "r \<noteq> Inr True"
            "r = Inr False \<Longrightarrow> \<exists>row rows w. eng query (world s) = (Inr (row # rows), w) \<and> get_text row 0 = Inr (checksum file)"
        | (run) w s1 r1 where "eng query (world s) = (Inr [], w)" "trace s1 = trace s @ [query]"
            "check_destructive_acknowledged front lower (rel_dir chain) file = Inr ()"
            "commit_or_rollback eng (migration_body eng world_id chain file)
               (\<lambda>e. Rejected (rel_dir chain @ ''/'' @ filename file @ '': '' @ error_display pg_display e)) s1 = (r1, t)"
            "r = map_sum (\<lambda>e. e) (\<lambda>_. True) r1"
proof -
  obtain q w where e: "eng query (world s) = (q, w)" by (cases "eng query (world s)")
  let ?s1 = "s\<lparr>world := w, trace := trace s @ [query]\<rparr>"
  show ?thesis
  proof (cases q)
    case (Inl err)
    then show ?thesis
      using assms e stopped by (auto simp: apply_file_def bind_prog_def issue_def)
  next
    case (Inr rows)
    show ?thesis
    proof (cases rows)
      case (Cons row rest)
      then show ?thesis
        using assms e Inr stopped
        by (cases "get_text row 0") (auto simp: apply_file_def bind_prog_def issue_def split: if_splits)
    next
      case Nil
      show ?thesis
      proof (cases "check_destructive_acknowledged front lower (rel_dir chain) file")
        case err: (Inl e')
        then show ?thesis using assms e Inr Nil stopped by (auto simp: apply_file_def bind_prog_def issue_def)
      next
        case ok: (Inr u)
        obtain r1 t1 where c: "commit_or_rollback eng (migration_body eng world_id chain file)
               (\<lambda>e. Rejected (rel_dir chain @ ''/'' @ filename file @ '': '' @ error_display pg_display e)) ?s1 = (r1, t1)"
          by fastforce
        then show ?thesis
          using assms e Inr Nil ok run [of w ?s1 r1]
          by (cases r1) (auto simp: apply_file_def bind_prog_def issue_def)
      qed
    qed
  qed
qed

lemma apply_files_report:
  assumes "apply_files eng front lower pg_display world_id chain ms rep s = (Inr rep', t)"
  shows "\<exists>now. applied rep' = applied rep @ map (\<lambda>m. (app chain, filename m)) now \<and> subseq now ms \<and>
           already_applied rep' + length now = already_applied rep + length ms"
  using assms
proof (induction ms arbitrary: rep s)
  case Nil
  then show ?case by simp
next
  case (Cons m ms)
  from Cons.prems obtain b s1 where
    rest: "apply_files eng front lower pg_display world_id chain ms
      (if b then rep\<lparr>applied := applied rep @ [(app chain, filename m)]\<rparr>
       else rep\<lparr>already_applied := already_applied rep + 1\<rparr>) s1 = (Inr rep', t)"
    by (auto simp: bind_prog_Inr_iff)
  from Cons.IH [OF rest] obtain now where now: "subseq now ms"
      "applied rep' = (if b then applied rep @ [(app chain, filename m)] else applied rep) @ map (\<lambda>m. (app chain, filename m)) now"
      "already_applied rep' + length now = (if b then already_applied rep else already_applied rep + 1) + length ms"
    by (auto split: if_splits)
  show ?case
    by (rule exI [of _ "if b then m # now else now"]) (use now in auto)
qed

lemma apply_chains_report:
  assumes "apply_chains eng front lower pg_display world_id cs rep s = (Inr rep', t)"
  shows "\<exists>now. applied rep' = applied rep @ now \<and>
           subseq now (concat (map (\<lambda>c. map (\<lambda>m. (app c, filename m)) (files c)) cs)) \<and>
           already_applied rep' + length now = already_applied rep + length (concat (map files cs))"
  using assms
proof (induction cs arbitrary: rep s)
  case Nil
  then show ?case by simp
next
  case (Cons c cs)
  from Cons.prems obtain r1 s1 s2 s3 where
      fs: "apply_files eng front lower pg_display world_id c (files c) rep s2 = (Inr r1, s3)" and
      rest: "apply_chains eng front lower pg_display world_id cs r1 s1 = (Inr rep', t)"
    by (auto simp: bind_prog_Inr_iff apply_chain_def)
  from apply_files_report [OF fs] obtain now1 where 1: "applied r1 = applied rep @ map (\<lambda>m. (app c, filename m)) now1"
      "subseq now1 (files c)" "already_applied r1 + length now1 = already_applied rep + length (files c)" by blast
  from Cons.IH [OF rest] obtain now2 where 2: "applied rep' = applied r1 @ now2"
      "subseq now2 (concat (map (\<lambda>c. map (\<lambda>m. (app c, filename m)) (files c)) cs))"
      "already_applied rep' + length now2 = already_applied r1 + length (concat (map files cs))" by blast
  show ?case
    by (rule exI [of _ "map (\<lambda>m. (app c, filename m)) now1 @ now2"])
      (use 1 2 in \<open>auto intro!: list_emb_append_mono subseq_map\<close>)
qed

lemma tx_read_issues: "issues (tx_read eng sql f) [TxQuery sql []]"
  using issues_bind [OF issues_tx_query issues_lift] by (simp add: tx_read_def)

lemma tx_read_Inr:
  "tx_read eng sql f s = (Inr a, t) \<Longrightarrow>
     trace t = trace s @ [TxQuery sql []] \<and> (\<exists>rows. eng (TxQuery sql []) (world s) = (Inr rows, world t) \<and> f rows = Inr a)"
  by (cases "eng (TxQuery sql []) (world s)"; cases "fst (eng (TxQuery sql []) (world s))")
    (auto simp: tx_read_def tx_query_def bind_prog_def issue_def)

lemma tx_read_trace: "trace (snd (tx_read eng sql f s)) = trace s @ [TxQuery sql []]"
  by (cases "eng (TxQuery sql []) (world s)"; cases "fst (eng (TxQuery sql []) (world s))")
    (auto simp: tx_read_def tx_query_def bind_prog_def issue_def)

subsection \<open>The hand-over of older ledgers\<close>

text \<open>The engine answered a query of the transaction, at some state, with rows that read as the value.\<close>

definition answered :: "'w engine \<Rightarrow> string \<Rightarrow> (row list \<Rightarrow> 'a result) \<Rightarrow> 'a \<Rightarrow> bool" where
  "answered eng sql f a \<longleftrightarrow> (\<exists>w rows. fst (eng (TxQuery sql []) w) = Inr rows \<and> f rows = Inr a)"

text \<open>The engine reported no conflicting lines, and equal numbers of lines in the old table and copied.\<close>

definition copied_over :: "'w engine \<Rightarrow> handoff \<Rightarrow> bool" where
  "copied_over eng h \<longleftrightarrow>
     (\<exists>c \<le> 0. answered eng (ho_conflicts h) first_count c) \<and>
     (\<exists>n. answered eng (ho_source h) first_count n \<and> answered eng (ho_copied h) first_count n)"

lemma copied_overI:
  "c \<le> 0 \<Longrightarrow> answered eng (ho_conflicts h) first_count c \<Longrightarrow> answered eng (ho_source h) first_count n \<Longrightarrow>
   answered eng (ho_copied h) first_count n \<Longrightarrow> copied_over eng h"
  unfolding copied_over_def by blast

definition handoff_reads :: "handoff \<Rightarrow> string list" where
  "handoff_reads h = [ho_conflicts h, ho_insert h, ho_source h, ho_copied h]"

definition handoff_queries :: "handoff \<Rightarrow> string list" where
  "handoff_queries h = handoff_reads h @ [ho_drop h]"

abbreviation tx_queries :: "string list \<Rightarrow> db_cmd list" where
  "tx_queries \<equiv> map (\<lambda>q. TxQuery q [])"

lemma yields_tx_query: "(\<And>r. Q r [TxQuery sql []]) \<Longrightarrow> yields (tx_query eng sql) Q"
  unfolding tx_query_def by (blast intro: yields_issue)

lemma yields_tx_read:
  assumes "\<And>e. Q (Inl e) [TxQuery sql []]" and "\<And>a. answered eng sql f a \<Longrightarrow> Q (Inr a) [TxQuery sql []]"
  shows "yields (tx_read eng sql f) Q"
  unfolding tx_read_def tx_query_def
proof (intro yields_bind yields_issue)
  fix rows w w'
  assume e: "eng (TxQuery sql []) w = (Inr rows, w')"
  have "Q (f rows) [TxQuery sql []]"
  proof (cases "f rows")
    case (Inr a)
    then have "answered eng sql f a" unfolding answered_def using e by (metis fst_conv)
    then show ?thesis using assms(2) Inr by simp
  qed (simp add: assms(1))
  then show "case Inr rows of Inl e \<Rightarrow> Q (Inl e) [TxQuery sql []]
      | Inr a \<Rightarrow> yields (lift_prog (f a)) (\<lambda>r' ds. Q r' ([TxQuery sql []] @ ds))"
    by (simp add: yields_lift)
qed (simp add: assms)

text \<open>The hand-over of one table runs a prefix of its queries; the last one, the drop, only after the counts.\<close>

definition handed_over :: "'w engine \<Rightarrow> handoff \<Rightarrow> unit result \<Rightarrow> db_cmd list \<Rightarrow> bool" where
  "handed_over eng h r cs \<longleftrightarrow>
     prefix cs (tx_queries (handoff_queries h)) \<and> (TxQuery (ho_drop h) [] \<in> set cs \<longrightarrow> copied_over eng h) \<and>
     (is_ok r \<longrightarrow> cs = tx_queries (handoff_queries h))"

lemma handoff_table_yields:
  assumes "ho_drop h \<notin> set (handoff_reads h)"
  shows "yields (handoff_table eng h) (handed_over eng h)"
  unfolding handoff_table_def
  using assms
  by (auto simp: handed_over_def handoff_queries_def handoff_reads_def not_less
      intro!: copied_overI yields_bind yields_tx_read yields_tx_query yields_return yields_fail split: sum.splits)

lemma yields_commit_or_rollback:
  assumes "yields m (\<lambda>r cs. case r of
      Inl e \<Rightarrow> Q (Inl (on_error e)) (Begin # cs @ [Rollback])
    | Inr a \<Rightarrow> Q (Inr a) (Begin # cs @ [Commit]) \<and> (\<forall>e. Q (Inl e) (Begin # cs @ [Commit])))"
    and "\<And>e. Q (Inl e) [Begin]"
  shows "yields (commit_or_rollback eng m on_error) Q"
proof -
  let ?finish = "\<lambda>s. case m s of
      (Inr a, s') \<Rightarrow> bind_prog (issue eng Commit) (\<lambda>_. return_prog a) s'
    | (Inl e, s') \<Rightarrow> bind_prog (issue_ignored eng Rollback) (\<lambda>_. fail_prog (on_error e)) s'"
  have "yields ?finish (\<lambda>r ds. Q r (Begin # ds))"
    unfolding yields_def
  proof
    fix s
    obtain r s' where m: "m s = (r, s')" by (cases "m s")
    from yieldsD [OF assms(1) m] obtain cs where cs: "trace s' = trace s @ cs" and
        q: "case r of Inl e \<Rightarrow> Q (Inl (on_error e)) (Begin # cs @ [Rollback])
          | Inr a \<Rightarrow> Q (Inr a) (Begin # cs @ [Commit]) \<and> (\<forall>e. Q (Inl e) (Begin # cs @ [Commit]))" by blast
    have "yields (bind_prog (issue eng Commit) (\<lambda>_. return_prog a)) (\<lambda>r ds. Q r (Begin # cs @ ds))" if "r = Inr a" for a
      using q that by (auto intro!: yields_rules)
    moreover have "yields (bind_prog (issue_ignored eng Rollback) (\<lambda>_. fail_prog (on_error e))) (\<lambda>r ds. Q r (Begin # cs @ ds))"
      if "r = Inl e" for e
      using q that by (auto intro!: yields_rules)
    ultimately show "\<exists>ds. trace (snd (?finish s)) = trace s @ ds \<and> Q (fst (?finish s)) (Begin # ds)"
      using m cs unfolding yields_def by (cases r) (auto, (metis append.assoc)+)
  qed
  then show ?thesis
    unfolding commit_or_rollback_def by (auto intro!: yields_bind yields_issue simp: assms(2))
qed

text \<open>What is said of the commands of the whole.\<close>

definition drops_only_copied :: "'w engine \<Rightarrow> db_cmd list \<Rightarrow> bool" where
  "drops_only_copied eng cs \<longleftrightarrow>
     (\<forall>h \<in> {migrations_handoff, schemas_handoff}. TxQuery (ho_drop h) [] \<in> set cs \<longrightarrow> copied_over eng h)"

lemma handoff_drop_distinct:
  "ho_drop migrations_handoff \<notin> set (handoff_reads migrations_handoff)"
  "ho_drop schemas_handoff \<notin> set (handoff_reads schemas_handoff)"
  "ho_drop schemas_handoff \<notin> set (handoff_queries migrations_handoff)"
  "ho_drop migrations_handoff \<notin> set (handoff_queries schemas_handoff)"
  "ho_drop migrations_handoff \<noteq> regclass_query t" "ho_drop schemas_handoff \<noteq> regclass_query t"
  by (simp_all add: handoff_queries_def handoff_reads_def migrations_handoff_def schemas_handoff_def regclass_query_def)

lemma handed_over_table:
  assumes "handed_over eng h r cs" and "h = migrations_handoff \<or> h = schemas_handoff"
  shows "drops_only_copied eng cs" "set cs \<subseteq> range (\<lambda>q. TxQuery q [])"
proof -
  have sub: "set cs \<subseteq> set (tx_queries (handoff_queries h))"
    using assms(1) set_mono_prefix unfolding handed_over_def by blast
  show "set cs \<subseteq> range (\<lambda>q. TxQuery q [])" using sub by auto
  show "drops_only_copied eng cs"
    using assms sub handoff_drop_distinct(3,4) unfolding drops_only_copied_def handed_over_def by auto
qed

lemma drops_only_copied_simps [simp]:
  "drops_only_copied eng []"
  "drops_only_copied eng (TxQuery (regclass_query t) [] # cs) = drops_only_copied eng cs"
  "drops_only_copied eng (cs @ ds) \<longleftrightarrow> drops_only_copied eng cs \<and> drops_only_copied eng ds"
  using handoff_drop_distinct(5,6) by (auto simp: drops_only_copied_def)

lemma drops_only_copied_control [simp]:
  "(\<And>q. c \<noteq> TxQuery q []) \<Longrightarrow> drops_only_copied eng (c # cs) = drops_only_copied eng cs"
  by (auto simp: drops_only_copied_def)

lemma tx_queries_of: "set cs \<subseteq> range (\<lambda>q. TxQuery q []) \<Longrightarrow> \<exists>qs. cs = tx_queries qs"
  by (rule exI [of _ "map (\<lambda>c. case c of TxQuery q _ \<Rightarrow> q | _ \<Rightarrow> []) cs"]) (induction cs, auto)

lemma ensure_ledgers_then:
  assumes "yields m Q"
  shows "yields (bind_prog (ensure_ledgers eng) (\<lambda>_. m))
           (\<lambda>r cs. cs = [Exec ensure_ledgers_sql] \<and> \<not> is_ok r \<or> (\<exists>ds. cs = Exec ensure_ledgers_sql # ds \<and> Q r ds))"
  unfolding ensure_ledgers_def
  by (auto intro!: yields_bind yields_issue yields_return yields_weaken [OF assms])

lemma handoff_table_part:
  assumes "h = migrations_handoff \<or> h = schemas_handoff"
  shows "yields (handoff_table eng h) (\<lambda>r cs. drops_only_copied eng cs \<and> set cs \<subseteq> range (\<lambda>q. TxQuery q []))"
proof (rule yields_weaken [OF handoff_table_yields])
  show "ho_drop h \<notin> set (handoff_reads h)" using assms handoff_drop_distinct(1,2) by auto
qed (use handed_over_table [OF _ assms] in blast)

lemma handoff_body_yields:
  "yields (handoff_body eng) (\<lambda>r cs. drops_only_copied eng cs \<and> set cs \<subseteq> range (\<lambda>q. TxQuery q []))"
proof -
  let ?Q = "\<lambda>cs. drops_only_copied eng cs \<and> set cs \<subseteq> range (\<lambda>q. TxQuery q [])"
  have part: "yields (if b then handoff_table eng h else return_prog ()) (\<lambda>r ds. ?Q (cs @ ds))"
    if "?Q cs" and "h = migrations_handoff \<or> h = schemas_handoff" for b h cs
    using that(1) handoff_table_part [OF that(2)] by (auto intro!: yields_return elim!: yields_weaken)
  have two: "yields (bind_prog (if a then handoff_table eng migrations_handoff else return_prog ()) (\<lambda>_.
      if b then handoff_table eng schemas_handoff else return_prog ())) (\<lambda>r cs. ?Q cs)" for a b
  proof (rule yields_bind, rule yields_weaken)
    show "yields (if a then handoff_table eng migrations_handoff else return_prog ()) (\<lambda>r ds. ?Q ([] @ ds))"
      by (rule part) simp_all
    fix r :: "unit result" and cs
    assume cs: "?Q ([] @ cs)"
    have "yields (if b then handoff_table eng schemas_handoff else return_prog ()) (\<lambda>r ds. ?Q (cs @ ds))"
      by (rule part) (use cs in simp_all)
    then show "case r of Inl e \<Rightarrow> ?Q cs
        | Inr x \<Rightarrow> yields (if b then handoff_table eng schemas_handoff else return_prog ()) (\<lambda>r' ds. ?Q (cs @ ds))"
      using cs by (cases r) (simp_all only: sum.case append_Nil)
  qed
  show ?thesis
    unfolding handoff_body_def
    by (rule yields_bind, rule yields_tx_read, simp_all only: sum.case) (simp, rule yields_bind, rule yields_tx_read,
      simp_all only: sum.case, simp, rule yields_weaken [OF two], auto)
qed

subsection \<open>Properties\<close>

text \<open>
  The checksum of a migration detects every change of a single byte: two texts that differ in
  exactly one byte never have the same checksum.  Each round of the 64-bit hash is a bijection,
  wrap-around included.
\<close>

theorem content_hash_detects_byte_edits:
  "content_hash (a @ x # b) = content_hash (a @ y # b) \<longleftrightarrow> x = y"
proof -
  have "content_hash (a @ x # b) = content_hash (a @ y # b) \<longleftrightarrow>
      fnv_step (foldl fnv_step 0xcbf29ce484222325 a) x = fnv_step (foldl fnv_step 0xcbf29ce484222325 a) y"
    by (simp add: content_hash_eq foldl_fnv_inject)
  then show ?thesis by (simp add: fnv_step_inject xor_word_cancel byte_word_inject)
qed


definition sample_fs :: fs where
  "sample_fs =
     \<lparr>fs_is_dir = (\<lambda>p. p = ''migrations''),
      fs_read_dir = (\<lambda>p. Inr [Some ''0002_b.sql'', None, Some ''notes.txt'', Some ''0001_a.sql'']),
      fs_read_to_string = (\<lambda>p. Inr p), fs_to_str = Some, fs_to_string_lossy = (\<lambda>n. n)\<rparr>"

lemma sample_discover:
  "\<exists>m1 m2. discover_migrations sample_fs ''w'' = Inr ([\<lparr>app = ''w'', rel_dir = ''migrations'', files = [m1, m2]\<rparr>], []) \<and>
     filename m1 = ''0001_a.sql'' \<and> filename m2 = ''0002_b.sql''"
proof -
  have names: "sql_names sample_fs [Some ''0002_b.sql'', None, Some ''notes.txt'', Some ''0001_a.sql''] = [''0001_a.sql'', ''0002_b.sql'']"
    by code_simp
  have hd: "hd (split_on (\<lambda>c. \<not> is_ascii_digit c) ''0001_a.sql'') = ''0001''" "hd (split_on (\<lambda>c. \<not> is_ascii_digit c) ''0002_b.sql'') = ''0002''"
    by code_simp+
  have dv: "digits_value ''0001'' = 1" "digits_value ''0002'' = 2" "\<forall>c \<in> set ''0001''. is_ascii_digit c" "\<forall>c \<in> set ''0002''. is_ascii_digit c"
    by code_simp+
  have plus: "(CHR ''0'' = CHR ''+'') = False" by simp
  have bound: "(1 :: nat) < 2 ^ 32" "(2 :: nat) < 2 ^ 32" by simp_all
  have parsed: "parse_unsigned (2 ^ 32) ''0001'' = Some 1" "parse_unsigned (2 ^ 32) ''0002'' = Some 2"
    unfolding parse_unsigned_def Let_def list.case plus if_False dv(1,2) using dv(3,4) bound by simp_all
  have ord: "ordinal_of ''0001_a.sql'' = Some 1" "ordinal_of ''0002_b.sql'' = Some 2"
    unfolding ordinal_of_def hd Let_def parsed by simp_all
  have apps: "list_apps sample_fs ''w'' = Inr [(''w'', [])]" by (simp add: list_apps_def sample_fs_def)
  have dir: "fs_is_dir sample_fs ''migrations''"
      "fs_read_dir sample_fs ''migrations'' = Inr [Some ''0002_b.sql'', None, Some ''notes.txt'', Some ''0001_a.sql'']"
      "\<And>p. fs_read_to_string sample_fs p = Inr p"
    by (simp_all add: sample_fs_def)
  let ?m1 = "\<lparr>filename = ''0001_a.sql'', ordinal = 1, mf_sql = path_join ''migrations'' ''0001_a.sql'',
      checksum = content_hash (path_join ''migrations'' ''0001_a.sql'')\<rparr>"
  let ?m2 = "\<lparr>filename = ''0002_b.sql'', ordinal = 2, mf_sql = path_join ''migrations'' ''0002_b.sql'',
      checksum = content_hash (path_join ''migrations'' ''0002_b.sql'')\<rparr>"
  have load: "load_files sample_fs ''migrations'' {} [''0001_a.sql'', ''0002_b.sql''] = Inr [?m1, ?m2]"
    by (simp add: ord dir(3))
  have sorted: "sort_key ordinal [?m1, ?m2] = [?m1, ?m2]" by simp
  have chain: "discover_chain sample_fs (''w'', []) = Inr (Some (\<lparr>app = ''w'', rel_dir = ''migrations'', files = [?m1, ?m2]\<rparr>, []))"
  proof -
    have join: "path_join [] ''migrations'' = ''migrations''" by (simp add: path_join_def)
    show ?thesis
      unfolding discover_chain_def prod.case join Let_def dir(2) res_simps names load sorted
      using dir(1) by simp
  qed
  show ?thesis by (simp add: discover_migrations_def apps chain)
qed


text \<open>
  C10: a migration is executed at most when the engine reports no ledger line for it and, if it is
  destructive, only when it carries the acknowledgement; it and its ledger line are then the whole
  of one transaction, committed together or rolled back.  A file whose ledger line has another
  checksum is refused without executing anything, one with the same checksum is skipped.
\<close>

theorem migrations_apply_once_and_atomically:
  assumes "apply_file eng front lower pg_display world_id chain file s = (r, t)"
    and "query = Query checksum_query [PText world_id, PText (app chain), PText (filename file)]"
  shows "\<exists>cs. trace t = trace s @ query # cs \<and>
     (TxExec (mf_sql file) \<in> set cs \<longrightarrow>
        (\<exists>w. eng query (world s) = (Inr [], w)) \<and>
        (is_destructive front lower (mf_sql file) \<longrightarrow> contains_str (lower (mf_sql file)) DESTRUCTIVE_ACK)) \<and>
     (cs = [] \<or> cs = [Begin] \<or> (\<exists>p. prefix p (migration_script world_id chain file) \<and> cs = Begin # p @ [Rollback]) \<or>
      cs = Begin # migration_script world_id chain file @ [Commit]) \<and>
     (r = Inr True \<longrightarrow> cs = Begin # migration_script world_id chain file @ [Commit]) \<and>
     (r = Inr False \<longrightarrow> cs = [] \<and> (\<exists>row rows w. eng query (world s) = (Inr (row # rows), w) \<and> get_text row 0 = Inr (checksum file)))"
  using assms(1)
proof (cases rule: apply_file_cases)
  case stopped
  then show ?thesis using assms(2) by auto
next
  case (run w s1 r1)
  have ack: "is_destructive front lower (mf_sql file) \<longrightarrow> contains_str (lower (mf_sql file)) DESTRUCTIVE_ACK"
    using run(3) by (auto simp: check_destructive_acknowledged_def split: if_splits)
  from run(4) migration_body_issues show ?thesis
  proof (cases rule: commit_or_rollback_cases)
    case not_begun
    then show ?thesis using run assms(2) by (cases r1) auto
  next
    case (rolled_back p s2 e)
    then show ?thesis using run assms(2) ack by (cases r1) auto
  next
    case (committed s2 a)
    then show ?thesis using run assms(2) ack by (cases r1) auto
  qed
qed

definition sample_migration :: migration_file where
  "sample_migration = \<lparr>filename = ''0001_a.sql'', ordinal = 1, mf_sql = ''create table t ()'', checksum = ''00''\<rparr>"

definition sample_chain :: app_chain where
  "sample_chain = \<lparr>app = ''w'', rel_dir = ''migrations'', files = [sample_migration]\<rparr>"

theorem migrations_apply_once_and_atomically_witness:
  "\<exists>t. apply_file (one_row_engine [CText ''ff'']) (sample_front (sample_query [] None) [] []) (\<lambda>s. s) (\<lambda>_. []) ''w'' sample_chain sample_migration
         \<lparr>world = (), trace = []\<rparr> = (Inl (changed_after_applied sample_chain sample_migration ''ff''), t) \<and>
       TxExec (mf_sql sample_migration) \<notin> set (trace t)"
proof -
  let ?run = "apply_file (one_row_engine [CText ''ff'']) (sample_front (sample_query [] None) [] []) (\<lambda>s. s) (\<lambda>_. []) ''w'' sample_chain sample_migration \<lparr>world = (), trace = []\<rparr>"
  have r: "?run = (Inl (changed_after_applied sample_chain sample_migration ''ff''), snd ?run)"
    by (simp add: apply_file_def bind_prog_def issue_def one_row_engine_def get_text_def cell_at_def sample_migration_def)
  show ?thesis
    using migrations_apply_once_and_atomically [OF r refl] r by (auto simp: one_row_engine_def)
qed


definition sample_applied_chain :: app_chain where
  "sample_applied_chain = \<lparr>app = ''w'', rel_dir = ''migrations'', files = [sample_migration\<lparr>filename := ''00''\<rparr>]\<rparr>"


text \<open>
  C28: an older ledger is dropped only after the engine reported, in the same transaction, that no
  line conflicts and that as many lines were copied as the old table holds.  The whole hand-over is
  one transaction of queries, committed when everything succeeded and rolled back otherwise.
\<close>

theorem handoff_drops_only_copied_ledgers:
  assumes "handoff_legacy_ledgers eng s = (r, t)"
  shows "\<exists>cs. trace t = trace s @ cs \<and> drops_only_copied eng cs \<and>
     (cs = [Exec ensure_ledgers_sql] \<or> cs = [Exec ensure_ledgers_sql, Begin] \<or>
      (\<exists>qs fin. cs = [Exec ensure_ledgers_sql, Begin] @ tx_queries qs @ [fin] \<and>
         (fin = Commit \<or> fin = Rollback \<and> \<not> is_ok r) \<and> (is_ok r \<longrightarrow> fin = Commit))) \<and>
     (is_ok r \<longrightarrow> last cs = Commit)"
proof -
  let ?Q = "\<lambda>r cs. drops_only_copied eng cs \<and>
      (cs = [Begin] \<and> \<not> is_ok r \<or> (\<exists>qs fin. cs = Begin # tx_queries qs @ [fin] \<and>
         (fin = Commit \<or> fin = Rollback \<and> \<not> is_ok r) \<and> (is_ok r \<longrightarrow> fin = Commit)))"
  have "yields (commit_or_rollback eng (handoff_body eng) (\<lambda>e. e)) ?Q"
  proof (intro yields_commit_or_rollback yields_weaken [OF handoff_body_yields])
    fix r :: "unit result" and cs
    assume cs: "drops_only_copied eng cs \<and> set cs \<subseteq> range (\<lambda>q. TxQuery q [])"
    then obtain qs where "cs = tx_queries qs" using tx_queries_of by blast
    with cs show "case r of Inl e \<Rightarrow> ?Q (Inl e) (Begin # cs @ [Rollback])
        | Inr a \<Rightarrow> ?Q (Inr a) (Begin # cs @ [Commit]) \<and> (\<forall>e. ?Q (Inl e) (Begin # cs @ [Commit]))"
      by (auto split: sum.splits)
  qed simp
  then have "yields (handoff_legacy_ledgers eng) (\<lambda>r cs. cs = [Exec ensure_ledgers_sql] \<and> \<not> is_ok r \<or>
      (\<exists>ds. cs = Exec ensure_ledgers_sql # ds \<and> ?Q r ds))"
    unfolding handoff_legacy_ledgers_def by (rule ensure_ledgers_then)
  from yieldsD [OF this assms] show ?thesis by (elim exE conjE disjE) force+
qed

text \<open>An engine with both older tables, where every other count is zero.\<close>

definition legacy_engine :: "unit engine" where
  "legacy_engine c w =
     (Inr [\<lparr>row_columns = [], row_cells = [CInt (if c \<in> {TxQuery (regclass_query ''applied_app_migrations'') [], TxQuery (regclass_query ''app_schemas'') []}
        then 1 else 0)]\<rparr>], w)"

lemma handoff_not_regclass:
  assumes "h = migrations_handoff \<or> h = schemas_handoff" and "q \<in> set (handoff_queries h)"
  shows "q \<noteq> regclass_query t"
  using assms by (auto simp: handoff_queries_def handoff_reads_def migrations_handoff_def schemas_handoff_def regclass_query_def)

lemma legacy_handoff:
  assumes "h = migrations_handoff \<or> h = schemas_handoff"
  shows "fst (handoff_table legacy_engine h s) = Inr ()"
  using handoff_not_regclass [OF assms]
  by (simp add: handoff_table_def tx_read_def tx_query_def bind_prog_def issue_def legacy_engine_def first_count_def
      get_opt_int_def cell_at_def handoff_queries_def handoff_reads_def)

theorem handoff_drops_only_copied_ledgers_witness:
  "\<exists>t. handoff_legacy_ledgers legacy_engine \<lparr>world = (), trace = []\<rparr> = (Inr (), t) \<and> last (trace t) = Commit \<and>
       drops_only_copied legacy_engine (trace t)"
proof -
  let ?run = "handoff_legacy_ledgers legacy_engine \<lparr>world = (), trace = []\<rparr>"
  have flag: "fst (tx_read legacy_engine (regclass_query t) first_flag s) = Inr True"
    if "t = ''applied_app_migrations'' \<or> t = ''app_schemas''" for t s
    using that by (auto simp: tx_read_def tx_query_def bind_prog_def issue_def legacy_engine_def first_flag_def get_int_def cell_at_def)
  have success: "fst (handoff_body legacy_engine s) = Inr ()" for s
    unfolding handoff_body_def by (simp add: bind_prog_ok flag legacy_handoff)
  have no_error: "handoff_body legacy_engine s \<noteq> (Inl e, t)" for s e t using success [of s] by auto
  have "fst ?run = Inr ()"
    using no_error by (auto simp: handoff_legacy_ledgers_def ensure_ledgers_def commit_or_rollback_def bind_prog_def issue_def legacy_engine_def
        split: prod.splits sum.splits)
  then have r: "?run = (Inr (), snd ?run)" by (metis prod.collapse)
  show ?thesis using handoff_drops_only_copied_ledgers [OF r] r by auto
qed

end
