(* ===== verification/Primary.thy ===== *)
theory Primary
  imports Cdc Rows
begin

text \<open>
  \<open>src/db/primary.rs\<close> and \<open>src/capability/schema.rs\<close>: opening an embedded primary, recovering its data
  directory, scanning its schema, and the observer that turns its notifications into transactions
  for the CDC bridge.  Reading a file, probing a process and the engine's connection URI are the
  fields of the parameter record \<open>os\<close>.

  The lemmas show when the ownership file of a data directory may be removed, that every path of
  opening gives the engine back or hands it out, and that the notifications of a primary drive the
  versions of its queries.
\<close>

record primary_source =
  ps_data_dir :: string
  ps_database :: string
  ps_listen :: string
  ps_port :: u16
  ps_min_connections :: nat
  ps_max_connections :: nat

text \<open>\<open>os_kill pid\<close> is the return value of \<open>kill(pid, 0)\<close> and the error number it left.\<close>

record 'w os =
  os_read :: "string \<Rightarrow> 'w \<Rightarrow> io_error + string"
  os_kill :: "int \<Rightarrow> 'w \<Rightarrow> int \<times> int option"
  os_uri :: "'w \<Rightarrow> string option"

subsection \<open>Ownership of a data directory\<close>

text \<open>\<open>lines().next()\<close>, and \<open>parse\<close> of a signed integer of the given width.\<close>

definition first_line :: "string \<Rightarrow> string option" where
  "first_line t =
     (if t = [] then None
      else let l = takeWhile (\<lambda>c. c \<noteq> CHR 0x0A) t
           in Some (if length l < length t \<and> suffix [CHR 0x0D] l then butlast l else l))"

definition digits_int :: "string \<Rightarrow> int option" where
  "digits_int ds = (if ds \<noteq> [] \<and> (\<forall>c \<in> set ds. is_ascii_digit c) then Some (int (digits_value ds)) else None)"

definition parse_signed :: "nat \<Rightarrow> string \<Rightarrow> int option" where
  "parse_signed bits s =
     (case (case s of
              c # cs \<Rightarrow> if c = CHR ''-'' then map_option uminus (digits_int cs)
                        else if c = CHR ''+'' then digits_int cs else digits_int s
            | [] \<Rightarrow> None) of
        Some n \<Rightarrow> if - (2 ^ (bits - 1)) \<le> n \<and> n < 2 ^ (bits - 1) then Some n else None
      | None \<Rightarrow> None)"

definition parse_i32 :: "string \<Rightarrow> int option" where
  "parse_i32 s = parse_signed 32 s"

definition owner_pid :: "string \<Rightarrow> int option" where
  "owner_pid t = Option.bind (first_line t) (\<lambda>l. parse_i32 (trim l))"

definition pid_path :: "string \<Rightarrow> string" where
  "pid_path data_dir =
     (if data_dir = [] \<or> last data_dir = CHR ''/'' then data_dir @ ''postmaster.pid'' else data_dir @ ''/postmaster.pid'')"

text \<open>Error number 3 is \<open>ESRCH\<close>: no such process.\<close>

definition process_is_alive :: "'w os \<Rightarrow> int \<Rightarrow> 'w \<Rightarrow> bool" where
  "process_is_alive os pid w \<longleftrightarrow>
     (if pid \<le> 1 then True
      else case os_kill os pid w of (r, errno) \<Rightarrow> r = 0 \<or> errno \<noteq> Some 3)"

definition remove_pid_file :: "'w host \<Rightarrow> string \<Rightarrow> ('w, unit) prog" where
  "remove_pid_file hst path s =
     (case hst (RemoveFile path) (world s) of
        (r, w) \<Rightarrow>
          (case r of
             Inr _ \<Rightarrow> Inr ()
           | Inl (NotFound _) \<Rightarrow> Inr ()
           | Inl error \<Rightarrow> Inl (lifecycle Recovery (io_display error)),
           s\<lparr>world := w, trace := trace s @ [Host (RemoveFile path)]\<rparr>))"

definition recover_primary :: "'w host \<Rightarrow> 'w os \<Rightarrow> string \<Rightarrow> ('w, unit) prog" where
  "recover_primary hst os data_dir s =
     (let path = pid_path data_dir
      in case os_read os path (world s) of
           Inl (NotFound _) \<Rightarrow> (Inr (), s)
         | Inl error \<Rightarrow> (Inl (lifecycle Recovery (io_display error)), s)
         | Inr t \<Rightarrow>
             (case owner_pid t of
                None \<Rightarrow> (Inl (lifecycle Recovery (''invalid ownership metadata in '' @ path)), s)
              | Some pid \<Rightarrow>
                  if \<not> process_is_alive os pid (world s) then remove_pid_file hst path s
                  else (Inl (lifecycle DataDirectoryBusy data_dir), s)))"

text \<open>On a system without processes to ask about, the ownership file is left alone.\<close>

definition recover_primary_other :: "string \<Rightarrow> unit result" where
  "recover_primary_other data_dir = Inr ()"

definition primary_is_busy_other :: "string \<Rightarrow> bool" where
  "primary_is_busy_other data_dir \<longleftrightarrow> False"

definition primary_is_busy :: "'w os \<Rightarrow> string \<Rightarrow> 'w \<Rightarrow> bool" where
  "primary_is_busy os data_dir w \<longleftrightarrow>
     (case os_read os (pid_path data_dir) w of
        Inl _ \<Rightarrow> False
      | Inr t \<Rightarrow> (case owner_pid t of None \<Rightarrow> False | Some pid \<Rightarrow> process_is_alive os pid w))"

fun is_postmaster_start :: "pg_error \<Rightarrow> bool" where
  "is_postmaster_start (PostmasterStart _) = True"
| "is_postmaster_start _ = False"

fun start_error_kind :: "pg_error \<Rightarrow> lifecycle_error_kind" where
  "start_error_kind PoolExhausted = Connection"
| "start_error_kind Closed = Connection"
| "start_error_kind (Protocol _) = Connection"
| "start_error_kind _ = Startup"

definition primary_start_error :: "'w os \<Rightarrow> (pg_error \<Rightarrow> string) \<Rightarrow> pg_error \<Rightarrow> string \<Rightarrow> 'w \<Rightarrow> cache_error" where
  "primary_start_error os pg_display error data_dir w =
     (if is_postmaster_start error \<and> primary_is_busy os data_dir w
      then lifecycle DataDirectoryBusy data_dir
      else lifecycle (start_error_kind error) (pg_display error))"

subsection \<open>Opening\<close>

definition identifier_byte :: "char \<Rightarrow> bool" where
  "identifier_byte c \<longleftrightarrow> is_ascii_alphanumeric c \<or> c = CHR ''_''"

definition check_primary_source :: "primary_source \<Rightarrow> unit result" where
  "check_primary_source src =
     (if ps_max_connections src = 0 \<or> ps_min_connections src > ps_max_connections src then
        Inl (Config ''primary connections require max_connections greater than zero and min_connections no greater than max_connections'')
      else if ps_database src = [] \<or> length (ps_database src) > 63 \<or> \<not> list_all identifier_byte (ps_database src) then
        Inl (Config ''primary database must use letters, digits, or underscores and contain at most 63 bytes'')
      else Inr ())"

definition primary_options :: "primary_source \<Rightarrow> db_options" where
  "primary_options src =
     \<lparr>opt_database = ''postgres'', opt_min_connections = ps_min_connections src,
      opt_max_connections = ps_max_connections src,
      opt_listen = (if ps_listen src = [] then None else Some (ps_listen src)),
      opt_port = (if ps_port src = 0 then None else Some (ps_port src))\<rparr>"

text \<open>\<open>PGlite::open_multi_process\<close> with its error mapped by \<open>primary_start_error\<close>.\<close>

definition open_db ::
  "'w engine \<Rightarrow> (pg_error \<Rightarrow> 'w \<Rightarrow> cache_error) \<Rightarrow> string \<Rightarrow> db_options \<Rightarrow> ('w, unit) prog" where
  "open_db eng on_error data_dir opts s =
     (case eng (Open data_dir opts) (world s) of
        (Inl e, w) \<Rightarrow> (Inl (on_error e w), s\<lparr>world := w, trace := trace s @ [Open data_dir opts]\<rparr>)
      | (Inr _, w) \<Rightarrow> acquire RDb (s\<lparr>world := w, trace := trace s @ [Open data_dir opts]\<rparr>))"

definition database_exists_query :: "string \<Rightarrow> string" where
  "database_exists_query database =
     ''SELECT 1 FROM pg_database WHERE datname = '' @ [CHR 0x27] @ replace_char (CHR 0x27) [CHR 0x27, CHR 0x27] database @ [CHR 0x27]"

definition create_database :: "string \<Rightarrow> string" where
  "create_database database =
     ''CREATE DATABASE '' @ [CHR 0x22] @ replace_char (CHR 0x22) [CHR 0x22, CHR 0x22] database @ [CHR 0x22]"

definition ensure_database :: "'w engine \<Rightarrow> string \<Rightarrow> ('w, unit) prog" where
  "ensure_database eng database =
     bind_prog (issue eng (Query (database_exists_query database) [])) (\<lambda>rows.
       if rows = [] then bind_prog (issue eng (Exec (create_database database))) (\<lambda>_. return_prog ())
       else return_prog ())"

text \<open>\<open>rsplit_once(c)\<close>.\<close>

definition rsplit_once :: "char \<Rightarrow> string \<Rightarrow> (string \<times> string) option" where
  "rsplit_once c s = map_option (\<lambda>(a, b). (rev b, rev a)) (split_once c (rev s))"

definition primary_dsn :: "string option \<Rightarrow> string \<Rightarrow> string result" where
  "primary_dsn uri database =
     (case uri of
        None \<Rightarrow> Inl (Config ''primary engine exposes no connection_uri'')
      | Some base \<Rightarrow>
          (let (address, query) = (case split_once (CHR ''?'') base of Some (a, q) \<Rightarrow> (a, Some q) | None \<Rightarrow> (base, None))
           in case rsplit_once (CHR ''/'') address of
                None \<Rightarrow> Inl (Config ''primary engine exposes an invalid connection_uri'')
              | Some (pre, _) \<Rightarrow>
                  Inr (case query of
                         Some q \<Rightarrow> pre @ ''/'' @ database @ ''?'' @ q
                       | None \<Rightarrow> pre @ ''/'' @ database)))"

text \<open>A failed step closes the engine, whatever closing answers, and returns the step's error.\<close>

definition or_close :: "'w engine \<Rightarrow> ('w, 'a) prog \<Rightarrow> ('w, 'a) prog" where
  "or_close eng m =
     bind_prog (try_prog m) (\<lambda>r.
       case r of
         Inr a \<Rightarrow> return_prog a
       | Inl error \<Rightarrow> bind_prog (issue_ignored eng Close) (\<lambda>_. fail_prog error))"

definition read_world :: "('w \<Rightarrow> 'a) \<Rightarrow> ('w, 'a) prog" where
  "read_world f s = (Inr (f (world s)), s)"

definition open_primary_db ::
  "'w engine \<Rightarrow> 'w host \<Rightarrow> 'w os \<Rightarrow> (pg_error \<Rightarrow> string) \<Rightarrow> primary_source \<Rightarrow> ('w, string) prog" where
  "open_primary_db eng hst os pg_display src =
     (let opts = primary_options src; dir = ps_data_dir src;
          start_error = (\<lambda>e. primary_start_error os pg_display e dir)
      in bind_prog (lift_prog (check_primary_source src)) (\<lambda>_.
         bind_prog (recover_primary hst os dir) (\<lambda>_.
         bind_prog (open_db eng start_error dir opts) (\<lambda>_.
         bind_prog
           (if ps_database src = ''postgres'' then return_prog ()
            else bind_prog (or_close eng (ensure_database eng (ps_database src))) (\<lambda>_.
                 bind_prog (issue eng Close) (\<lambda>_.
                   open_db eng start_error dir (opts\<lparr>opt_database := ps_database src\<rparr>)))) (\<lambda>_.
           or_close eng (bind_prog (read_world (os_uri os)) (\<lambda>uri. lift_prog (primary_dsn uri (ps_database src)))))))))"

subsection \<open>Scanning the schema\<close>

definition scan_tables_query :: string where
  "scan_tables_query =
     ''select tablename from pg_tables where schemaname not in ('' @ [CHR 0x27] @ ''pg_catalog'' @ [CHR 0x27] @ '', '' @
     [CHR 0x27] @ ''information_schema'' @ [CHR 0x27] @ '')''"

definition scan_pk_query :: string where
  "scan_pk_query =
     ''select tc.table_name, kcu.column_name from information_schema.table_constraints tc join information_schema.key_column_usage kcu on kcu.constraint_name = tc.constraint_name and kcu.table_schema = tc.table_schema where tc.constraint_type = '' @
     [CHR 0x27] @ ''PRIMARY KEY'' @ [CHR 0x27] @ '' and tc.table_schema not in ('' @ [CHR 0x27] @ ''pg_catalog'' @ [CHR 0x27] @ '', '' @
     [CHR 0x27] @ ''information_schema'' @ [CHR 0x27] @ '')''"

definition scan_full_query :: string where
  "scan_full_query =
     ''select c.relname from pg_class c join pg_namespace n on n.oid = c.relnamespace where c.relkind = '' @
     [CHR 0x27] @ ''r'' @ [CHR 0x27] @ '' and c.relreplident = '' @ [CHR 0x27] @ ''f'' @ [CHR 0x27] @ '' and n.nspname not in ('' @
     [CHR 0x27] @ ''pg_catalog'' @ [CHR 0x27] @ '', '' @ [CHR 0x27] @ ''information_schema'' @ [CHR 0x27] @ '')''"

text \<open>\<open>entry(table).or_default().push(column)\<close>, on an association list with distinct keys.\<close>

fun push_column :: "string \<Rightarrow> string \<Rightarrow> (string \<times> string list) list \<Rightarrow> (string \<times> string list) list" where
  "push_column t c [] = [(t, [c])]"
| "push_column t c ((t', cs) # m) = (if t = t' then (t', cs @ [c]) # m else (t', cs) # push_column t c m)"

definition group_pk :: "(string \<times> string) list \<Rightarrow> (string \<times> string list) list" where
  "group_pk rows = foldl (\<lambda>m (t, c). push_column (to_ascii_lowercase t) c m) [] rows"

definition single_pk :: "(string \<times> string list) list \<Rightarrow> (string \<times> string) list" where
  "single_pk m = List.map_filter (\<lambda>(t, cs). if length cs = 1 then Some (t, hd cs) else None) m"

text \<open>The sets of the result are lists without repetition, in the order of the rows.\<close>

definition scan_schema :: "'w engine \<Rightarrow> ('w, string list \<times> (string \<times> string) list \<times> string list) prog" where
  "scan_schema eng =
     bind_prog (issue eng (Query scan_tables_query [])) (\<lambda>table_rows.
     bind_prog (lift_prog (read_rows (\<lambda>r. get_text r 0) table_rows)) (\<lambda>names.
     bind_prog (issue eng (Query scan_pk_query [])) (\<lambda>pk_rows.
     bind_prog (lift_prog (read_rows (\<lambda>r. bind_res (get_text r 0) (\<lambda>t. bind_res (get_text r 1) (\<lambda>c. Inr (t, c)))) pk_rows)) (\<lambda>pks.
     bind_prog (issue eng (Query scan_full_query [])) (\<lambda>full_rows.
     bind_prog (lift_prog (read_rows (\<lambda>r. get_text r 0) full_rows)) (\<lambda>full.
       return_prog
         (remdups (map to_ascii_lowercase (filter (\<lambda>n. n \<noteq> ''_pglite_replica'') names)),
          single_pk (group_pk pks),
          remdups (map to_ascii_lowercase full))))))))"

subsection \<open>Observing a primary\<close>

text \<open>
  The callback of the notification channel, on the security version and the bridge.  The counter is
  a wrapping \<open>u64\<close>.
\<close>

definition observed_transaction :: "u32 \<Rightarrow> u64 \<Rightarrow> string \<Rightarrow> committed_transaction" where
  "observed_transaction x lsn table =
     \<lparr>xid = x, commit_lsn = lsn, end_lsn = lsn, commit_ts = 0, changes = [Change_Truncate ''public'' table]\<rparr>"

definition read_payload :: "string \<Rightarrow> (u32 \<times> string) option" where
  "read_payload payload =
     (case split_once (CHR '':'') payload of
        None \<Rightarrow> None
      | Some (txid, table) \<Rightarrow> map_option (\<lambda>n. (of_nat n, table)) (parse_unsigned (2 ^ 32) txid))"

definition observe :: "u64 \<times> cdc_bridge \<Rightarrow> string \<Rightarrow> u64 \<times> cdc_bridge" where
  "observe = (\<lambda>(security_version, bridge) payload.
     case read_payload payload of
       None \<Rightarrow> (security_version, bridge)
     | Some (x, table) \<Rightarrow>
         (security_version + 1, publish (observed_transaction x (security_version + 1) table) bridge))"

text \<open>
  \<open>replace(|c| !c.is_ascii_alphanumeric(), "_")\<close> acts on characters: of the bytes of a longer
  character the first becomes the underscore and the continuation bytes vanish.
\<close>

definition continuation_byte :: "char \<Rightarrow> bool" where
  "continuation_byte c \<longleftrightarrow> 128 \<le> (of_char c :: nat) \<and> of_char c < (192 :: nat)"

definition observer_function :: "string \<Rightarrow> string" where
  "observer_function table =
     ''_pgpaw_observe_'' @
     concat (map (\<lambda>c. if is_ascii_alphanumeric c then [c] else if continuation_byte c then [] else ''_'') table)"

definition install_table :: "string \<Rightarrow> string \<Rightarrow> string" where
  "install_table channel table =
     (let quoted = replace_char (CHR 0x22) [CHR 0x22, CHR 0x22] table; f = observer_function table
      in ''CREATE OR REPLACE FUNCTION '' @ f @ ''() RETURNS trigger LANGUAGE plpgsql AS $$ BEGIN PERFORM pg_notify('' @
         [CHR 0x27] @ channel @ [CHR 0x27] @ '', txid_current()::text || '' @ [CHR 0x27] @ '':'' @ [CHR 0x27] @
         '' || TG_TABLE_NAME); RETURN NULL; END $$; DROP TRIGGER IF EXISTS '' @ f @ '' ON '' @ [CHR 0x22] @ quoted @ [CHR 0x22] @
         ''; CREATE TRIGGER '' @ f @ '' AFTER INSERT OR UPDATE OR DELETE OR TRUNCATE ON '' @ [CHR 0x22] @ quoted @ [CHR 0x22] @
         '' FOR EACH STATEMENT EXECUTE FUNCTION '' @ f @ ''();'')"

definition installation :: "string \<Rightarrow> string list \<Rightarrow> string" where
  "installation channel ts = ''BEGIN;'' @ concat (map (install_table channel) ts) @ ''COMMIT;''"

text \<open>\<open>tables\<close> comes in the iteration order of its hash set; the result is the channel.\<close>

definition observer_start :: "'w engine \<Rightarrow> nat \<Rightarrow> string list \<Rightarrow> ('w, string) prog" where
  "observer_start eng pid ts =
     (let channel = ''pgpaw_primary_'' @ show_nat pid
      in bind_prog (issue eng (Listen channel)) (\<lambda>_.
         bind_prog (acquire RListen) (\<lambda>_.
         bind_prog (try_prog (issue eng (Exec (installation channel ts)))) (\<lambda>r.
           case r of
             Inl error \<Rightarrow> bind_prog (issue eng (Unlisten channel)) (\<lambda>_. fail_prog error)
           | Inr _ \<Rightarrow> return_prog channel))))"

definition observer_shutdown :: "'w engine \<Rightarrow> 'w host \<Rightarrow> string \<Rightarrow> ('w, unit) prog" where
  "observer_shutdown eng hst channel =
     bind_prog (perform_ignored hst CdcStop) (\<lambda>_.
     bind_prog (issue eng (Unlisten channel)) (\<lambda>_. return_prog ()))"

subsection \<open>Notifications and the bridge\<close>

text \<open>
  The observer and the bridge together: a notification arrives, the bridge's thread moves, the
  bridge is asked to stop, or its channel closes.
\<close>

inductive primary_step :: "u64 \<times> cdc_bridge \<Rightarrow> u64 \<times> cdc_bridge \<Rightarrow> bool" where
  notify: "primary_step s (observe s payload)"
| thread: "primary_step (sv, b) (sv, thread_step b)"
| stopped: "primary_step (sv, b) (sv, stop b)"
| closed: "c_pc b = Receiving \<Longrightarrow> c_queue b = [] \<Longrightarrow> primary_step (sv, b) (sv, b\<lparr>c_pc := Finished\<rparr>)"

inductive_cases primary_stepE: "primary_step s t"

text \<open>Published transactions are observed ones, numbered from one.\<close>

definition numbered :: "committed_transaction list \<Rightarrow> bool" where
  "numbered txns \<longleftrightarrow>
     (\<forall>i < length txns. \<exists>x table. txns ! i = observed_transaction x (of_nat (Suc i)) table)"

definition primary_inv :: "version_index \<Rightarrow> u64 \<times> cdc_bridge \<Rightarrow> bool" where
  "primary_inv v0 = (\<lambda>(sv, b).
     cdc_inv v0 b \<and> c_input b \<and> numbered (c_published b) \<and>
     (c_pc b \<noteq> Finished \<longrightarrow> sv = of_nat (length (c_published b))))"

lemma numbered_snoc:
  "numbered txns \<Longrightarrow> numbered (txns @ [observed_transaction x (of_nat (Suc (length txns))) table])"
  by (auto simp: numbered_def nth_append less_Suc_eq)

lemma primary_inv_observe:
  assumes "primary_inv v0 (sv, b)"
  shows "primary_inv v0 (observe (sv, b) payload)"
proof (cases "read_payload payload")
  case None
  then show ?thesis using assms by (simp add: observe_def)
next
  case (Some xt)
  obtain x table where xt: "xt = (x, table)" by (cases xt)
  show ?thesis
  proof (cases "c_pc b = Finished")
    case True
    then show ?thesis using assms Some xt by (simp add: observe_def primary_inv_def publish_def enqueue_def)
  next
    case False
    then have sv: "sv = of_nat (length (c_published b))" using assms by (simp add: primary_inv_def)
    let ?txn = "observed_transaction x (of_nat (Suc (length (c_published b)))) table"
    have "observe (sv, b) payload = (of_nat (Suc (length (c_published b))), enqueue ?txn b)"
      using Some xt sv assms by (simp add: observe_def primary_inv_def publish_def add.commute)
    moreover have "cdc_inv v0 (enqueue ?txn b)" using assms by (simp add: primary_inv_def cdc_inv_enqueue)
    moreover have "numbered (c_published b @ [?txn])" using assms numbered_snoc by (simp add: primary_inv_def)
    ultimately show ?thesis using False assms by (simp add: primary_inv_def enqueue_def)
  qed
qed

lemma thread_step_keeps:
  "c_published (thread_step b) = c_published b \<and> c_input (thread_step b) = c_input b \<and>
   (c_pc (thread_step b) \<noteq> Finished \<longrightarrow> c_pc b \<noteq> Finished)"
  by (auto simp: thread_step_def split: cdc_pc.splits list.splits)

lemma primary_inv_step:
  assumes "primary_inv v0 s" and "primary_step s t"
  shows "primary_inv v0 t"
  using assms(2)
proof (cases rule: primary_step.cases)
  case (notify payload)
  then show ?thesis using assms(1) primary_inv_observe by (cases s) simp
next
  case (thread sv b)
  then show ?thesis using assms(1) thread_step_keeps [of b] cdc_inv_thread [of v0 b] by (auto simp: primary_inv_def)
next
  case (stopped sv b)
  then show ?thesis using assms(1) by (auto simp: primary_inv_def stop_def cdc_inv_def)
next
  case (closed b sv)
  then show ?thesis using assms(1) by (auto simp: primary_inv_def cdc_inv_def)
qed

lemma primary_inv_init: "primary_inv v0 (0, bridge_primary v0)"
  by (simp add: primary_inv_def bridge_primary_def numbered_def cdc_inv_new) (simp add: bridge_new_def)

interpretation prim: invariant_system "\<lambda>s. s = (0, bridge_primary v0)" primary_step "primary_inv v0"
  by unfold_locales (auto intro: primary_inv_init primary_inv_step)

lemma numbered_sorted:
  assumes "numbered txns" and "length txns < 2 ^ 64"
  shows "sorted (map end_lsn txns)"
proof -
  have lsn: "unat (end_lsn (txns ! i)) = Suc i" if "i < length txns" for i
  proof -
    from assms(1) that have "end_lsn (txns ! i) = of_nat (Suc i)" unfolding numbered_def observed_transaction_def by fastforce
    then show ?thesis using that assms(2) by (simp add: unat_of_nat del: of_nat_Suc)
  qed
  show ?thesis
    unfolding sorted_iff_nth_mono using lsn by (auto simp: word_le_nat_alt)
qed

lemma numbered_prefix: "numbered txns \<Longrightarrow> prefix p txns \<Longrightarrow> numbered p"
  by (auto simp: numbered_def prefix_def nth_append) (metis length_append trans_less_add1)

text \<open>An observed transaction is relevant to exactly the queries over its table, anchored or not.\<close>

definition concerns :: "string list \<Rightarrow> committed_transaction \<Rightarrow> bool" where
  "concerns ts txn \<longleftrightarrow> (\<exists>change \<in> set (changes txn). to_ascii_lowercase (change_table change) \<in> to_ascii_lowercase ` set ts)"

lemma anchor_table: "anchor vi ts fs = Some (t, c, v) \<Longrightarrow> to_ascii_lowercase ` set ts = {t}"
  by (auto simp: anchor_def Let_def split: list.splits option.splits)

lemma observed_relevant:
  "relevant vi (observed_transaction x lsn table) (ts, fs) \<longleftrightarrow> concerns ts (observed_transaction x lsn table)"
proof (cases "anchor vi ts fs")
  case (Some k)
  obtain t c v where k: "k = (t, c, v)" by (cases k)
  then have "concerns ts (observed_transaction x lsn table) \<longleftrightarrow> to_ascii_lowercase table = t"
    using anchor_table Some by (simp add: concerns_def observed_transaction_def)
  then show ?thesis
    using Some k by (simp add: relevant_def change_relevant_def observed_transaction_def Let_def written_keys_def)
qed (simp add: relevant_def change_relevant_def observed_transaction_def concerns_def)

lemma numbered_relevant:
  assumes "numbered txns" and "txn \<in> set txns"
  shows "relevant vi txn (ts, fs) \<longleftrightarrow> concerns ts txn"
proof -
  from assms(2) obtain i where "i < length txns" "txn = txns ! i" by (auto simp: in_set_conv_nth)
  then show ?thesis using assms(1) observed_relevant unfolding numbered_def by fastforce
qed

lemma cdc_inv_handled: "cdc_inv v0 b \<Longrightarrow> prefix (c_sent b @ advanced (c_pc b)) (c_published b)"
  by (cases "c_pc b") (auto simp: cdc_inv_def)

subsection \<open>What opening leaves behind\<close>

lemma neutral_read_world [simp, intro]: "neutral (read_world f)"
  by (simp add: neutral_def leaves_def yields_def read_world_def)

lemma leaves_open_db:
  "leaves (open_db eng on_error dir opts) H (\<lambda>r G. G = (if is_ok r then insert RDb H else H))"
  unfolding leaves_def yields_def
proof
  fix s
  show "\<exists>cs. trace (snd (open_db eng on_error dir opts s)) = trace s @ cs \<and>
      still_held cs H = (if is_ok (fst (open_db eng on_error dir opts s)) then insert RDb H else H)"
    by (cases "eng (Open dir opts) (world s)"; cases "fst (eng (Open dir opts) (world s))")
      (auto simp: open_db_def acquire_def)
qed

lemma leaves_or_close_general:
  assumes "leaves m H P" and "\<And>a G. P (Inr a) G \<Longrightarrow> Q (Inr a) G" and "\<And>e G. P (Inl e) G \<Longrightarrow> Q (Inl e) (G - {RDb})"
  shows "leaves (or_close eng m) H Q"
  unfolding or_close_def
proof (rule leaves_try_then, rule leaves_weaken [OF assms(1)])
  fix r G
  assume "P r G"
  then show "leaves (case r of Inr a \<Rightarrow> return_prog a | Inl error \<Rightarrow> bind_prog (issue_ignored eng Close) (\<lambda>_. fail_prog error)) G Q"
    using assms(2,3) by (cases r) (auto intro!: leaves_rules)
qed

lemma leaves_or_close:
  "neutral m \<Longrightarrow> leaves (or_close eng m) H (\<lambda>r G. G = (if is_ok r then H else H - {RDb}))"
  by (rule leaves_or_close_general [OF neutralD]) simp_all

lemma neutral_scan_schema [intro]: "neutral (scan_schema eng)"
  unfolding scan_schema_def by (intro neutral_bind neutral_issue neutral_lift neutral_return) simp_all

lemma leaves_observer_start:
  assumes "RListen \<notin> H"
  shows "leaves (observer_start eng pid ts) H (\<lambda>r G. G = (if is_ok r then insert RListen H else H))"
  unfolding observer_start_def Let_def
  by (intro leaves_issue_then leaves_acquire_then leaves_try_then leaves_weaken [OF leaves_issue])
    (use assms in \<open>auto intro!: leaves_rules split: sum.splits\<close>)

lemma leaves_observer_shutdown:
  "leaves (observer_shutdown eng hst channel) H (\<lambda>r G. G = H - {RListen})"
  unfolding observer_shutdown_def by (intro leaves_perform_ignored_then leaves_issue_then leaves_return) simp_all

lemma neutral_recover [intro]: "neutral (recover_primary hst os dir)"
  unfolding neutral_def leaves_def yields_def
  by (auto simp: recover_primary_def remove_pid_file_def Let_def split: sum.splits option.splits io_error.splits prod.splits)

lemma neutral_ensure_database [intro]: "neutral (ensure_database eng database)"
  unfolding ensure_database_def by (auto intro!: neutral_bind neutral_issue)

text \<open>Whatever opening returns, the engine is out exactly when it succeeded.\<close>

lemma switch_database_out:
  assumes "RDb \<in> H"
  shows "leaves (bind_prog (or_close eng (ensure_database eng database)) (\<lambda>_.
      bind_prog (issue eng Close) (\<lambda>_. open_db eng err dir opts))) H (\<lambda>r G. G = (if is_ok r then H else H - {RDb}))"
  using assms
  by (auto intro!: leaves_bind [OF leaves_or_close [OF neutral_ensure_database]] leaves_issue_then leaves_weaken [OF leaves_open_db])

lemma open_primary_db_out:
  "leaves (open_primary_db eng hst os pg_display src) {} (\<lambda>r G. G = (if is_ok r then {RDb} else {}))"
proof -
  let ?Q = "\<lambda>r G. G = (if is_ok r then {RDb} else {})"
  have dsn: "leaves (or_close eng (bind_prog (read_world (os_uri os)) (\<lambda>uri. lift_prog (primary_dsn uri (ps_database src))))) {RDb} ?Q"
    by (rule leaves_weaken [OF leaves_or_close]) auto
  have database: "leaves (if ps_database src = ''postgres'' then return_prog ()
      else bind_prog (or_close eng (ensure_database eng (ps_database src))) (\<lambda>_.
           bind_prog (issue eng Close) (\<lambda>_. open_db eng err dir opts))) {RDb} ?Q" for err dir opts
  proof -
    have "leaves (bind_prog (or_close eng (ensure_database eng (ps_database src))) (\<lambda>_.
        bind_prog (issue eng Close) (\<lambda>_. open_db eng err dir opts))) {RDb} ?Q"
      by (rule leaves_weaken [OF switch_database_out]) auto
    then show ?thesis by (cases "ps_database src = ''postgres''") (simp_all add: leaves_def yields_return)
  qed
  have opened: "leaves (bind_prog (open_db eng err dir opts) (\<lambda>_. bind_prog switch (\<lambda>_. finish))) {} ?Q"
    if "leaves switch {RDb} ?Q" and "leaves finish {RDb} ?Q"
    for err dir opts and switch :: "('a, unit) prog" and finish :: "('a, string) prog"
    by (rule leaves_bind [OF leaves_open_db]) (auto intro!: leaves_bind [OF that(1)] that(2))
  show ?thesis
    unfolding open_primary_db_def Let_def
    by (intro leaves_neutral_then neutral_lift neutral_recover opened database dsn) simp_all
qed

lemma recover_cases:
  assumes "recover_primary hst os data_dir s = (r, t)"
  obtains (unread) e where "os_read os (pid_path data_dir) (world s) = Inl e" "t = s"
            "r = (case e of NotFound _ \<Rightarrow> Inr () | OtherIo m \<Rightarrow> Inl (lifecycle Recovery m))"
        | (invalid) ls where "os_read os (pid_path data_dir) (world s) = Inr ls" "owner_pid ls = None" "t = s"
            "r = Inl (lifecycle Recovery (''invalid ownership metadata in '' @ pid_path data_dir))"
        | (stale) ls pid k where "os_read os (pid_path data_dir) (world s) = Inr ls" "owner_pid ls = Some pid" "1 < pid"
            "os_kill os pid (world s) = (k, Some 3)" "k \<noteq> 0"
            "trace t = trace s @ [Host (RemoveFile (pid_path data_dir))]" "r = Inr () \<or> (\<exists>m. r = Inl (lifecycle Recovery m))"
        | (busy) ls pid where "os_read os (pid_path data_dir) (world s) = Inr ls" "owner_pid ls = Some pid"
            "process_is_alive os pid (world s)" "t = s" "r = Inl (lifecycle DataDirectoryBusy data_dir)"
proof (cases "os_read os (pid_path data_dir) (world s)")
  case (Inl e)
  from Inl have "recover_primary hst os data_dir s = (case e of NotFound _ \<Rightarrow> Inr () | OtherIo m \<Rightarrow> Inl (lifecycle Recovery m), s)"
    by (cases e) (simp_all add: recover_primary_def)
  then have "t = s" "r = (case e of NotFound _ \<Rightarrow> Inr () | OtherIo m \<Rightarrow> Inl (lifecycle Recovery m))"
    unfolding assms by simp_all
  then show ?thesis using unread [OF Inl] by blast
next
  case read: (Inr ls)
  show ?thesis
  proof (cases "owner_pid ls")
    case None
    then have "recover_primary hst os data_dir s = (Inl (lifecycle Recovery (''invalid ownership metadata in '' @ pid_path data_dir)), s)"
      using read by (simp add: recover_primary_def)
    then show ?thesis using invalid [OF read None] unfolding assms by blast
  next
    case (Some pid)
    show ?thesis
    proof (cases "process_is_alive os pid (world s)")
      case True
      then have "recover_primary hst os data_dir s = (Inl (lifecycle DataDirectoryBusy data_dir), s)"
        using read Some by (simp add: recover_primary_def)
      then show ?thesis using busy [OF read Some True] unfolding assms by blast
    next
      case False
      then obtain k where k: "1 < pid" "os_kill os pid (world s) = (k, Some 3)" "k \<noteq> 0"
        by (auto simp: process_is_alive_def split: if_splits prod.splits)
      obtain q w where q: "hst (RemoveFile (pid_path data_dir)) (world s) = (q, w)" by (cases "hst (RemoveFile (pid_path data_dir)) (world s)")
      from assms read Some False have "remove_pid_file hst (pid_path data_dir) s = (r, t)" by (simp add: recover_primary_def)
      then have "trace t = trace s @ [Host (RemoveFile (pid_path data_dir))]" "r = Inr () \<or> (\<exists>m. r = Inl (lifecycle Recovery m))"
        using q by (auto simp: remove_pid_file_def split: sum.splits io_error.splits)
      then show ?thesis using stale [OF read Some k] by blast
    qed
  qed
qed

subsection \<open>Properties\<close>

text \<open>
  C12: on a primary the versions follow the notifications.  Under every interleaving of notifications
  with the steps of the bridge's thread, and as long as fewer than \<open>2\<^sup>6\<^sup>4\<close> notifications were published,
  the transactions made from them are in LSN order, and the version of any query, anchored or not,
  is the LSN of the last one handled so far that names one of its tables, up to ASCII case, and zero
  when there is none.
\<close>

theorem primary_versions_follow_notifications:
  assumes "primary_step\<^sup>*\<^sup>* (0, bridge_primary (version_index_new pk full)) (sv, b)"
    and "length (c_published b) < 2 ^ 64"
  shows "sorted (map end_lsn (c_published b)) \<and>
         version_of (c_versions b) ts fs =
           (let rs = filter (concerns ts) (c_sent b @ advanced (c_pc b)) in if rs = [] then 0 else end_lsn (last rs))"
proof -
  let ?v0 = "version_index_new pk full" and ?done = "c_sent b @ advanced (c_pc b)"
  have inv: "primary_inv ?v0 (sv, b)" using prim.inv_reachable [OF refl assms(1)] .
  then have c: "cdc_inv ?v0 b" and n: "numbered (c_published b)" by (simp_all add: primary_inv_def)
  note handled = cdc_inv_handled [OF c]
  have nd: "numbered ?done" using n handled by (rule numbered_prefix)
  have "sorted (map end_lsn ?done)"
    using numbered_sorted [OF nd] prefix_length_le [OF handled] assms(2) by simp
  from version_of_log [OF this] have v: "version_of (c_versions b) ts fs =
      (let rs = filter (\<lambda>txn. relevant ?v0 txn (ts, fs)) ?done in if rs = [] then 0 else end_lsn (last rs))"
    using c by (simp add: cdc_inv_def)
  have eq: "filter (\<lambda>txn. relevant ?v0 txn (ts, fs)) ?done = filter (concerns ts) ?done"
    by (rule filter_cong [OF refl]) (rule numbered_relevant [OF nd])
  show ?thesis using numbered_sorted [OF n assms(2)] v unfolding eq by blast
qed

definition sample_observed :: "u64 \<times> cdc_bridge" where
  "sample_observed =
     (let (sv, b) = observe (0, bridge_primary (version_index_new [(''users'', ''id'')] [])) ''7:Users''
      in (sv, (thread_step ^^ 3) b))"

theorem primary_versions_follow_notifications_witness:
  "version_of (c_versions (snd sample_observed)) [''users''] [(''id'', ''3'')] = 1"
proof -
  let ?v0 = "version_index_new [(''users'', ''id'')] []"
  have p: "read_payload ''7:Users'' = Some (7, ''Users'')"
  proof -
    have d: "split_once (CHR '':'') ''7:Users'' = Some (''7'', ''Users'')" "digits_value ''7'' = 7" "is_ascii_digit (CHR ''7'')"
      by code_simp+
    have "parse_unsigned (2 ^ 32) ''7'' = Some 7"
      unfolding parse_unsigned_def Let_def list.case using d by simp
    then show ?thesis unfolding read_payload_def d(1) by simp
  qed
  have o: "observe (0, bridge_primary ?v0) ''7:Users'' = (1, enqueue (observed_transaction 7 1 ''Users'') (bridge_primary ?v0))"
    by (simp add: observe_def p publish_def bridge_primary_def bridge_new_def)
  let ?b = "enqueue (observed_transaction 7 1 ''Users'') (bridge_primary ?v0)"
  have s: "sample_observed = (1, thread_step (thread_step (thread_step ?b)))"
    by (simp add: sample_observed_def o eval_nat_numeral)
  have "primary_step (0, bridge_primary ?v0) (1, ?b)" using notify [of "(0, bridge_primary ?v0)" "''7:Users''"] by (simp add: o)
  then have reach: "primary_step\<^sup>*\<^sup>* (0, bridge_primary ?v0) (1, thread_step (thread_step (thread_step ?b)))"
    by (meson thread converse_rtranclp_into_rtranclp rtranclp.rtrancl_refl)
  have pub: "c_published (thread_step (thread_step (thread_step ?b))) = [observed_transaction 7 1 ''Users'']"
    "c_sent (thread_step (thread_step (thread_step ?b))) @ advanced (c_pc (thread_step (thread_step (thread_step ?b)))) = [observed_transaction 7 1 ''Users'']"
    by (simp_all add: thread_step_def enqueue_def bridge_primary_def bridge_new_def)
  have lsn: "end_lsn (observed_transaction 7 1 ''Users'') = 1" by (simp add: observed_transaction_def)
  have con: "concerns [''users''] (observed_transaction 7 1 ''Users'')"
  proof -
    have "to_ascii_lowercase ''Users'' = to_ascii_lowercase ''users''" by code_simp
    then show ?thesis by (simp add: concerns_def observed_transaction_def)
  qed
  show ?thesis
    using primary_versions_follow_notifications [OF reach, of "[''users'']" "[(''id'', ''3'')]"]
    unfolding s pub snd_conv using lsn by (simp add: con)
qed

text \<open>
  C32: recovery removes the ownership file of a data directory only when the file names a process
  other than 0, 1 and the negative group identifiers, and the probe of that process fails with \<open>ESRCH\<close>.
  It succeeds only in that case or when there is no such file, and reports a busy directory exactly
  for a live owner; nothing else is ever touched.
\<close>

theorem ownership_file_removed_only_if_stale:
  assumes "recover_primary hst os data_dir s = (r, t)"
  shows "(trace t = trace s \<or> trace t = trace s @ [Host (RemoveFile (pid_path data_dir))]) \<and>
         (trace t \<noteq> trace s \<longrightarrow>
            (\<exists>text pid k. os_read os (pid_path data_dir) (world s) = Inr text \<and> owner_pid text = Some pid \<and> 1 < pid \<and>
               os_kill os pid (world s) = (k, Some 3) \<and> k \<noteq> 0)) \<and>
         (r = Inr () \<and> trace t = trace s \<longrightarrow> (\<exists>m. os_read os (pid_path data_dir) (world s) = Inl (NotFound m))) \<and>
         (r = Inl (lifecycle DataDirectoryBusy data_dir) \<longleftrightarrow>
            (\<exists>text pid. os_read os (pid_path data_dir) (world s) = Inr text \<and> owner_pid text = Some pid \<and>
               process_is_alive os pid (world s)))"
  using assms
proof (cases rule: recover_cases)
  case (unread e)
  then show ?thesis by (cases e) (auto simp: lifecycle_def)
next
  case (invalid ls)
  then show ?thesis by (auto simp: lifecycle_def)
next
  case (stale ls pid k)
  then have "\<not> process_is_alive os pid (world s)" by (simp add: process_is_alive_def)
  then show ?thesis using stale by (auto simp: lifecycle_def)
next
  case (busy ls pid)
  then show ?thesis by (auto simp: lifecycle_def)
qed

definition stale_os :: "unit os" where
  "stale_os = \<lparr>os_read = (\<lambda>p w. Inr (''123'' @ [CHR 0x0A])), os_kill = (\<lambda>pid w. (-1, Some 3)), os_uri = (\<lambda>w. None)\<rparr>"

theorem ownership_file_removed_only_if_stale_witness:
  "\<exists>t text pid k. recover_primary (\<lambda>a w. (Inr [], w)) stale_os ''d'' \<lparr>world = (), trace = []\<rparr> = (Inr (), t) \<and>
     os_read stale_os (pid_path ''d'') () = Inr text \<and> owner_pid text = Some pid \<and> os_kill stale_os pid () = (k, Some 3)"
proof -
  let ?run = "recover_primary (\<lambda>a w. (Inr [], w)) stale_os ''d'' \<lparr>world = (), trace = []\<rparr>"
  have o: "owner_pid (''123'' @ [CHR 0x0A]) = Some 123" by code_simp
  have r: "?run = (Inr (), snd ?run)" "trace (snd ?run) \<noteq> []"
    using o by (simp_all add: recover_primary_def remove_pid_file_def stale_os_def process_is_alive_def)
  from ownership_file_removed_only_if_stale [OF r(1)] r show ?thesis by auto
qed

end
