(* ===== verification/Setup.thy ===== *)
theory Setup
  imports Primary
begin

text \<open>
  \<open>src/db/setup.rs\<close>, \<open>src/db/shadow.rs\<close> and the upstream part of \<open>src/api/config.rs\<close>: preparing an
  upstream server for replication (\<open>pgpaw init\<close>), the check before a replica starts, and the shadow
  engine.  The upstream client is reached through the host; its connection always has the \<open>NoTls\<close>
  setting, which is therefore not a parameter of \<open>UpConnect\<close>.  A column is read with the type its
  query gives it; the replies of a server that answers with another type are treated as an
  upstream error.

  The lemmas show which statements \<open>init\<close> may send and when, and what a successful check means.
\<close>

definition upstream_error :: "io_error \<Rightarrow> cache_error" where
  "upstream_error e = Upstream (io_display e)"

subsection \<open>Configuration\<close>

definition upstream_default :: upstream_config where
  "upstream_default =
     \<lparr>up_host = ''127.0.0.1'', up_port = 5432, up_user = ''postgres'', up_password = [], up_database = ''postgres'',
      up_sslmode = ''disable''\<rparr>"

definition sslmode :: "upstream_config \<Rightarrow> ssl_mode" where
  "sslmode up =
     (let m = to_ascii_lowercase (up_sslmode up)
      in if m = ''prefer'' then SslPrefer
         else if m = ''require'' then SslRequire
         else if m \<in> {''verify-full'', ''verify_full'', ''verifyfull''} then SslVerifyFull
         else SslDisable)"

subsection \<open>The upstream client\<close>

definition connect :: "'w host \<Rightarrow> upstream_config \<Rightarrow> ('w, unit) prog" where
  "connect hst up = bind_prog (perform hst upstream_error (UpConnect up)) (\<lambda>_. return_prog ())"

definition one_row :: "row list \<Rightarrow> (row \<Rightarrow> 'a result) \<Rightarrow> 'a result" where
  "one_row rows f =
     (case rows of
        [r] \<Rightarrow> map_err (\<lambda>_. Upstream ''unexpected column type'') (f r)
      | _ \<Rightarrow> Inl (Upstream ''query returned an unexpected number of rows''))"

definition setting_query :: string where
  "setting_query = ''select current_setting($1)''"

definition setting :: "'w host \<Rightarrow> string \<Rightarrow> ('w, string) prog" where
  "setting hst name =
     bind_prog (perform hst upstream_error (UpQuery setting_query [name])) (\<lambda>rows.
       lift_prog (one_row rows (\<lambda>r. get_text r 0)))"

text \<open>\<open>parse().unwrap_or(0)\<close> on \<open>i64\<close>.\<close>

definition setting_int :: "'w host \<Rightarrow> string \<Rightarrow> ('w, int) prog" where
  "setting_int hst name =
     bind_prog (setting hst name) (\<lambda>t. return_prog (case parse_signed 64 t of Some n \<Rightarrow> n | None \<Rightarrow> 0))"

definition publication_query :: string where
  "publication_query = ''select exists(select 1 from pg_publication where pubname = $1)''"

definition get_bool :: "row \<Rightarrow> nat \<Rightarrow> bool result" where
  "get_bool r i = (case cell_at r i of Some (CBool b) \<Rightarrow> Inr b | _ \<Rightarrow> Inl (Pglite (OtherPg ''column'')))"

definition publication_exists :: "'w host \<Rightarrow> string \<Rightarrow> ('w, bool) prog" where
  "publication_exists hst publication =
     bind_prog (perform hst upstream_error (UpQuery publication_query [publication])) (\<lambda>rows.
       lift_prog (one_row rows (\<lambda>r. get_bool r 0)))"

definition alter_system_sql :: "string \<Rightarrow> string \<Rightarrow> string" where
  "alter_system_sql param v = ''ALTER SYSTEM SET '' @ param @ '' = '' @ [CHR 0x27] @ v @ [CHR 0x27]"

definition alter_system :: "'w host \<Rightarrow> string \<Rightarrow> string \<Rightarrow> ('w, bool) prog" where
  "alter_system hst param v =
     bind_prog (try_prog (perform hst upstream_error (UpExec (alter_system_sql param v)))) (\<lambda>r. return_prog (is_ok r))"

subsection \<open>The check before a replica starts\<close>

definition connect_error :: "(pg_error \<Rightarrow> string) \<Rightarrow> upstream_config \<Rightarrow> cache_error \<Rightarrow> cache_error" where
  "connect_error pg_display up e =
     Config (''Could not connect to upstream Postgres at '' @ up_host up @ '':'' @ show_nat (unat (up_port up)) @ '' as '' @ up_user up @
       '' ('' @ error_display pg_display e @ ''). Check --pg-host, --pg-port, --pg-user, and --pg-password.'')"

definition wal_level_error :: "string \<Rightarrow> cache_error" where
  "wal_level_error wal_level =
     Config (''Upstream Postgres has wal_level='' @ [CHR 0x27] @ wal_level @ [CHR 0x27] @ '', but PgPaw requires '' @
       [CHR 0x27] @ ''logical'' @ [CHR 0x27] @ ''. Run `pgpaw init`; if it changes WAL settings, restart Postgres before `pgpaw serve`.'')"

definition low_setting_error :: "string \<Rightarrow> int \<Rightarrow> cache_error" where
  "low_setting_error param v =
     Config (''Upstream Postgres has '' @ param @ ''='' @
       (if v < 0 then ''-'' @ show_nat (nat (- v)) else show_nat (nat v)) @
       '', but PgPaw requires at least 1. Run `pgpaw init`; if it changes WAL settings, restart Postgres before `pgpaw serve`.'')"

definition no_publication_error :: "string \<Rightarrow> cache_error" where
  "no_publication_error publication =
     Config (''Publication '' @ [CHR 0x22] @ publication @ [CHR 0x22] @
       '' does not exist on upstream Postgres. Run `pgpaw init` to create it, or pass --publication with an existing publication.'')"

fun check_settings :: "'w host \<Rightarrow> string list \<Rightarrow> ('w, unit) prog" where
  "check_settings hst [] = return_prog ()"
| "check_settings hst (param # params) =
     bind_prog (setting_int hst param) (\<lambda>v.
       if v < 1 then fail_prog (low_setting_error param v) else check_settings hst params)"

definition wal_params :: "string list" where
  "wal_params = [''max_wal_senders'', ''max_replication_slots'']"

definition preflight :: "'w host \<Rightarrow> (pg_error \<Rightarrow> string) \<Rightarrow> upstream_config \<Rightarrow> string \<Rightarrow> ('w, unit) prog" where
  "preflight hst pg_display up publication =
     bind_prog (map_err_prog (connect_error pg_display up) (connect hst up)) (\<lambda>_.
     bind_prog (setting hst ''wal_level'') (\<lambda>wal_level.
       if wal_level \<noteq> ''logical'' then fail_prog (wal_level_error wal_level)
       else bind_prog (check_settings hst wal_params) (\<lambda>_.
            bind_prog (publication_exists hst publication) (\<lambda>there.
              if \<not> there then fail_prog (no_publication_error publication) else return_prog ()))))"

subsection \<open>Preparing the upstream server\<close>

text \<open>The three ways the run ends, by what it prints last.\<close>

datatype init_end = ManualSettings | RestartRequired | Ready

definition is_identifier :: "string \<Rightarrow> bool" where
  "is_identifier name \<longleftrightarrow> name \<noteq> [] \<and> list_all (\<lambda>c. is_ascii_alphanumeric c \<or> c = CHR ''_'') name"

definition confirm :: "io_error + string \<Rightarrow> bool" where
  "confirm input = (case input of Inl _ \<Rightarrow> False | Inr line \<Rightarrow> to_ascii_lowercase (trim line) \<in> {''y'', ''yes''})"

definition create_publication :: "string \<Rightarrow> string" where
  "create_publication publication = ''CREATE PUBLICATION '' @ [CHR 0x22] @ publication @ [CHR 0x22] @ '' FOR ALL TABLES''"

text \<open>\<open>pre\<close> is the constant \<open>pglite::DDL_SIGNAL_PREFIX\<close> of the engine package.\<close>

definition ddl_trigger_sql :: "string \<Rightarrow> string" where
  "ddl_trigger_sql pre =
     ''CREATE OR REPLACE FUNCTION pglite_emit_ddl() RETURNS event_trigger LANGUAGE plpgsql AS $fn$ BEGIN PERFORM pg_logical_emit_message(true, '' @
     [CHR 0x27] @ pre @ [CHR 0x27] @ '', '' @ [CHR 0x27, CHR 0x27] @
     ''); END $fn$; DROP EVENT TRIGGER IF EXISTS pglite_ddl_watch; CREATE EVENT TRIGGER pglite_ddl_watch ON ddl_command_end EXECUTE FUNCTION pglite_emit_ddl();''"

definition install_ddl_trigger :: "'w host \<Rightarrow> string \<Rightarrow> ('w, unit) prog" where
  "install_ddl_trigger hst pre = bind_prog (perform hst upstream_error (UpExec (ddl_trigger_sql pre))) (\<lambda>_. return_prog ())"

text \<open>The flags say whether a restart and whether manual settings are needed.\<close>

definition apply_wal_level :: "'w host \<Rightarrow> ('w, bool \<times> bool) prog" where
  "apply_wal_level hst =
     bind_prog (setting hst ''wal_level'') (\<lambda>wal_level.
       if wal_level = ''logical'' then return_prog (False, False)
       else bind_prog (alter_system hst ''wal_level'' ''logical'') (\<lambda>changed. return_prog (changed, \<not> changed)))"

fun apply_settings :: "'w host \<Rightarrow> bool \<times> bool \<Rightarrow> string list \<Rightarrow> ('w, bool \<times> bool) prog" where
  "apply_settings hst flags [] = return_prog flags"
| "apply_settings hst (restart, manual) (param # params) =
     bind_prog (setting_int hst param) (\<lambda>current.
       if current < 10 then
         bind_prog (alter_system hst param ''10'') (\<lambda>changed.
           apply_settings hst (if changed then (True, manual) else (restart, True)) params)
       else apply_settings hst (restart, manual) params)"

definition apply_init :: "'w host \<Rightarrow> string \<Rightarrow> string \<Rightarrow> ('w, init_end) prog" where
  "apply_init hst pre publication =
     bind_prog (apply_wal_level hst) (\<lambda>flags.
     bind_prog (apply_settings hst flags wal_params) (\<lambda>(needs_restart, needs_manual_settings).
     bind_prog (publication_exists hst publication) (\<lambda>there.
     bind_prog
       (if there then return_prog ()
        else bind_prog (perform hst upstream_error (UpExec (create_publication publication))) (\<lambda>_. return_prog ())) (\<lambda>_.
     bind_prog (try_prog (install_ddl_trigger hst pre)) (\<lambda>_.
       return_prog (if needs_manual_settings then ManualSettings else if needs_restart then RestartRequired else Ready))))))"

definition init :: "'w host \<Rightarrow> string \<Rightarrow> upstream_config \<Rightarrow> string \<Rightarrow> io_error + string \<Rightarrow> ('w, init_end option) prog" where
  "init hst pre up publication input =
     (if \<not> is_identifier publication then
        fail_prog (Config (''Invalid publication name `'' @ publication @ ''`. Use only letters, digits, and underscore.''))
      else if \<not> confirm input then return_prog None
      else bind_prog (connect hst up) (\<lambda>_.
           bind_prog (apply_init hst pre publication) (\<lambda>ended. return_prog (Some ended))))"

subsection \<open>The shadow engine\<close>

definition shadow_options :: "db_options \<Rightarrow> db_options" where
  "shadow_options defaults = defaults\<lparr>opt_listen := None, opt_port := None, opt_max_connections := 4\<rparr>"

text \<open>\<open>tmp\<close> is the outcome of \<open>tempfile::tempdir\<close>; the handle owns the engine and is dropped with it.\<close>

definition open_shadow ::
  "'w engine \<Rightarrow> 'w os \<Rightarrow> (pg_error \<Rightarrow> string) \<Rightarrow> db_options \<Rightarrow> io_error + string \<Rightarrow> ('w, string) prog" where
  "open_shadow eng os pg_display defaults tmp =
     bind_prog (lift_prog (map_err Io tmp)) (\<lambda>data_dir.
     bind_prog (open_db eng (\<lambda>e w. lifecycle Startup (pg_display e)) data_dir (shadow_options defaults)) (\<lambda>_.
     bind_prog (read_world (os_uri os)) (\<lambda>uri.
       lift_prog (case uri of Some dsn \<Rightarrow> Inr dsn | None \<Rightarrow> Inl (Config ''shadow engine exposes no connection_uri'')))))"

subsection \<open>Lemmas\<close>

text \<open>
  \<open>confined m P\<close>: every command \<open>m\<close> issues satisfies \<open>P\<close>.
\<close>

definition confined :: "('w, 'a) prog \<Rightarrow> (db_cmd \<Rightarrow> bool) \<Rightarrow> bool" where
  "confined m P \<longleftrightarrow> yields m (\<lambda>r cs. \<forall>c \<in> set cs. P c)"

lemma confined_return [intro]: "confined (return_prog a) P"
  by (simp add: confined_def yields_return)

lemma confined_fail [intro]: "confined (fail_prog e) P"
  by (simp add: confined_def yields_fail)

lemma confined_lift [intro]: "confined (lift_prog r) P"
  by (simp add: confined_def yields_lift)

lemma confined_perform [intro]: "P (Host a) \<Longrightarrow> confined (perform hst on_error a) P"
  unfolding confined_def by (rule yields_perform) simp_all

lemma confined_try [intro]: "confined m P \<Longrightarrow> confined (try_prog m) P"
  unfolding confined_def by (rule yields_try)

lemma confined_bind [intro]:
  assumes "confined m P" and "\<And>a. confined (f a) P"
  shows "confined (bind_prog m f) P"
  unfolding confined_def
proof (rule yields_bind, rule yields_weaken [OF assms(1) [unfolded confined_def]])
  fix r cs
  assume cs: "\<forall>c \<in> set cs. P c"
  have "yields (f a) (\<lambda>r' ds. \<forall>c \<in> set (cs @ ds). P c)" for a
    by (rule yields_weaken [OF assms(2) [unfolded confined_def]]) (use cs in auto)
  then show "case r of Inl e \<Rightarrow> \<forall>c \<in> set cs. P c | Inr a \<Rightarrow> yields (f a) (\<lambda>r' ds. \<forall>c \<in> set (cs @ ds). P c)"
    using cs by (cases r) simp_all
qed

text \<open>The commands \<open>init\<close> may send for a publication.\<close>

definition init_command :: "upstream_config \<Rightarrow> string \<Rightarrow> string \<Rightarrow> db_cmd \<Rightarrow> bool" where
  "init_command up pre publication c \<longleftrightarrow>
     c = Host (UpConnect up) \<or> (\<exists>name. c = Host (UpQuery setting_query [name])) \<or>
     c = Host (UpQuery publication_query [publication]) \<or>
     c = Host (UpExec (alter_system_sql ''wal_level'' ''logical'')) \<or>
     (\<exists>param \<in> set wal_params. c = Host (UpExec (alter_system_sql param ''10''))) \<or>
     c = Host (UpExec (create_publication publication)) \<or> c = Host (UpExec (ddl_trigger_sql pre))"

lemma apply_settings_confined:
  "set params \<subseteq> set wal_params \<Longrightarrow> confined (apply_settings hst flags params) (init_command up pre publication)"
proof (induction hst flags params rule: apply_settings.induct)
  case (2 hst restart manual param params)
  then show ?case
    by (auto intro!: confined_bind confined_try confined_perform confined_return confined_lift
        simp: setting_int_def setting_def alter_system_def init_command_def)
qed auto

lemma apply_init_confined: "confined (apply_init hst pre publication) (init_command up pre publication)"
  unfolding apply_init_def apply_wal_level_def setting_def alter_system_def publication_exists_def install_ddl_trigger_def
  by (intro confined_bind; (rule apply_settings_confined)?)
    (auto intro!: confined_bind confined_try confined_perform confined_return confined_lift apply_settings_confined
      simp: init_command_def split: prod.splits)

lemma is_identifier_no_quote: "is_identifier name \<Longrightarrow> CHR 0x22 \<notin> set name"
  by (auto simp: is_identifier_def list_all_iff is_ascii_alphanumeric_def)

lemma create_publication_quoted:
  "is_identifier publication \<Longrightarrow> create_publication publication = ''CREATE PUBLICATION '' @ sql_ident publication @ '' FOR ALL TABLES''"
proof -
  assume "is_identifier publication"
  then have "CHR 0x22 \<notin> set publication" by (rule is_identifier_no_quote)
  then have "replace_char (CHR 0x22) [CHR 0x22, CHR 0x22] publication = publication"
    by (induction publication) (auto simp: replace_char_def)
  then show ?thesis by (simp add: create_publication_def sql_ident_def)
qed

text \<open>A successful check: the server answered every question as required.\<close>

definition up_answered :: "'w host \<Rightarrow> string \<Rightarrow> string \<Rightarrow> (row \<Rightarrow> bool) \<Rightarrow> bool" where
  "up_answered hst query param P \<longleftrightarrow> (\<exists>w r. fst (hst (UpQuery query [param]) w) = Inr [r] \<and> P r)"

lemma one_row_Inr: "one_row rows f = Inr a \<longleftrightarrow> (\<exists>r. rows = [r] \<and> f r = Inr a)"
  by (auto simp: one_row_def split: list.splits)

lemma setting_Inr:
  "setting hst name s = (Inr v, t) \<Longrightarrow> up_answered hst setting_query name (\<lambda>r. get_text r 0 = Inr v)"
  by (auto simp: setting_def bind_prog_Inr_iff one_row_Inr perform_def up_answered_def split: prod.splits) (metis fst_conv)

lemma check_settings_Inr:
  "check_settings hst params s = (Inr (), t) \<Longrightarrow> param \<in> set params \<Longrightarrow>
     \<exists>v n. up_answered hst setting_query param (\<lambda>r. get_text r 0 = Inr v) \<and> parse_signed 64 v = Some n \<and> 1 \<le> n"
proof (induction hst params arbitrary: s rule: check_settings.induct)
  case (2 hst p params)
  from "2.prems"(1) obtain v s' where v: "setting hst p s = (Inr v, s')"
      "\<not> (case parse_signed 64 v of Some n \<Rightarrow> n | None \<Rightarrow> 0) < 1" "check_settings hst params s' = (Inr (), t)"
    by (auto simp: bind_prog_Inr_iff setting_int_def split: if_splits)
  have "\<exists>n. parse_signed 64 v = Some n \<and> 1 \<le> n" using v(2) by (cases "parse_signed 64 v") auto
  then show ?case using setting_Inr [OF v(1)] "2.IH" [OF v(2,3)] "2.prems"(2) by auto
qed simp

text \<open>Nothing here is kept open: the client lives as long as its call.\<close>

lemma neutral_setting [intro]: "neutral (setting hst name)"
  unfolding setting_def by (intro neutral_bind neutral_perform neutral_lift) simp

lemma neutral_check_settings [intro]: "neutral (check_settings hst params)"
proof (induction hst params rule: check_settings.induct)
  case (1 hst)
  show ?case unfolding check_settings.simps by (rule neutral_return)
next
  case (2 hst param params)
  then show ?case by (auto simp: setting_int_def intro!: neutral_bind)
qed

lemma neutral_map_err: "neutral m \<Longrightarrow> neutral (map_err_prog h m)"
  unfolding neutral_def by (auto intro!: leaves_map_err)

lemma neutral_preflight [intro]: "neutral (preflight hst pg_display up publication)"
  unfolding preflight_def connect_def publication_exists_def
  by (auto intro!: neutral_bind neutral_map_err neutral_perform neutral_setting)

subsection \<open>Properties\<close>

text \<open>
  C33: \<open>init\<close> sends nothing upstream unless the publication name is an identifier and the user
  confirmed.  Then it connects first, and every statement it sends is one of the announced ones: the
  three settings, the publication, whose name is read back as given, and the event trigger.
\<close>

theorem init_is_confined:
  assumes "init hst pre up publication input s = (r, t)"
  shows "\<exists>cs. trace t = trace s @ cs \<and> (\<forall>c \<in> set cs. init_command up pre publication c) \<and>
     (cs \<noteq> [] \<longrightarrow> is_identifier publication \<and> confirm input \<and> hd cs = Host (UpConnect up)) \<and>
     (is_identifier publication \<longrightarrow> create_publication publication = ''CREATE PUBLICATION '' @ sql_ident publication @ '' FOR ALL TABLES'')"
proof (cases "is_identifier publication \<and> confirm input")
  case False
  then show ?thesis using assms create_publication_quoted by (intro exI [of _ "[]"]) (auto simp: init_def split: if_splits)
next
  case True
  have up_first: "init_command up pre publication (Host (UpConnect up))" by (simp add: init_command_def)
  let ?Q = "\<lambda>cs. (\<forall>c \<in> set cs. init_command up pre publication c) \<and> cs \<noteq> [] \<and> hd cs = Host (UpConnect up)"
  have conf: "yields (apply_init hst pre publication) (\<lambda>r cs. \<forall>c \<in> set cs. init_command up pre publication c)"
    using apply_init_confined by (simp add: confined_def)
  have "yields (init hst pre up publication input) (\<lambda>r cs. ?Q cs)"
    using True unfolding init_def connect_def
    by (auto intro!: yields_bind yields_perform yields_return yields_weaken [OF conf] simp: up_first split: sum.splits)
  from yieldsD [OF this assms] show ?thesis using True create_publication_quoted by blast
qed

theorem init_is_confined_witness:
  "\<exists>t. init (\<lambda>a w. (Inl (OtherIo ''down''), w)) ''p'' upstream_default ''pgpaw_pub'' (Inr ''yes'') \<lparr>world = (), trace = []\<rparr> =
       (Inl (Upstream ''down''), t) \<and> hd (trace t) = Host (UpConnect upstream_default)"
proof -
  let ?run = "init (\<lambda>a w. (Inl (OtherIo ''down''), w)) ''p'' upstream_default ''pgpaw_pub'' (Inr ''yes'') \<lparr>world = (), trace = []\<rparr>"
  have ok: "is_identifier ''pgpaw_pub''" "confirm (Inr ''yes'')" by code_simp+
  have r: "?run = (Inl (Upstream ''down''), snd ?run)" "trace (snd ?run) \<noteq> []"
    using ok by (simp_all add: init_def connect_def bind_prog_def perform_def upstream_error_def)
  from init_is_confined [OF r(1)] r show ?thesis by auto
qed

end
