(* ===== verification/Runtime.thy ===== *)
theory Runtime
  imports Unb Schema Setup
begin

text \<open>
  \<open>src/api/\<close> and \<open>src/source/\<close>: the builder, the assembly of a source, and the life of a running
  instance: opening with roll-back, attaching a binding, waiting for a binding to end, and shutting
  down.  The read operations of an instance are a function of the engine state they run on.
  Bindings are numbered in the order they start.  The packages are collected in \<open>rt_lib\<close>.

  The lemmas show that a failed opening gives back everything it acquired, that a shutdown releases
  everything an instance holds, whatever fails on the way, and when waiting returns.
\<close>

subsection \<open>Configuration\<close>

record replica_source =
  rsrc_upstream :: upstream_config
  rsrc_data_dir :: string
  rsrc_publication :: string
  rsrc_slot :: string
  rsrc_max_connections :: nat

definition replica_source_default :: replica_source where
  "replica_source_default =
     \<lparr>rsrc_upstream = upstream_default, rsrc_data_dir = ''./cache-data'', rsrc_publication = ''pgpaw_pub'',
      rsrc_slot = ''pgpaw_slot'', rsrc_max_connections = 8\<rparr>"

definition primary_source_default :: primary_source where
  "primary_source_default =
     \<lparr>ps_data_dir = ''./cache-data'', ps_database = ''postgres'', ps_listen = [], ps_port = 0,
      ps_min_connections = 0, ps_max_connections = 8\<rparr>"

definition primary_source_embedded :: "string \<Rightarrow> primary_source" where
  "primary_source_embedded data_dir = primary_source_default\<lparr>ps_data_dir := data_dir\<rparr>"

datatype pg_source = ReplicaOf replica_source | PrimaryOf primary_source

definition cache_default :: u64 where
  "cache_default = 268435456"

record http_config =
  hc_addr :: string
  hc_cors :: "string option"

text \<open>A unb binding is a node builder and a topology of that package; the model counts them.\<close>

record pgpaw_builder =
  b_source :: "pg_source option"
  b_cache :: u64
  b_auth :: auth_config
  b_http :: "http_config option"
  b_unb :: nat

definition builder :: pgpaw_builder where
  "builder = \<lparr>b_source = None, b_cache = cache_default, b_auth = auth_none, b_http = None, b_unb = 0\<rparr>"

definition with_source :: "pg_source \<Rightarrow> pgpaw_builder \<Rightarrow> pgpaw_builder" where
  "with_source src b = b\<lparr>b_source := Some src\<rparr>"

definition with_cache :: "u64 \<Rightarrow> pgpaw_builder \<Rightarrow> pgpaw_builder" where
  "with_cache c b = b\<lparr>b_cache := c\<rparr>"

definition with_auth :: "auth_config \<Rightarrow> pgpaw_builder \<Rightarrow> pgpaw_builder" where
  "with_auth a b = b\<lparr>b_auth := a\<rparr>"

definition with_http :: "http_config \<Rightarrow> pgpaw_builder \<Rightarrow> pgpaw_builder" where
  "with_http h b = b\<lparr>b_http := Some h\<rparr>"

definition with_unb :: "pgpaw_builder \<Rightarrow> pgpaw_builder" where
  "with_unb b = b\<lparr>b_unb := Suc (b_unb b)\<rparr>"

subsection \<open>The instance\<close>

datatype source_shutdown = ReplicaShutdown | PrimaryShutdown string

record ('w, 'm, 'k) pgpaw =
  pp_read :: "'w io \<Rightarrow> ('w, 'm, 'k) read_state"
  pp_dsn :: "string option"
  pp_source :: source_shutdown
  pp_http_handle :: bool
  pp_http_task :: bool
  pp_unb :: "nat list"

record ('w, 'm, 'k) rt_lib =
  rt_engine :: "'w engine"
  rt_host :: "'w host"
  rt_os :: "'w os"
  rt_pg_display :: "pg_error \<Rightarrow> string"
  rt_jwt :: "'k jwt_lib"
  rt_moka_new :: "u64 \<Rightarrow> 'm"
  rt_replica :: "replica_view"
  rt_pid :: nat
  rt_iter :: "string iter"
  rt_defaults :: db_options

text \<open>What an open instance offers; the operations act on the state of the reads under the world they are called in.\<close>

record 'w schema_ops =
  so_db :: "'w engine"

definition schema_ops_new :: "'w engine \<Rightarrow> 'w schema_ops" where
  "schema_ops_new db = \<lparr>so_db = db\<rparr>"

definition pgpaw_sql_operations :: "('w, 'm, 'k) pgpaw \<Rightarrow> string option \<Rightarrow> 'w io \<Rightarrow> 'k sql_operations" where
  "pgpaw_sql_operations pp public_role io = read_sql_operations public_role (pp_read pp io)"

definition pgpaw_schema_ops :: "('w, 'm, 'k) rt_lib \<Rightarrow> 'w schema_ops" where
  "pgpaw_schema_ops lib = schema_ops_new (rt_engine lib)"

definition pgpaw_primary_dsn :: "('w, 'm, 'k) pgpaw \<Rightarrow> string option" where
  "pgpaw_primary_dsn pp = pp_dsn pp"

definition pgpaw_live_subscription_count :: "('w, 'm, 'k) pgpaw \<Rightarrow> 'w io \<Rightarrow> nat" where
  "pgpaw_live_subscription_count pp io = Read.live_subscription_count (pp_read pp io)"

subsection \<open>Sources\<close>

definition public_role_sql :: string where
  "public_role_sql =
     ''DO $$ BEGIN IF NOT EXISTS (SELECT 1 FROM pg_roles WHERE rolname = '' @ [CHR 0x27] @ ''pgpaw_public'' @ [CHR 0x27] @
     '') THEN CREATE ROLE pgpaw_public NOLOGIN NOBYPASSRLS; END IF; END $$; GRANT USAGE ON SCHEMA public TO pgpaw_public; GRANT SELECT, INSERT, UPDATE, DELETE ON ALL TABLES IN SCHEMA public TO pgpaw_public; GRANT USAGE, SELECT ON ALL SEQUENCES IN SCHEMA public TO pgpaw_public; ALTER DEFAULT PRIVILEGES IN SCHEMA public GRANT SELECT, INSERT, UPDATE, DELETE ON TABLES TO pgpaw_public; ALTER DEFAULT PRIVILEGES IN SCHEMA public GRANT USAGE, SELECT ON SEQUENCES TO pgpaw_public; DO $$ BEGIN EXECUTE format('' @
     [CHR 0x27] @ ''ALTER DATABASE %I SET request.headers = %L'' @ [CHR 0x27] @ '', current_database(), '' @
     [CHR 0x27] @ ''{}'' @ [CHR 0x27] @ ''); END $$''"

text \<open>A thread of the CDC bridge is spawned through the host; its error is an I/O error.\<close>

definition assemble_primary ::
  "('w, 'm, 'k) rt_lib \<Rightarrow> u64 \<Rightarrow> auth_config \<Rightarrow> ('w, ('w io \<Rightarrow> ('w, 'm, 'k) read_state) \<times> string) prog" where
  "assemble_primary lib cache auth =
     bind_prog (issue (rt_engine lib) (Exec public_role_sql)) (\<lambda>_.
     bind_prog (scan_schema (rt_engine lib)) (\<lambda>(ts, pk, full).
     bind_prog (perform (rt_host lib) Io CdcSpawn) (\<lambda>_.
     bind_prog (lift_prog (into_verifier (rt_jwt lib) auth)) (\<lambda>verifier.
     bind_prog (observer_start (rt_engine lib) (rt_pid lib) (rt_iter lib ts)) (\<lambda>channel.
       return_prog
         (\<lambda>io. read_operations_primary io ts (rt_moka_new lib cache) (version_index_new pk full) (hub_start (map_of pk)) 0 verifier,
          channel))))))"

definition build_primary_core ::
  "('w, 'm, 'k) rt_lib \<Rightarrow> primary_source \<Rightarrow> u64 \<Rightarrow> auth_config \<Rightarrow> ('w, ('w, 'm, 'k) pgpaw) prog" where
  "build_primary_core lib src cache auth =
     bind_prog (open_primary_db (rt_engine lib) (rt_host lib) (rt_os lib) (rt_pg_display lib) src) (\<lambda>dsn.
     bind_prog (or_close (rt_engine lib) (assemble_primary lib cache auth)) (\<lambda>(read, channel).
       return_prog \<lparr>pp_read = read, pp_dsn = Some dsn, pp_source = PrimaryShutdown channel,
                    pp_http_handle = False, pp_http_task = False, pp_unb = []\<rparr>))"

definition assemble_replica ::
  "('w, 'm, 'k) rt_lib \<Rightarrow> u64 \<Rightarrow> auth_config \<Rightarrow> ('w, 'w io \<Rightarrow> ('w, 'm, 'k) read_state) prog" where
  "assemble_replica lib cache auth =
     bind_prog (scan_schema (rt_engine lib)) (\<lambda>(ts, pk, full).
     bind_prog (perform (rt_host lib) Io CdcSpawn) (\<lambda>_.
     bind_prog (lift_prog (into_verifier (rt_jwt lib) auth)) (\<lambda>verifier.
       return_prog
         (\<lambda>io. read_operations_new io (rt_replica lib) ts verifier (rt_moka_new lib cache) (version_index_new pk full)
                 (hub_start (map_of pk))))))"

text \<open>The error of \<open>Replica::start\<close> is an engine error, carried by its text.\<close>

definition build_replica_core ::
  "('w, 'm, 'k) rt_lib \<Rightarrow> replica_source \<Rightarrow> u64 \<Rightarrow> auth_config \<Rightarrow> ('w, ('w, 'm, 'k) pgpaw) prog" where
  "build_replica_core lib src cache auth =
     bind_prog (preflight (rt_host lib) (rt_pg_display lib) (rsrc_upstream src) (rsrc_publication src)) (\<lambda>_.
     bind_prog (open_db (rt_engine lib) (\<lambda>e w. Pglite e) (rsrc_data_dir src)
                  ((rt_defaults lib)\<lparr>opt_max_connections := rsrc_max_connections src\<rparr>)) (\<lambda>_.
     bind_prog (try_prog (perform (rt_host lib) (\<lambda>e. Pglite (OtherPg (io_display e)))
                  (ReplicaStart (rsrc_upstream src) (rsrc_publication src) (rsrc_slot src) (sslmode (rsrc_upstream src))))) (\<lambda>started.
       case started of
         Inl error \<Rightarrow> bind_prog (issue_ignored (rt_engine lib) ShutdownDb) (\<lambda>_. fail_prog error)
       | Inr _ \<Rightarrow>
           bind_prog (acquire RReplica) (\<lambda>_.
           bind_prog (try_prog (assemble_replica lib cache auth)) (\<lambda>assembled.
             case assembled of
               Inr read \<Rightarrow>
                 return_prog \<lparr>pp_read = read, pp_dsn = None, pp_source = ReplicaShutdown,
                              pp_http_handle = False, pp_http_task = False, pp_unb = []\<rparr>
             | Inl error \<Rightarrow>
                 bind_prog (perform_ignored (rt_host lib) ReplicaStop) (\<lambda>_.
                 bind_prog (issue_ignored (rt_engine lib) ShutdownDb) (\<lambda>_. fail_prog error)))))))"

definition build_read_core ::
  "('w, 'm, 'k) rt_lib \<Rightarrow> pg_source \<Rightarrow> u64 \<Rightarrow> auth_config \<Rightarrow> ('w, ('w, 'm, 'k) pgpaw) prog" where
  "build_read_core lib src cache auth =
     (case src of
        ReplicaOf r \<Rightarrow> build_replica_core lib r cache auth
      | PrimaryOf p \<Rightarrow> build_primary_core lib p cache auth)"

subsection \<open>Shutting down\<close>

text \<open>Run a step and remember its error if it is the first one.\<close>

definition note_error :: "('w, 'a) prog \<Rightarrow> cache_error option \<Rightarrow> ('w, cache_error option) prog" where
  "note_error m first =
     bind_prog (try_prog m) (\<lambda>r.
       return_prog (case r of Inr _ \<Rightarrow> first | Inl e \<Rightarrow> (case first of None \<Rightarrow> Some e | Some _ \<Rightarrow> first)))"

fun shutdown_topologies :: "'w host \<Rightarrow> nat list \<Rightarrow> cache_error option \<Rightarrow> ('w, cache_error option) prog" where
  "shutdown_topologies hst [] first = return_prog first"
| "shutdown_topologies hst (i # rest) first =
     bind_prog (note_error (perform hst (\<lambda>e. lifecycle Shutdown (io_display e)) (TopologyShutdown i)) first)
       (shutdown_topologies hst rest)"

definition shutdown_source :: "('w, 'm, 'k) rt_lib \<Rightarrow> source_shutdown \<Rightarrow> cache_error option \<Rightarrow> ('w, cache_error option) prog" where
  "shutdown_source lib src first =
     (case src of
        ReplicaShutdown \<Rightarrow>
          bind_prog (perform_ignored (rt_host lib) ReplicaStop) (\<lambda>_.
          bind_prog (perform_ignored (rt_host lib) CdcStop) (\<lambda>_.
          bind_prog (issue_ignored (rt_engine lib) ShutdownDb) (\<lambda>_. return_prog first)))
      | PrimaryShutdown channel \<Rightarrow>
          bind_prog (note_error (observer_shutdown (rt_engine lib) (rt_host lib) channel) first) (\<lambda>first.
            note_error
              (map_err_prog
                 (\<lambda>e. case e of Pglite pg \<Rightarrow> lifecycle Shutdown (rt_pg_display lib pg) | _ \<Rightarrow> e)
                 (issue (rt_engine lib) Close)) first))"

definition shutdown :: "('w, 'm, 'k) rt_lib \<Rightarrow> ('w, 'm, 'k) pgpaw \<Rightarrow> ('w, unit) prog" where
  "shutdown lib pp =
     bind_prog (if pp_http_handle pp then perform_ignored (rt_host lib) HttpStop else return_prog ()) (\<lambda>_.
     bind_prog (if pp_http_task pp then note_error (perform (rt_host lib) Io HttpJoin) None else return_prog None) (\<lambda>first.
     bind_prog (shutdown_topologies (rt_host lib) (pp_unb pp) first) (\<lambda>first.
     bind_prog (shutdown_source lib (pp_source pp) first) (\<lambda>first.
       case first of None \<Rightarrow> return_prog () | Some e \<Rightarrow> fail_prog e))))"

definition abort_open :: "('w, 'm, 'k) rt_lib \<Rightarrow> ('w, 'm, 'k) pgpaw \<Rightarrow> cache_error \<Rightarrow> ('w, 'a) prog" where
  "abort_open lib pp error = bind_prog (try_prog (shutdown lib pp)) (\<lambda>_. fail_prog error)"

subsection \<open>Opening\<close>

definition topology_error :: "io_error \<Rightarrow> cache_error" where
  "topology_error e = lifecycle Topology (io_display e)"

text \<open>Starting one more unb binding: build the node, start its topology.\<close>

definition attach_unb :: "'w host \<Rightarrow> ('w, 'm, 'k) pgpaw \<Rightarrow> ('w, ('w, 'm, 'k) pgpaw) prog" where
  "attach_unb hst pp =
     (let i = length (pp_unb pp)
      in bind_prog (perform hst topology_error (NodeBuild i)) (\<lambda>_.
         bind_prog (perform hst topology_error (TopologyStart i)) (\<lambda>_.
         bind_prog (acquire (RTopology i)) (\<lambda>_. return_prog (pp\<lparr>pp_unb := pp_unb pp @ [i]\<rparr>)))))"

text \<open>A step of opening: when it fails, the instance is shut down and the step's error returned.\<close>

definition or_abort :: "('w, 'm, 'k) rt_lib \<Rightarrow> ('w, 'm, 'k) pgpaw \<Rightarrow> ('w, 'a) prog \<Rightarrow> ('w, 'a) prog" where
  "or_abort lib pp m =
     bind_prog (try_prog m) (\<lambda>r. case r of Inr a \<Rightarrow> return_prog a | Inl e \<Rightarrow> abort_open lib pp e)"

fun start_unb :: "('w, 'm, 'k) rt_lib \<Rightarrow> nat \<Rightarrow> ('w, 'm, 'k) pgpaw \<Rightarrow> ('w, ('w, 'm, 'k) pgpaw) prog" where
  "start_unb lib 0 pp = return_prog pp"
| "start_unb lib (Suc n) pp = bind_prog (or_abort lib pp (attach_unb (rt_host lib) pp)) (start_unb lib n)"

definition bind_at :: "'w host \<Rightarrow> string \<Rightarrow> ('w, unit) prog" where
  "bind_at hst addr = bind_prog (perform hst Io (HttpBind addr)) (\<lambda>_. acquire RHttp)"

definition start_http :: "('w, 'm, 'k) rt_lib \<Rightarrow> http_config option \<Rightarrow> ('w, 'm, 'k) pgpaw \<Rightarrow> ('w, ('w, 'm, 'k) pgpaw) prog" where
  "start_http lib http pp =
     (case http of
        None \<Rightarrow> return_prog pp
      | Some h \<Rightarrow>
          bind_prog (or_abort lib pp (bind_at (rt_host lib) (hc_addr h))) (\<lambda>_.
            return_prog (pp\<lparr>pp_http_handle := True, pp_http_task := True\<rparr>)))"

definition handoff_step :: "('w, 'm, 'k) rt_lib \<Rightarrow> ('w, 'm, 'k) pgpaw \<Rightarrow> ('w, unit) prog" where
  "handoff_step lib pp =
     (case pp_source pp of
        PrimaryShutdown _ \<Rightarrow> or_abort lib pp (handoff_legacy_ledgers (rt_engine lib))
      | ReplicaShutdown \<Rightarrow> return_prog ())"

definition open_pgpaw :: "('w, 'm, 'k) rt_lib \<Rightarrow> pgpaw_builder \<Rightarrow> ('w, ('w, 'm, 'k) pgpaw) prog" where
  "open_pgpaw lib b =
     (case b_source b of
        None \<Rightarrow> fail_prog (Config ''PgPaw requires a source'')
      | Some src \<Rightarrow>
          bind_prog (build_read_core lib src (b_cache b) (b_auth b)) (\<lambda>pp.
          bind_prog (handoff_step lib pp) (\<lambda>_.
          bind_prog (start_http lib (b_http b) pp) (\<lambda>pp.
            start_unb lib (b_unb b) pp))))"

subsection \<open>Waiting\<close>

text \<open>
  \<open>wait\<close> polls every ten milliseconds; \<open>polls k\<close> is what the bindings report at the \<open>k\<close>-th poll.  It may
  run forever, so the result is \<open>None\<close> when it does not return.
\<close>

record poll =
  po_http :: bool
  po_topology :: "nat \<Rightarrow> bool"

datatype ended = HttpEnded | TopologyEnded nat

partial_function (option) wait_loop :: "(nat \<Rightarrow> poll) \<Rightarrow> bool \<Rightarrow> nat list \<Rightarrow> nat \<Rightarrow> ended option" where
  "wait_loop polls http unb k =
     (if http \<and> po_http (polls k) then Some HttpEnded
      else case List.find (po_topology (polls k)) unb of
             Some i \<Rightarrow> Some (TopologyEnded i)
           | None \<Rightarrow> wait_loop polls http unb (Suc k))"

definition wait_for :: "(nat \<Rightarrow> poll) \<Rightarrow> ('w, 'm, 'k) pgpaw \<Rightarrow> ended option" where
  "wait_for polls pp =
     (let has_bindings = (pp_http_task pp \<or> pp_unb pp \<noteq> [])
      in if \<not> has_bindings then None else wait_loop polls (pp_http_task pp) (pp_unb pp) 0)"

text \<open>The task of the server is taken before it is joined.\<close>

definition wait_result :: "'w host \<Rightarrow> ('w, 'm, 'k) pgpaw \<Rightarrow> ended \<Rightarrow> ('w, unit) prog \<times> ('w, 'm, 'k) pgpaw" where
  "wait_result hst pp e =
     (case e of
        HttpEnded \<Rightarrow> (bind_prog (perform hst Io HttpJoin) (\<lambda>_. return_prog ()), pp\<lparr>pp_http_task := False\<rparr>)
      | TopologyEnded i \<Rightarrow> (bind_prog (perform hst topology_error (TopologyWait i)) (\<lambda>_. return_prog ()), pp))"

subsection \<open>Resources\<close>

text \<open>What a running instance holds.\<close>

definition source_resources :: "source_shutdown \<Rightarrow> resource set" where
  "source_resources src = (case src of ReplicaShutdown \<Rightarrow> {RDb, RReplica} | PrimaryShutdown _ \<Rightarrow> {RDb, RListen})"

definition resources :: "('w, 'm, 'k) pgpaw \<Rightarrow> resource set" where
  "resources pp = source_resources (pp_source pp) \<union> (if pp_http_handle pp then {RHttp} else {}) \<union> RTopology ` set (pp_unb pp)"

lemma neutral_commit_or_rollback:
  assumes "neutral m" shows "neutral (commit_or_rollback eng m on_error)"
proof -
  have "yields (commit_or_rollback eng m on_error) (\<lambda>r cs. still_held cs H = H)" for H
    by (rule yields_commit_or_rollback)
      (use assms in \<open>auto simp: neutral_def leaves_def elim!: yields_weaken split: sum.splits\<close>)
  then show ?thesis by (simp add: neutral_def leaves_def)
qed

lemma neutral_tx_read: "neutral (tx_read eng sql f)"
  unfolding tx_read_def tx_query_def by (intro neutral_bind neutral_issue neutral_lift) simp

lemma neutral_handoff_table: "neutral (handoff_table eng h)"
  unfolding handoff_table_def tx_query_def
  by (auto intro!: neutral_bind neutral_tx_read neutral_issue)

lemma neutral_handoff: "neutral (handoff_legacy_ledgers eng)"
  unfolding handoff_legacy_ledgers_def ensure_ledgers_def handoff_body_def
  by (auto intro!: neutral_bind neutral_commit_or_rollback neutral_tx_read neutral_issue neutral_handoff_table)

lemma leaves_note_error:
  "leaves m H (\<lambda>r G. G = X) \<Longrightarrow> leaves (note_error m first) H (\<lambda>r G. is_ok r \<and> G = X)"
  unfolding note_error_def by (auto intro!: leaves_try_then leaves_return elim!: leaves_weaken)

lemma leaves_shutdown_topologies:
  "leaves (shutdown_topologies hst is first) H (\<lambda>r G. is_ok r \<and> G = H - RTopology ` set is)"
proof (induction "is" arbitrary: first H)
  case Nil
  show ?case unfolding shutdown_topologies.simps by (rule leaves_return) simp
next
  case (Cons i "is")
  have "leaves (note_error (perform hst (\<lambda>e. lifecycle Shutdown (io_display e)) (TopologyShutdown i)) first) H
      (\<lambda>r G. is_ok r \<and> G = H - {RTopology i})"
    by (rule leaves_note_error) (auto intro: leaves_weaken [OF leaves_perform])
  then show ?case
    by (auto intro!: leaves_bind leaves_weaken [OF Cons.IH])
qed

lemma leaves_shutdown_source:
  "leaves (shutdown_source lib src first) H (\<lambda>r G. is_ok r \<and> G = H - source_resources src)"
proof (cases src)
  case ReplicaShutdown
  then show ?thesis
    by (auto simp: shutdown_source_def source_resources_def intro!: leaves_perform_ignored_then leaves_issue_ignored_then leaves_return)
next
  case (PrimaryShutdown channel)
  have close: "leaves (map_err_prog h (issue eng Close)) G (\<lambda>r G'. G' = G - {RDb})" for h eng G
    by (rule leaves_map_err, rule leaves_weaken [OF leaves_issue]) simp
  show ?thesis
    unfolding shutdown_source_def PrimaryShutdown source_shutdown.case
    by (rule leaves_bind [OF leaves_note_error [OF leaves_observer_shutdown]])
      (auto simp: source_resources_def intro!: leaves_weaken [OF leaves_note_error [OF close]])
qed

text \<open>A shutdown gives back everything the instance holds, whatever fails.\<close>

lemma leaves_shutdown: "leaves (shutdown lib pp) H (\<lambda>r G. G = H - resources pp)"
proof -
  let ?H1 = "H - (if pp_http_handle pp then {RHttp} else {})"
  have stop: "leaves (if pp_http_handle pp then perform_ignored (rt_host lib) HttpStop else return_prog ()) H (\<lambda>r G. is_ok r \<and> G = ?H1)"
    by (auto intro: leaves_return leaves_weaken [OF leaves_perform_ignored])
  have join: "leaves (if pp_http_task pp then note_error (perform (rt_host lib) Io HttpJoin) None else return_prog None) G
      (\<lambda>r G'. is_ok r \<and> G' = G)" for G
    by (auto intro!: leaves_return leaves_note_error leaves_weaken [OF leaves_perform])
  have finish: "leaves (case first of None \<Rightarrow> return_prog () | Some e \<Rightarrow> fail_prog e) G (\<lambda>r G'. G' = H - resources pp)"
    if "G = ?H1 - RTopology ` set (pp_unb pp) - source_resources (pp_source pp)" for first G
    using that by (cases first) (auto simp: resources_def intro!: leaves_return leaves_fail)
  show ?thesis
    unfolding shutdown_def
    by (rule leaves_bind [OF stop], simp, rule leaves_bind [OF join], simp,
        rule leaves_bind [OF leaves_shutdown_topologies], simp, rule leaves_bind [OF leaves_shutdown_source])
      (auto intro: finish)
qed

lemma leaves_or_abort:
  assumes "leaves m H P" and "\<And>a G. P (Inr a) G \<Longrightarrow> Q (Inr a) G" and "\<And>e G. P (Inl e) G \<Longrightarrow> Q (Inl e) (G - resources pp)"
  shows "leaves (or_abort lib pp m) H Q"
  unfolding or_abort_def abort_open_def
proof (rule leaves_try_then, rule leaves_weaken [OF assms(1)])
  fix r G
  assume "P r G"
  then show "leaves (case r of Inr a \<Rightarrow> return_prog a
      | Inl e \<Rightarrow> bind_prog (try_prog (shutdown lib pp)) (\<lambda>_. fail_prog e)) G Q"
    using assms(2,3)
    by (cases r) (auto intro!: leaves_return leaves_try_then leaves_weaken [OF leaves_shutdown] leaves_fail)
qed

text \<open>The two outcomes of a step of opening.\<close>

definition opened :: "('w, 'm, 'k) pgpaw result \<Rightarrow> resource set \<Rightarrow> bool" where
  "opened r G \<longleftrightarrow> G = (case r of Inl _ \<Rightarrow> {} | Inr pp \<Rightarrow> resources pp)"

lemma opened_simps: "opened (Inl e) G \<longleftrightarrow> G = {}" "opened (Inr pp) G \<longleftrightarrow> G = resources pp"
  by (simp_all add: opened_def)

lemma leaves_attach_unb:
  "leaves (attach_unb hst pp) H (\<lambda>r G. case r of
      Inl _ \<Rightarrow> G = H
    | Inr pp' \<Rightarrow> pp' = pp\<lparr>pp_unb := pp_unb pp @ [length (pp_unb pp)]\<rparr> \<and> G = insert (RTopology (length (pp_unb pp))) H)"
  unfolding attach_unb_def Let_def by (intro leaves_perform_then leaves_acquire_then leaves_return) simp_all

lemma start_unb_opened: "leaves (start_unb lib n pp) (resources pp) opened"
proof (induction n arbitrary: pp)
  case 0
  show ?case unfolding start_unb.simps by (rule leaves_return) (simp add: opened_simps)
next
  case (Suc n)
  have "leaves (or_abort lib pp (attach_unb (rt_host lib) pp)) (resources pp) opened"
    by (rule leaves_or_abort [OF leaves_attach_unb]) (auto simp: opened_simps resources_def)
  then show ?case
    unfolding start_unb.simps by (rule leaves_bind) (auto simp: opened_simps intro: Suc.IH)
qed

lemma start_http_opened:
  assumes "\<not> pp_http_handle pp" shows "leaves (start_http lib http pp) (resources pp) opened"
proof (cases http)
  case None
  show ?thesis unfolding start_http_def None option.case by (rule leaves_return) (simp add: opened_simps)
next
  case (Some h)
  have bind: "leaves (bind_at (rt_host lib) (hc_addr h)) (resources pp)
      (\<lambda>r G. G = (if is_ok r then insert RHttp (resources pp) else resources pp))"
    unfolding bind_at_def by (intro leaves_perform_then leaves_weaken [OF leaves_acquire]) simp_all
  have "leaves (or_abort lib pp (bind_at (rt_host lib) (hc_addr h))) (resources pp)
      (\<lambda>r G. G = (if is_ok r then insert RHttp (resources pp) else {}))"
    by (rule leaves_or_abort [OF bind]) simp_all
  then show ?thesis
    unfolding start_http_def Some option.case
    by (rule leaves_bind) (use assms in \<open>auto simp: opened_simps resources_def intro!: leaves_return\<close>)
qed

lemma handoff_step_kept:
  "leaves (handoff_step lib pp) (resources pp) (\<lambda>r G. G = (if is_ok r then resources pp else {}))"
proof (cases "pp_source pp")
  case ReplicaShutdown
  show ?thesis unfolding handoff_step_def ReplicaShutdown source_shutdown.case by (rule leaves_return) simp
next
  case (PrimaryShutdown channel)
  show ?thesis
    unfolding handoff_step_def PrimaryShutdown source_shutdown.case
    by (rule leaves_or_abort [OF neutralD [OF neutral_handoff]]) simp_all
qed

lemma assemble_primary_leaves:
  assumes "RListen \<notin> H"
  shows "leaves (assemble_primary lib cache auth) H (\<lambda>r G. G = (if is_ok r then insert RListen H else H))"
  unfolding assemble_primary_def
  by (intro leaves_issue_then leaves_neutral_then neutral_scan_schema)
    (use assms in \<open>auto intro!: leaves_perform_then leaves_neutral_then leaves_bind [OF leaves_observer_start] leaves_return\<close>)

lemma build_primary_opened:
  "leaves (build_primary_core lib src cache auth) {} (\<lambda>r G. opened r G \<and> (\<forall>pp. r = Inr pp \<longrightarrow> \<not> pp_http_handle pp \<and> resources pp = {RDb, RListen}))"
  unfolding build_primary_core_def
proof (rule leaves_bind [OF open_primary_db_out])
  fix dsn G
  assume "G = (if is_ok (Inr dsn :: string result) then {RDb} else {})"
  then have G: "G = {RDb}" by simp
  have "leaves (or_close (rt_engine lib) (assemble_primary lib cache auth)) {RDb} (\<lambda>r G. G = (if is_ok r then {RListen, RDb} else {}))"
    by (rule leaves_or_close_general [OF assemble_primary_leaves]) auto
  then show "leaves (bind_prog (or_close (rt_engine lib) (assemble_primary lib cache auth)) (\<lambda>(read, channel).
      return_prog \<lparr>pp_read = read, pp_dsn = Some dsn, pp_source = PrimaryShutdown channel,
                   pp_http_handle = False, pp_http_task = False, pp_unb = []\<rparr>)) G
      (\<lambda>r G. opened r G \<and> (\<forall>pp. r = Inr pp \<longrightarrow> \<not> pp_http_handle pp \<and> resources pp = {RDb, RListen}))"
    unfolding G by (rule leaves_bind) (auto simp: opened_simps resources_def source_resources_def intro!: leaves_return)
qed (simp add: opened_simps)

lemma neutral_assemble_replica [intro]: "neutral (assemble_replica lib cache auth)"
  unfolding assemble_replica_def by (auto intro!: neutral_bind neutral_perform)

lemma build_replica_opened:
  "leaves (build_replica_core lib src cache auth) {} (\<lambda>r G. opened r G \<and> (\<forall>pp. r = Inr pp \<longrightarrow> \<not> pp_http_handle pp))"
proof -
  let ?Q = "\<lambda>r G. opened r G \<and> (\<forall>pp. r = Inr pp \<longrightarrow> \<not> pp_http_handle pp)"
  have assembled: "leaves (bind_prog (try_prog (assemble_replica lib cache auth)) (\<lambda>assembled. case assembled of
        Inr read \<Rightarrow> return_prog \<lparr>pp_read = read, pp_dsn = None, pp_source = ReplicaShutdown,
                                pp_http_handle = False, pp_http_task = False, pp_unb = []\<rparr>
      | Inl error \<Rightarrow> bind_prog (perform_ignored (rt_host lib) ReplicaStop) (\<lambda>_.
                      bind_prog (issue_ignored (rt_engine lib) ShutdownDb) (\<lambda>_. fail_prog error)))) {RReplica, RDb} ?Q"
    by (rule leaves_try_then, rule leaves_neutral [OF neutral_assemble_replica])
      (auto intro!: leaves_rules simp: opened_simps resources_def source_resources_def split: sum.splits)
  show ?thesis
    unfolding build_replica_core_def
    by (rule leaves_neutral_then [OF neutral_preflight], simp add: opened_simps, rule leaves_bind [OF leaves_open_db], simp add: opened_simps,
        rule leaves_try_then, rule leaves_weaken [OF leaves_perform])
      (auto intro!: leaves_issue_ignored_then leaves_fail leaves_acquire_then assembled simp: opened_simps split: sum.splits)
qed

lemma build_read_core_opened:
  "leaves (build_read_core lib src cache auth) {} (\<lambda>r G. opened r G \<and> (\<forall>pp. r = Inr pp \<longrightarrow> \<not> pp_http_handle pp))"
  unfolding build_read_core_def
  by (cases src) (auto intro: build_replica_opened leaves_weaken [OF build_primary_opened])

lemma open_pgpaw_opened: "leaves (open_pgpaw lib b) {} opened"
proof (cases "b_source b")
  case None
  show ?thesis unfolding open_pgpaw_def None option.case by (rule leaves_fail) (simp add: opened_simps)
next
  case (Some src)
  show ?thesis
    unfolding open_pgpaw_def Some option.case
  proof (rule leaves_bind [OF build_read_core_opened])
    fix pp G
    assume "opened (Inr pp) G \<and> (\<forall>pp'. Inr pp = (Inr pp' :: ('a, 'b, 'c) pgpaw result) \<longrightarrow> \<not> pp_http_handle pp')"
    then have G: "G = resources pp" and h: "\<not> pp_http_handle pp" by (simp_all add: opened_simps)
    show "leaves (bind_prog (handoff_step lib pp) (\<lambda>_. bind_prog (start_http lib (b_http b) pp) (start_unb lib (b_unb b)))) G opened"
      unfolding G
    proof (rule leaves_bind [OF handoff_step_kept])
      fix a :: unit and G'
      assume "G' = (if is_ok (Inr a :: unit result) then resources pp else {})"
      then have G': "G' = resources pp" by simp
      show "leaves (bind_prog (start_http lib (b_http b) pp) (start_unb lib (b_unb b))) G' opened"
        unfolding G' by (rule leaves_bind [OF start_http_opened [OF h]]) (auto simp: opened_simps intro: start_unb_opened)
    qed (simp add: opened_simps)
  qed simp
qed

subsection \<open>When waiting returns\<close>

definition binding_ended :: "(nat \<Rightarrow> poll) \<Rightarrow> bool \<Rightarrow> nat list \<Rightarrow> nat \<Rightarrow> bool" where
  "binding_ended polls http unb k \<longleftrightarrow> http \<and> po_http (polls k) \<or> (\<exists>i \<in> set unb. po_topology (polls k) i)"

lemma wait_loop_Some:
  assumes "wait_loop polls http unb k = Some e" shows "\<exists>j \<ge> k. binding_ended polls http unb j"
proof (rule wait_loop.raw_induct [where P = "\<lambda>polls http unb k e. \<exists>j \<ge> k. binding_ended polls http unb j", OF _ assms])
  fix wait polls http unb k e
  assume IH: "\<And>polls http unb k e. wait polls http unb k = Some e \<Longrightarrow> \<exists>j \<ge> k. binding_ended polls http unb j"
    and res: "(if http \<and> po_http (polls k) then Some HttpEnded
        else case List.find (po_topology (polls k)) unb of Some i \<Rightarrow> Some (TopologyEnded i) | None \<Rightarrow> wait polls http unb (Suc k)) = Some e"
  show "\<exists>j \<ge> k. binding_ended polls http unb j"
  proof (cases "binding_ended polls http unb k")
    case False
    then have "\<not> (http \<and> po_http (polls k))" "List.find (po_topology (polls k)) unb = None"
      by (auto simp: binding_ended_def find_None_iff)
    then have "wait polls http unb (Suc k) = Some e" using res by (auto split: if_splits)
    then obtain j where "j \<ge> Suc k" "binding_ended polls http unb j" using IH by blast
    then show ?thesis by (meson Suc_leD)
  qed blast
qed

lemma wait_loop_skip:
  assumes "\<forall>j < k. \<not> binding_ended polls http unb j"
  shows "wait_loop polls http unb 0 = wait_loop polls http unb k"
  using assms
proof (induction k)
  case (Suc k)
  then have "\<not> binding_ended polls http unb k" by simp
  then have "\<not> (http \<and> po_http (polls k))" "List.find (po_topology (polls k)) unb = None"
    by (auto simp: binding_ended_def find_None_iff)
  then have "wait_loop polls http unb k = wait_loop polls http unb (Suc k)"
    by (subst wait_loop.simps) auto
  then show ?case using Suc by simp
qed simp

lemma wait_loop_here:
  assumes "binding_ended polls http unb k"
  shows "wait_loop polls http unb k =
     Some (if http \<and> po_http (polls k) then HttpEnded else TopologyEnded (the (List.find (po_topology (polls k)) unb)))"
proof -
  have "List.find (po_topology (polls k)) unb \<noteq> None" if "\<not> (http \<and> po_http (polls k))"
    using assms that by (auto simp: binding_ended_def find_None_iff)
  then show ?thesis by (subst wait_loop.simps) auto
qed

subsection \<open>What an opened instance serves from\<close>

lemma try_prog_iff: "try_prog m s = (r, t) \<longleftrightarrow> (\<exists>r'. r = Inr r' \<and> m s = (r', t))"
  by (cases "m s") (auto simp: try_prog_def)

lemma not_Inl_iff: "(\<forall>x. a \<noteq> Inl x) \<longleftrightarrow> (\<exists>y. a = Inr y)"
  by (cases a) auto

lemma or_abort_Inr_iff [simp]: "or_abort lib pp m s = (Inr a, t) \<longleftrightarrow> m s = (Inr a, t)"
  by (cases "m s")
    (auto simp: or_abort_def bind_prog_Inr_iff try_prog_def return_prog_def abort_open_def fail_prog_def split: sum.splits)

lemma or_close_Inr_iff [simp]: "or_close eng m s = (Inr a, t) \<longleftrightarrow> m s = (Inr a, t)"
  by (cases "m s") (auto simp: or_close_def bind_prog_Inr_iff try_prog_def return_prog_def fail_prog_def split: sum.splits)

definition starts_fresh :: "('w, 'm, 'k) rt_lib \<Rightarrow> u64 \<Rightarrow> ('w io \<Rightarrow> ('w, 'm, 'k) read_state) \<Rightarrow> bool" where
  "starts_fresh lib cache read \<longleftrightarrow>
     (\<forall>io. (\<exists>pk full. rs_versions (read io) = version_index_new pk full) \<and> rs_cache (read io) = rt_moka_new lib cache \<and>
           rs_io (read io) = io \<and> rs_replica (read io) \<in> {None, Some (rt_replica lib)} \<and>
           rs_security_cache (read io) \<in> {None, Some (0, Map.empty)})"

lemma assemble_primary_fresh:
  "assemble_primary lib cache auth s = (Inr (read, channel), t) \<Longrightarrow> starts_fresh lib cache read"
  by (auto simp: assemble_primary_def bind_prog_Inr_iff return_prog_def starts_fresh_def read_operations_primary_def split: prod.splits) blast

lemma assemble_replica_fresh:
  "assemble_replica lib cache auth s = (Inr read, t) \<Longrightarrow> starts_fresh lib cache read"
  by (auto simp: assemble_replica_def bind_prog_Inr_iff return_prog_def starts_fresh_def read_operations_new_def split: prod.splits) blast

lemma build_read_core_fresh:
  assumes "build_read_core lib src cache auth s = (Inr pp, t)"
  shows "starts_fresh lib cache (pp_read pp)"
proof (cases src)
  case (ReplicaOf r)
  with assms have run: "build_replica_core lib r cache auth s = (Inr pp, t)" by (simp add: build_read_core_def)
  then obtain s1 s2 where "assemble_replica lib cache auth s1 = (Inr (pp_read pp), s2)"
    unfolding build_replica_core_def
    by (auto simp: bind_prog_Inr_iff try_prog_iff return_prog_def fail_prog_def not_Inl_iff split: sum.splits)
  then show ?thesis by (rule assemble_replica_fresh)
next
  case (PrimaryOf p)
  with assms show ?thesis
    by (auto simp: build_read_core_def build_primary_core_def bind_prog_Inr_iff return_prog_def
        split: prod.splits intro: assemble_primary_fresh)
qed

lemma start_unb_read: "start_unb lib n pp s = (Inr pp', t) \<Longrightarrow> pp_read pp' = pp_read pp"
proof (induction n arbitrary: pp s)
  case (Suc n)
  from Suc.prems obtain pp1 s1 where "attach_unb (rt_host lib) pp s = (Inr pp1, s1)" "start_unb lib n pp1 s1 = (Inr pp', t)"
    by (auto simp: bind_prog_Inr_iff)
  then show ?case using Suc.IH by (auto simp: attach_unb_def Let_def bind_prog_Inr_iff return_prog_def)
qed (simp add: return_prog_def)

lemma open_pgpaw_fresh:
  assumes "open_pgpaw lib b s = (Inr pp, t)"
  shows "starts_fresh lib (b_cache b) (pp_read pp)"
proof -
  from assms obtain src pp1 s1 pp2 s2 s3 where
      p: "build_read_core lib src (b_cache b) (b_auth b) s = (Inr pp1, s1)" "start_http lib (b_http b) pp1 s2 = (Inr pp2, s3)"
         "start_unb lib (b_unb b) pp2 s3 = (Inr pp, t)"
    by (auto simp: open_pgpaw_def bind_prog_Inr_iff fail_prog_def split: option.splits)
  have "pp_read pp2 = pp_read pp1"
    using p(2) by (auto simp: start_http_def bind_prog_Inr_iff return_prog_def split: option.splits)
  then show ?thesis using build_read_core_fresh [OF p(1)] start_unb_read [OF p(3)] by simp
qed

subsection \<open>Properties\<close>


definition absent_os :: "unit os" where
  "absent_os = \<lparr>os_read = (\<lambda>p w. Inl (NotFound [])), os_kill = (\<lambda>pid w. (0, None)), os_uri = (\<lambda>w. None)\<rparr>"

definition quiet_lib :: "(unit, unit, unit) rt_lib" where
  "quiet_lib =
     \<lparr>rt_engine = (\<lambda>c w. (Inr [], w)), rt_host = (\<lambda>a w. (Inr [], w)), rt_os = absent_os, rt_pg_display = (\<lambda>_. []),
      rt_jwt = \<lparr>from_secret = (\<lambda>_. ()), from_rsa_pem = (\<lambda>_. Inr ()), from_ec_pem = (\<lambda>_. Inr ()),
                validation_new = (\<lambda>alg. \<lparr>algorithms = [alg], validate_exp = True, validate_aud = True\<rparr>),
                jwt_decode = (\<lambda>_ _ _. Inl [])\<rparr>,
      rt_moka_new = (\<lambda>_. ()), rt_replica = \<lparr>rp_halted = False, rp_reason = None, rp_watermark = 0, rp_security = Inr 0\<rparr>,
      rt_pid = 1, rt_iter = (\<lambda>xs. xs),
      rt_defaults = \<lparr>opt_database = ''postgres'', opt_min_connections = 0, opt_max_connections = 8, opt_listen = None, opt_port = None\<rparr>\<rparr>"


text \<open>
  C31: waiting returns exactly when a binding ends: without bindings, or while none ends, it does not
  return; otherwise it returns at the first poll that finds one ended, the server before the
  topologies and these in the order they were started.
\<close>

theorem wait_returns_iff_binding_ends:
  "(wait_for polls pp = None \<longleftrightarrow> (\<forall>k. \<not> binding_ended polls (pp_http_task pp) (pp_unb pp) k)) \<and>
   (binding_ended polls (pp_http_task pp) (pp_unb pp) k \<and> (\<forall>j < k. \<not> binding_ended polls (pp_http_task pp) (pp_unb pp) j) \<longrightarrow>
      wait_for polls pp =
        Some (if pp_http_task pp \<and> po_http (polls k) then HttpEnded
              else TopologyEnded (the (List.find (po_topology (polls k)) (pp_unb pp)))))"
proof -
  let ?ended = "binding_ended polls (pp_http_task pp) (pp_unb pp)"
  let ?loop = "wait_loop polls (pp_http_task pp) (pp_unb pp)"
  have has: "pp_http_task pp \<or> pp_unb pp \<noteq> []" if "?ended k" for k
    using that by (auto simp: binding_ended_def)
  have first: "wait_for polls pp = Some (if pp_http_task pp \<and> po_http (polls k) then HttpEnded
      else TopologyEnded (the (List.find (po_topology (polls k)) (pp_unb pp))))"
    if "?ended k" "\<forall>j < k. \<not> ?ended j" for k
    using has [OF that(1)] wait_loop_skip [OF that(2)] wait_loop_here [OF that(1)] by (simp add: wait_for_def)
  have "wait_for polls pp \<noteq> None" if "?ended k" for k
  proof -
    let ?k = "LEAST k. ?ended k"
    have "?ended ?k" "\<forall>j < ?k. \<not> ?ended j" using that by (auto intro: LeastI dest: not_less_Least)
    from first [OF this] show ?thesis by simp
  qed
  moreover have "wait_for polls pp = None" if "\<forall>k. \<not> ?ended k"
  proof (cases "?loop 0")
    case (Some e)
    then show ?thesis using wait_loop_Some [OF Some] that by blast
  qed (simp add: wait_for_def)
  ultimately show ?thesis using first by blast
qed

definition sample_reader :: "unit io \<Rightarrow> (unit, unit, unit) read_state" where
  "sample_reader io = read_operations_primary io [] () (version_index_new [] []) (hub_start Map.empty) 0 None"

theorem wait_returns_iff_binding_ends_witness:
  "wait_for (\<lambda>k. \<lparr>po_http = False, po_topology = (\<lambda>i. k = 1 \<and> i = 3)\<rparr>)
     \<lparr>pp_read = sample_reader, pp_dsn = None, pp_source = ReplicaShutdown, pp_http_handle = True, pp_http_task = True, pp_unb = [0, 3]\<rparr> =
   Some (TopologyEnded 3)"
proof -
  let ?polls = "\<lambda>k. \<lparr>po_http = False, po_topology = (\<lambda>i. k = 1 \<and> i = 3)\<rparr>"
  let ?pp = "\<lparr>pp_read = sample_reader, pp_dsn = None, pp_source = ReplicaShutdown, pp_http_handle = True, pp_http_task = True, pp_unb = [0, 3]\<rparr>"
  have "binding_ended ?polls (pp_http_task ?pp) (pp_unb ?pp) 1 \<and> (\<forall>j < 1. \<not> binding_ended ?polls (pp_http_task ?pp) (pp_unb ?pp) j)"
    by (simp add: binding_ended_def)
  then show ?thesis using wait_returns_iff_binding_ends [of ?polls ?pp 1] by simp
qed

end
