(* ===== verification/Cli.thy ===== *)
theory Cli
  imports Runtime
begin

text \<open>
  \<open>src/main.rs\<close>: the command line.  Parsing of arguments, the output of a log line and the process
  itself are code of packages and of the operating system; modelled are the options, the builders
  made from them, the commands, the shutdown signals, and which log line is written.  Resolving an address is the parameter \<open>resolve\<close>; \<open>signal\<close> is the result of the
  signal handler when it comes before a binding ends.

  The lemmas show what a run of the server, and a run of the migrations, leaves behind.
\<close>

subsection \<open>Options\<close>

record postgres_options =
  pg_host :: string
  pg_port :: u16
  pg_user :: string
  pg_password :: string
  pg_database :: string
  pg_publication :: string

record auth_options =
  ao_jwt_secret :: "string option"
  ao_jwt_public_key :: "string option"
  ao_jwt_jwks_url :: "string option"
  ao_jwt_role_claim :: string

record upstream_options =
  uo_postgres :: postgres_options
  uo_slot :: string
  uo_sslmode :: string

record serve_options =
  sv_host :: string
  sv_port :: u16
  sv_unb_port :: "u16 option"
  sv_unb_host :: string
  sv_unb_node :: string
  sv_data_dir :: string
  sv_max_connections :: nat
  sv_cache_size_bytes :: u64
  sv_upstream :: upstream_options
  sv_auth :: auth_options
  sv_cors_origin :: "string option"

record migration_options =
  mo_source :: string
  mo_namespace :: string
  mo_data_dir :: string
  mo_database :: string
  mo_max_connections :: nat

record primary_cli_options =
  po_data_dir :: string
  po_database :: string
  po_max_connections :: nat
  po_listen :: string
  po_port :: u16
  po_parent_node :: "string option"
  po_parent_unix :: "string option"

record init_options =
  io_postgres :: postgres_options

datatype cli_command =
    InitCommand init_options
  | MigrateCommand migration_options
  | ServeCommand serve_options
  | PrimaryCommand primary_cli_options

record cli =
  cl_command :: "cli_command option"
  cl_serve :: serve_options

definition upstream_of :: "postgres_options \<Rightarrow> upstream_config" where
  "upstream_of o' =
     \<lparr>up_host = pg_host o', up_port = pg_port o', up_user = pg_user o', up_password = pg_password o',
      up_database = pg_database o', up_sslmode = ''disable''\<rparr>"

definition auth_config_of :: "auth_options \<Rightarrow> auth_config" where
  "auth_config_of a =
     \<lparr>jwt_secret = ao_jwt_secret a, jwt_public_key = ao_jwt_public_key a, jwt_jwks_url = ao_jwt_jwks_url a,
      cfg_role_claim = Some (ao_jwt_role_claim a), sql_public_role = None\<rparr>"

definition serve_addr :: "(string \<Rightarrow> io_error + string list) \<Rightarrow> serve_options \<Rightarrow> string result" where
  "serve_addr resolve sv =
     (let name = sv_host sv @ '':'' @ show_nat (unat (sv_port sv))
      in bind_res (map_err Io (resolve name)) (\<lambda>addrs.
           case addrs of [] \<Rightarrow> Inl (Config (''could not resolve '' @ name)) | a # _ \<Rightarrow> Inr a))"

definition unb_addr :: "serve_options \<Rightarrow> (string \<times> u16) option" where
  "unb_addr sv = map_option (\<lambda>port. (sv_unb_host sv, port)) (sv_unb_port sv)"

definition serve_source :: "serve_options \<Rightarrow> replica_source" where
  "serve_source sv =
     \<lparr>rsrc_upstream = (upstream_of (uo_postgres (sv_upstream sv)))\<lparr>up_sslmode := uo_sslmode (sv_upstream sv)\<rparr>,
      rsrc_data_dir = sv_data_dir sv, rsrc_publication = pg_publication (uo_postgres (sv_upstream sv)),
      rsrc_slot = uo_slot (sv_upstream sv), rsrc_max_connections = sv_max_connections sv\<rparr>"

definition serve_builder :: "(string \<Rightarrow> io_error + string list) \<Rightarrow> serve_options \<Rightarrow> pgpaw_builder result" where
  "serve_builder resolve sv =
     bind_res (serve_addr resolve sv) (\<lambda>addr.
       let b = with_http \<lparr>hc_addr = addr, hc_cors = sv_cors_origin sv\<rparr>
                 (with_auth (auth_config_of (sv_auth sv))
                   (with_cache (sv_cache_size_bytes sv) (with_source (ReplicaOf (serve_source sv)) builder)))
       in Inr (case unb_addr sv of Some _ \<Rightarrow> with_unb b | None \<Rightarrow> b))"

definition primary_builder :: "primary_cli_options \<Rightarrow> pgpaw_builder" where
  "primary_builder po =
     (let b = with_source (PrimaryOf \<lparr>ps_data_dir = po_data_dir po, ps_database = po_database po, ps_listen = po_listen po,
                ps_port = po_port po, ps_min_connections = 0, ps_max_connections = po_max_connections po\<rparr>) builder
      in case (po_parent_node po, po_parent_unix po) of
           (Some _, Some _) \<Rightarrow> with_unb b
         | _ \<Rightarrow> b)"

subsection \<open>Logging\<close>

datatype log_level = LogError | LogWarn | LogInfo | LogDebug | LogTrace

fun level_rank :: "log_level \<Rightarrow> nat" where
  "level_rank LogError = 1"
| "level_rank LogWarn = 2"
| "level_rank LogInfo = 3"
| "level_rank LogDebug = 4"
| "level_rank LogTrace = 5"

instantiation log_level :: linorder
begin

definition less_eq_log_level :: "log_level \<Rightarrow> log_level \<Rightarrow> bool" where
  "less_eq_log_level a b \<longleftrightarrow> level_rank a \<le> level_rank b"

definition less_log_level :: "log_level \<Rightarrow> log_level \<Rightarrow> bool" where
  "less_log_level a b \<longleftrightarrow> level_rank a < level_rank b"

instance
proof
  fix a b :: log_level
  show "a \<le> b \<Longrightarrow> b \<le> a \<Longrightarrow> a = b" by (cases a; cases b) (simp_all add: less_eq_log_level_def)
qed (auto simp: less_eq_log_level_def less_log_level_def)

end

definition log_enabled :: "log_level \<Rightarrow> bool" where
  "log_enabled level \<longleftrightarrow> level \<le> LogInfo"

fun level_name :: "log_level \<Rightarrow> string" where
  "level_name LogError = ''ERROR''"
| "level_name LogWarn = ''WARN''"
| "level_name LogInfo = ''INFO''"
| "level_name LogDebug = ''DEBUG''"
| "level_name LogTrace = ''TRACE''"

text \<open>\<open>formatted\<close>: the clock in RFC 3339, which may fail.\<close>

definition timestamp :: "string option \<Rightarrow> string" where
  "timestamp formatted = (case formatted of Some t \<Rightarrow> t | None \<Rightarrow> ''1970-01-01T00:00:00Z'')"

text \<open>The line written for a record, if any.\<close>

definition log_line :: "string option \<Rightarrow> nat \<Rightarrow> log_level \<Rightarrow> string \<Rightarrow> string \<Rightarrow> string option" where
  "log_line formatted pid level target args =
     (if \<not> log_enabled level then None
      else Some (''ts='' @ timestamp formatted @ '' level='' @ level_name level @ '' pid='' @ show_nat pid @
                 '' target='' @ target @ '' '' @ args))"

lemma log_line_iff: "log_line formatted pid level target args \<noteq> None \<longleftrightarrow> level \<in> {LogError, LogWarn, LogInfo}"
  by (cases level) (simp_all add: log_line_def log_enabled_def less_eq_log_level_def)

subsection \<open>The end of a run\<close>

text \<open>
  What the two signal sources report when they are polled: \<open>ctrl_c\<close> the result of waiting for an
  interrupt, \<open>terminated\<close> whether the termination signal has come; \<open>registered\<close> is the result of
  registering for it.  \<open>None\<close>: still pending.
\<close>

definition shutdown_signal :: "(io_error + unit) \<Rightarrow> (io_error + unit) option \<Rightarrow> bool \<Rightarrow> unit result option" where
  "shutdown_signal registered ctrl_c terminated =
     (case map_err Io registered of
        Inl e \<Rightarrow> Some (Inl e)
      | Inr _ \<Rightarrow>
          (case ctrl_c of
             Some r \<Rightarrow> Some (map_err Io r)
           | None \<Rightarrow> if terminated then Some (Inr ()) else None))"

text \<open>On a system without termination signals.\<close>

definition shutdown_signal_ctrl_c :: "(io_error + unit) option \<Rightarrow> unit result option" where
  "shutdown_signal_ctrl_c ctrl_c = map_option (map_err Io) ctrl_c"

lemma shutdown_signal_pending:
  "shutdown_signal registered ctrl_c terminated = None \<longleftrightarrow> is_ok registered \<and> ctrl_c = None \<and> \<not> terminated"
  by (cases registered) (auto simp: shutdown_signal_def split: option.splits)

subsection \<open>Commands\<close>

definition migrate_source :: "migration_options \<Rightarrow> primary_source" where
  "migrate_source mo =
     (primary_source_embedded (mo_data_dir mo))\<lparr>ps_database := mo_database mo, ps_min_connections := 0,
        ps_max_connections := mo_max_connections mo\<rparr>"

text \<open>\<open>fsys\<close> is the file system below the source directory.\<close>

definition migrate ::
  "('w, 'm, 'k) rt_lib \<Rightarrow> sql_front \<Rightarrow> (string \<Rightarrow> string) \<Rightarrow> fs \<Rightarrow> migration_options \<Rightarrow> ('w, unit) prog" where
  "migrate lib front lower fsys mo =
     bind_prog (lift_prog (discover_migrations fsys (mo_namespace mo))) (\<lambda>(app_chains, warnings).
     bind_prog (open_pgpaw lib (with_source (PrimaryOf (migrate_source mo)) builder)) (\<lambda>pp.
     bind_prog (apply_migrations (rt_engine lib) front lower (rt_pg_display lib) (mo_namespace mo) app_chains) (\<lambda>report.
       shutdown lib pp)))"

text \<open>\<open>None\<close>: the server runs forever.\<close>

definition run_pgpaw ::
  "('w, 'm, 'k) rt_lib \<Rightarrow> pgpaw_builder \<Rightarrow> unit result option \<Rightarrow> (nat \<Rightarrow> poll) \<Rightarrow> 'w io \<Rightarrow> (unit result \<times> 'w io) option" where
  "run_pgpaw lib b signal polls s =
     (case open_pgpaw lib b s of
        (Inl e, t) \<Rightarrow> Some (Inl e, t)
      | (Inr pp, t) \<Rightarrow>
          (case (case signal of
                   Some r \<Rightarrow> Some (lift_prog r, pp)
                 | None \<Rightarrow> map_option (wait_result (rt_host lib) pp) (wait_for polls pp)) of
             None \<Rightarrow> None
           | Some (m, pp') \<Rightarrow>
               (case m t of
                  (result, t1) \<Rightarrow>
                    Some (bind_prog (shutdown lib pp') (\<lambda>_. lift_prog result) t1))))"

definition run_cli ::
  "('w, 'm, 'k) rt_lib \<Rightarrow> sql_front \<Rightarrow> (string \<Rightarrow> string) \<Rightarrow> fs \<Rightarrow> (string \<Rightarrow> io_error + string list) \<Rightarrow> string \<Rightarrow>
   io_error + string \<Rightarrow> unit result option \<Rightarrow> (nat \<Rightarrow> poll) \<Rightarrow> cli \<Rightarrow> 'w io \<Rightarrow>
   (unit result \<times> 'w io) option" where
  "run_cli lib front lower fsys resolve pre input signal polls args s =
     (let run_serve = (\<lambda>sv. case serve_builder resolve sv of
                               Inl e \<Rightarrow> Some (Inl e, s)
                             | Inr b \<Rightarrow> run_pgpaw lib b signal polls s)
      in case cl_command args of
           Some (InitCommand o') \<Rightarrow>
             Some (bind_prog (init (rt_host lib) pre (upstream_of (io_postgres o')) (pg_publication (io_postgres o')) input) (\<lambda>_. return_prog ()) s)
         | Some (MigrateCommand mo) \<Rightarrow> Some (migrate lib front lower fsys mo s)
         | Some (ServeCommand sv) \<Rightarrow> run_serve sv
         | Some (PrimaryCommand po) \<Rightarrow> run_pgpaw lib (primary_builder po) signal polls s
         | None \<Rightarrow> run_serve (cl_serve args))"

text \<open>The exit status of the process.\<close>

definition exit_status :: "unit result \<Rightarrow> nat" where
  "exit_status r = (case r of Inl _ \<Rightarrow> 1 | Inr _ \<Rightarrow> 0)"

subsection \<open>Lemmas\<close>

lemma wait_result_neutral: "neutral (fst (wait_result hst pp e))"
  by (cases e) (auto simp: wait_result_def intro!: neutral_bind neutral_perform)

lemma wait_result_resources: "resources (snd (wait_result hst pp e)) = resources pp"
  by (cases e) (simp_all add: wait_result_def resources_def)

text \<open>However a run of the server ends, it has given everything back.\<close>

lemma run_pgpaw_releases:
  assumes "run_pgpaw lib b signal polls s = Some (r, t)"
  shows "\<exists>cs. trace t = trace s @ cs \<and> still_held cs {} = {}"
proof -
  obtain o' t0 where op: "open_pgpaw lib b s = (o', t0)" by (cases "open_pgpaw lib b s")
  from leavesD [OF open_pgpaw_opened op] obtain cs where cs: "trace t0 = trace s @ cs" "opened o' (still_held cs {})" by blast
  show ?thesis
  proof (cases o')
    case (Inl e)
    then show ?thesis using assms op cs by (auto simp: run_pgpaw_def opened_simps)
  next
    case (Inr pp)
    obtain m pp' where m: "neutral m" "resources pp' = resources pp"
        "bind_prog (shutdown lib pp') (\<lambda>_. lift_prog (fst (m t0))) (snd (m t0)) = (r, t)"
    proof (cases signal)
      case (Some q)
      then show ?thesis using assms op Inr that [of "lift_prog q" pp] by (simp add: run_pgpaw_def)
    next
      case None
      then obtain e where e: "wait_for polls pp = Some e" using assms op Inr by (auto simp: run_pgpaw_def split: option.splits)
      obtain m pp' where w: "wait_result (rt_host lib) pp e = (m, pp')" by (cases "wait_result (rt_host lib) pp e")
      have "neutral m" "resources pp' = resources pp"
        using wait_result_neutral [of "rt_host lib" pp e] wait_result_resources [of "rt_host lib" pp e] unfolding w by simp_all
      moreover have "bind_prog (shutdown lib pp') (\<lambda>_. lift_prog (fst (m t0))) (snd (m t0)) = (r, t)"
        using assms op Inr None e w by (simp add: run_pgpaw_def split: prod.splits)
      ultimately show ?thesis by (rule that)
    qed
    obtain q t1 where q: "m t0 = (q, t1)" by (cases "m t0")
    from leavesD [OF neutralD [OF m(1)] q, of "resources pp"] obtain ds where
        ds: "trace t1 = trace t0 @ ds" "still_held ds (resources pp) = resources pp" by blast
    have fin: "leaves (bind_prog (shutdown lib pp') (\<lambda>_. lift_prog q)) (resources pp) (\<lambda>r G. G = {})"
      by (rule leaves_bind [OF leaves_shutdown]) (auto simp: m(2) intro!: leaves_neutral)
    from m(3) q have "bind_prog (shutdown lib pp') (\<lambda>_. lift_prog q) t1 = (r, t)" by simp
    from leavesD [OF fin this] obtain es where "trace t = trace t1 @ es" "still_held es (resources pp) = {}" by blast
    then show ?thesis using cs ds Inr by (intro exI [of _ "cs @ ds @ es"]) (simp add: opened_simps)
  qed
qed

lemma neutral_apply_file: "neutral (apply_file eng front lower pg_display world_id chain file)"
  unfolding apply_file_def migration_body_def
  by (auto intro!: neutral_bind neutral_commit_or_rollback neutral_issue split: list.splits)

lemma neutral_apply_files: "neutral (apply_files eng front lower pg_display world_id chain fs rep)"
proof (induction fs arbitrary: rep)
  case Nil
  show ?case unfolding apply_files.simps by (rule neutral_return)
next
  case (Cons f fs)
  show ?case unfolding apply_files.simps by (rule neutral_bind [OF neutral_apply_file Cons.IH])
qed

lemma neutral_apply_chains: "neutral (apply_chains eng front lower pg_display world_id cs rep)"
proof (induction cs arbitrary: rep)
  case Nil
  show ?case unfolding apply_chains.simps by (rule neutral_return)
next
  case (Cons c cs)
  have "neutral (apply_chain eng front lower pg_display world_id c rep)"
    unfolding apply_chain_def reflected_table_names_def
    by (auto intro!: neutral_bind neutral_issue neutral_apply_files)
  then show ?case unfolding apply_chains.simps by (rule neutral_bind [OF _ Cons.IH])
qed

lemma neutral_apply_migrations: "neutral (apply_migrations eng front lower pg_display world_id cs)"
  unfolding apply_migrations_def ensure_ledgers_def
  by (auto intro!: neutral_bind neutral_issue neutral_apply_chains)

lemma migrate_opened:
  "leaves (open_pgpaw lib (with_source (PrimaryOf src) builder)) {} (\<lambda>r G. is_ok r \<longrightarrow> G = {RDb, RListen})"
proof -
  have core: "leaves (build_primary_core lib src cache auth) {}
      (\<lambda>r G. opened r G \<and> (\<forall>pp. r = Inr pp \<longrightarrow> resources pp = {RDb, RListen}))" for cache auth
    by (rule leaves_weaken [OF build_primary_opened]) auto
  have rest: "leaves (bind_prog (handoff_step lib pp) (\<lambda>_. bind_prog (start_http lib None pp) (start_unb lib 0))) G
      (\<lambda>r G. is_ok r \<longrightarrow> G = {RDb, RListen})" if "G = resources pp" "resources pp = {RDb, RListen}" for pp G
    unfolding that(1) start_http_def bind_at_def option.case
    by (rule leaves_bind [OF handoff_step_kept]) (auto simp: that(2) start_unb.simps(1) [abs_def] intro!: leaves_bind [OF leaves_return] leaves_return)
  show ?thesis
    unfolding open_pgpaw_def with_source_def builder_def pgpaw_builder.simps option.case build_read_core_def pg_source.case
    by (rule leaves_bind [OF core]) (auto simp: opened_simps intro: rest)
qed

subsection \<open>Properties\<close>

text \<open>
  C40: the command that applies migrations does not shut the instance down when applying fails.  With
  discovery and opening successful and the application failing, the run returns that error at once;
  the engine and the notification channel are still held, while every other way a command runs an
  instance gives them back.
\<close>

theorem failed_migration_keeps_engine:
  assumes "discover_migrations fsys (mo_namespace mo) = Inr (app_chains, warnings)"
    and "open_pgpaw lib (with_source (PrimaryOf (migrate_source mo)) builder) s = (Inr pp, t)"
    and "apply_migrations (rt_engine lib) front lower (rt_pg_display lib) (mo_namespace mo) app_chains t = (Inl e, u)"
  shows "migrate lib front lower fsys mo s = (Inl e, u) \<and>
         (\<exists>cs. trace u = trace s @ cs \<and> still_held cs {} = {RDb, RListen})"
proof -
  have "migrate lib front lower fsys mo s = (Inl e, u)"
    using assms by (simp add: migrate_def bind_prog_def)
  moreover from leavesD [OF migrate_opened assms(2)] obtain cs where
      cs: "trace t = trace s @ cs" "still_held cs {} = {RDb, RListen}" by auto
  moreover from leavesD [OF neutralD [OF neutral_apply_migrations] assms(3), of "{RDb, RListen}"] obtain ds where
      "trace u = trace t @ ds" "still_held ds {RDb, RListen} = {RDb, RListen}" by blast
  ultimately show ?thesis by (intro conjI exI [of _ "cs @ ds"]) simp_all
qed

text \<open>An engine that answers nothing to every question but one.\<close>

definition deaf_engine :: "string \<Rightarrow> ('w \<Rightarrow> pg_error + row list) \<Rightarrow> 'w engine" where
  "deaf_engine q answer c w = (if \<exists>ps. c = Query q ps then answer w else Inr [], w)"

definition deaf_lib :: "string \<Rightarrow> ('w \<Rightarrow> pg_error + row list) \<Rightarrow> (u64 \<Rightarrow> 'm) \<Rightarrow> ('w, 'm, unit) rt_lib" where
  "deaf_lib q answer cache_new =
     \<lparr>rt_engine = deaf_engine q answer, rt_host = (\<lambda>a w. (Inr [], w)),
      rt_os = \<lparr>os_read = (\<lambda>p w. Inl (NotFound [])), os_kill = (\<lambda>pid w. (0, None)), os_uri = (\<lambda>w. Some ''postgres://h/d'')\<rparr>,
      rt_pg_display = (\<lambda>_. []), rt_jwt = rt_jwt quiet_lib, rt_moka_new = cache_new, rt_replica = rt_replica quiet_lib,
      rt_pid = 1, rt_iter = (\<lambda>xs. xs), rt_defaults = rt_defaults quiet_lib\<rparr>"

definition sample_mo :: migration_options where
  "sample_mo = \<lparr>mo_source = ''.'', mo_namespace = ''w'', mo_data_dir = ''d'', mo_database = ''postgres'', mo_max_connections = 8\<rparr>"

lemma deaf_issue: "(\<And>ps. c \<noteq> Query q ps) \<Longrightarrow> issue (deaf_engine q answer) c s = (Inr [], s\<lparr>trace := trace s @ [c]\<rparr>)"
  by (simp add: issue_def deaf_engine_def)

lemma deaf_lib_simps [simp]:
  "rt_engine (deaf_lib q answer cache_new) = deaf_engine q answer" "rt_host (deaf_lib q answer cache_new) = (\<lambda>a w. (Inr [], w))"
  "rt_moka_new (deaf_lib q answer cache_new) = cache_new"
  by (simp_all add: deaf_lib_def)

lemma deaf_open:
  "\<exists>dsn t. open_primary_db (deaf_engine q answer) (\<lambda>a w. (Inr [], w)) (rt_os (deaf_lib q answer cache_new))
     (rt_pg_display (deaf_lib q answer cache_new)) (migrate_source sample_mo) s = (Inr dsn, t)"
proof -
  have check: "check_primary_source (migrate_source sample_mo) = Inr ()" by code_simp
  have dsn: "primary_dsn (Some ''postgres://h/d'') ''postgres'' = Inr ''postgres://h/postgres''" by code_simp
  have src: "ps_database (migrate_source sample_mo) = ''postgres''" by (simp add: migrate_source_def sample_mo_def)
  show ?thesis
    unfolding open_primary_db_def Let_def check src
    by (simp add: bind_prog_def recover_primary_def open_db_def deaf_lib_def acquire_def
        or_close_def try_prog_def read_world_def dsn deaf_engine_def)
qed

lemma deaf_assemble:
  assumes "q \<notin> {scan_tables_query, scan_pk_query, scan_full_query}"
  shows "\<exists>a t. assemble_primary (deaf_lib q answer cache_new) cache auth_none s = (Inr a, t)"
proof -
  have v: "into_verifier jwt auth_none = Inr None" for jwt :: "unit jwt_lib"
    by (simp add: into_verifier_def verifier_build_def auth_none_def)
  have "scan_tables_query \<noteq> q" "scan_pk_query \<noteq> q" "scan_full_query \<noteq> q" using assms by auto
  then show ?thesis
    by (simp add: assemble_primary_def scan_schema_def observer_start_def deaf_issue bind_prog_def perform_def v
        group_pk_def single_pk_def List.map_filter_simps acquire_def try_prog_def Let_def)
qed

lemma deaf_handoff: "fst (handoff_legacy_ledgers (deaf_engine q answer) s) = Inr ()"
  by (simp add: handoff_legacy_ledgers_def ensure_ledgers_def commit_or_rollback_def handoff_body_def tx_read_def tx_query_def
      deaf_issue bind_prog_def first_flag_def)

lemma deaf_open_pgpaw:
  assumes "q \<notin> {scan_tables_query, scan_pk_query, scan_full_query}"
  shows "\<exists>pp t. open_pgpaw (deaf_lib q answer cache_new) (with_source (PrimaryOf (migrate_source sample_mo)) builder) s = (Inr pp, t)"
proof -
  let ?lib = "deaf_lib q answer cache_new"
  obtain dsn t1 where 1: "open_primary_db (deaf_engine q answer) (\<lambda>a w. (Inr [], w)) (rt_os ?lib) (rt_pg_display ?lib) (migrate_source sample_mo) s = (Inr dsn, t1)"
    using deaf_open by blast
  obtain a t2 where 2: "assemble_primary ?lib cache_default auth_none t1 = (Inr a, t2)" using deaf_assemble [OF assms] by blast
  obtain t3 where 3: "handoff_legacy_ledgers (deaf_engine q answer) t2 = (Inr (), t3)" using deaf_handoff [of q answer t2] by (metis prod.collapse)
  show ?thesis
    by (cases a) (use 1 2 3 in \<open>simp add: open_pgpaw_def with_source_def builder_def build_read_core_def build_primary_core_def
        bind_prog_def or_close_def try_prog_def handoff_step_def or_abort_def start_http_def\<close>)
qed

lemma ledger_not_scanned: "ledger_query \<notin> {scan_tables_query, scan_pk_query, scan_full_query}"
  by (simp add: scan_tables_query_def scan_pk_query_def scan_full_query_def ledger_query_def)

text \<open>One that is gone when the ledger is read.\<close>

definition lost_lib :: "(unit, unit, unit) rt_lib" where
  "lost_lib = deaf_lib ledger_query (\<lambda>_. Inl Closed) (\<lambda>_. ())"

theorem failed_migration_keeps_engine_witness:
  "\<exists>u. migrate lost_lib (sample_front (sample_query [] None) [] []) (\<lambda>t. t) sample_fs sample_mo \<lparr>world = (), trace = []\<rparr> =
       (Inl (Pglite Closed), u) \<and> still_held (trace u) {} = {RDb, RListen}"
proof -
  let ?s = "\<lparr>world = (), trace = []\<rparr>"
  obtain m1 m2 where d: "discover_migrations sample_fs (mo_namespace sample_mo) = Inr ([\<lparr>app = ''w'', rel_dir = ''migrations'', files = [m1, m2]\<rparr>], [])"
    using sample_discover by (auto simp: sample_mo_def)
  obtain pp t where o': "open_pgpaw lost_lib (with_source (PrimaryOf (migrate_source sample_mo)) builder) ?s = (Inr pp, t)"
    unfolding lost_lib_def
    using deaf_open_pgpaw [OF ledger_not_scanned] by blast
  have e: "rt_engine lost_lib = deaf_engine ledger_query (\<lambda>_. Inl Closed)" by (simp add: lost_lib_def)
  obtain u where a: "apply_migrations (rt_engine lost_lib) (sample_front (sample_query [] None) [] []) (\<lambda>t. t) (rt_pg_display lost_lib)
      (mo_namespace sample_mo) [\<lparr>app = ''w'', rel_dir = ''migrations'', files = [m1, m2]\<rparr>] t = (Inl (Pglite Closed), u)"
    unfolding e by (simp add: apply_migrations_def ensure_ledgers_def apply_chain_def bind_prog_def issue_def deaf_engine_def)
  from failed_migration_keeps_engine [OF d o' a] show ?thesis by auto
qed

end
