(* ===== verification/Wire.thy ===== *)
theory Wire
  imports Unb
begin

text \<open>
  The JSON form of the payloads (\<open>protocol/payload.rs\<close>), as the attributes of the types give it: field
  names in camel case for replies, a \<open>type\<close> tag in kebab case for events, defaults for parameters.
  Values are read from their object form; the positional form that the decoder also accepts is not
  modelled.

  The lemmas show which events and replies survive being written and read.
\<close>

subsection \<open>Reading fields\<close>

text \<open>An optional field: absent and \<open>null\<close> are the same.\<close>

definition optional_field :: "string \<Rightarrow> json \<Rightarrow> json option" where
  "optional_field field v = (case json_get field v of Some Null \<Rightarrow> None | r \<Rightarrow> r)"

definition optional_string :: "string \<Rightarrow> json \<Rightarrow> string option option" where
  "optional_string field v =
     (case optional_field field v of None \<Rightarrow> Some None | Some r \<Rightarrow> map_option Some (as_str r))"

definition string_at :: "string \<Rightarrow> json \<Rightarrow> string option" where
  "string_at field v = Option.bind (json_get field v) as_str"

definition u32_at :: "string \<Rightarrow> json \<Rightarrow> u32 option" where
  "u32_at field v = Option.bind (Option.bind (json_get field v) as_u64) try_into_u32"

subsection \<open>Requests and replies\<close>

definition sql_request_of_json :: "json \<Rightarrow> sql_request option" where
  "sql_request_of_json v =
     Option.bind (string_at ''sql'' v) (\<lambda>sql.
     Option.bind (case json_get ''params'' v of None \<Rightarrow> Some [] | Some ps \<Rightarrow> as_array ps) (\<lambda>params.
     Option.bind (optional_string ''bearer'' v) (\<lambda>bearer.
       Some \<lparr>rq_sql = sql, rq_params = params, rq_bearer = bearer\<rparr>)))"

definition sql_reply_json :: "sql_reply \<Rightarrow> json" where
  "sql_reply_json r =
     mk_object [(''command'', String (rp_command r)), (''rows'', rp_rows r), (''rowsAffected'', Number (PosInt (rp_rows_affected r)))]"

definition sql_reply_of_json :: "json \<Rightarrow> sql_reply option" where
  "sql_reply_of_json v =
     Option.bind (string_at ''command'' v) (\<lambda>command.
     Option.bind (json_get ''rows'' v) (\<lambda>rows.
     Option.bind (Option.bind (json_get ''rowsAffected'' v) as_u64) (\<lambda>n.
       Some \<lparr>rp_command = command, rp_rows = rows, rp_rows_affected = n\<rparr>)))"

lemma sql_reply_roundtrip: "sql_reply_of_json (sql_reply_json r) = Some r"
  by (simp add: sql_reply_of_json_def sql_reply_json_def string_at_def)

lemma sql_request_defaults:
  "sql_request_of_json (mk_object [(''sql'', String sql)]) = Some \<lparr>rq_sql = sql, rq_params = [], rq_bearer = None\<rparr>"
  by (simp add: sql_request_of_json_def string_at_def optional_string_def optional_field_def)

subsection \<open>Events\<close>

definition row_json :: "string \<Rightarrow> string \<Rightarrow> json \<Rightarrow> u32 \<Rightarrow> json" where
  "row_json tag key row txid =
     mk_object [(''type'', String tag), (''key'', String key), (''row'', row), (''txid'', Number (PosInt (ucast txid)))]"

fun live_event_json :: "live_event \<Rightarrow> json" where
  "live_event_json (EvSnapshot rows hash version) =
     mk_object [(''type'', String ''snapshot''), (''rows'', case rows of Some r \<Rightarrow> r | None \<Rightarrow> Null),
                (''hash'', case hash of Some h \<Rightarrow> String h | None \<Rightarrow> Null), (''version'', Number (PosInt version))]"
| "live_event_json (EvInsert key row txid) = row_json ''insert'' key row txid"
| "live_event_json (EvUpdate key row txid) = row_json ''update'' key row txid"
| "live_event_json (EvDelete key row txid) = row_json ''delete'' key row txid"
| "live_event_json (EvUpToDate txid) = mk_object [(''type'', String ''up-to-date''), (''txid'', Number (PosInt (ucast txid)))]"
| "live_event_json EvReset = mk_object [(''type'', String ''reset'')]"

definition row_of_json :: "(string \<Rightarrow> json \<Rightarrow> u32 \<Rightarrow> live_event) \<Rightarrow> json \<Rightarrow> live_event option" where
  "row_of_json event_of v =
     Option.bind (string_at ''key'' v) (\<lambda>key.
     Option.bind (json_get ''row'' v) (\<lambda>row.
     Option.bind (u32_at ''txid'' v) (\<lambda>txid. Some (event_of key row txid))))"

definition live_event_of_json :: "json \<Rightarrow> live_event option" where
  "live_event_of_json v =
     Option.bind (string_at ''type'' v) (\<lambda>tag.
       if tag = ''snapshot'' then
         Option.bind (optional_string ''hash'' v) (\<lambda>hash.
         Option.bind (Option.bind (json_get ''version'' v) as_u64) (\<lambda>version.
           Some (EvSnapshot (optional_field ''rows'' v) hash version)))
       else if tag = ''insert'' then row_of_json EvInsert v
       else if tag = ''update'' then row_of_json EvUpdate v
       else if tag = ''delete'' then row_of_json EvDelete v
       else if tag = ''up-to-date'' then Option.bind (u32_at ''txid'' v) (\<lambda>txid. Some (EvUpToDate txid))
       else if tag = ''reset'' then Some EvReset
       else None)"

text \<open>
  Every event is read back as it was written, except that a snapshot whose rows are the value
  \<open>null\<close> is read as one without rows.
\<close>

lemma row_of_json_row:
  "row_of_json event_of (row_json tag key row txid) = Some (event_of key row txid)" "string_at ''type'' (row_json tag key row txid) = Some tag"
  by (simp_all add: row_of_json_def row_json_def string_at_def u32_at_def try_into_u32_ucast)

lemma live_event_roundtrip:
  "live_event_of_json (live_event_json e) =
     Some (case e of EvSnapshot (Some Null) hash version \<Rightarrow> EvSnapshot None hash version | _ \<Rightarrow> e)"
proof (cases e)
  case (EvSnapshot rows hash version)
  then show ?thesis
    by (cases rows; cases hash; cases "the rows")
      (simp_all add: live_event_of_json_def string_at_def optional_string_def optional_field_def)
next
  case (EvUpToDate txid)
  then show ?thesis by (simp add: live_event_of_json_def string_at_def u32_at_def try_into_u32_ucast)
qed (simp_all add: live_event_of_json_def row_of_json_row, simp add: string_at_def)

end
