(* ===== verification/Client.thy ===== *)
theory Client
  imports Session Cli Wire
begin

text \<open>
  The programs that use the server from outside: the load generator (\<open>bench/src/main.rs\<close>) and the
  client of the integration tests (\<open>integration-tests/src/lib.rs\<close>).  Modelled are the reader of the
  event stream, the client that follows a redirect, the loops that wait for a state of the server,
  the report of the measurements, and the builders both start a server with.  The upstream server
  they start, its clock and the HTTP client are packages.

  The lemmas show that the reader returns exactly the frames that were sent, however the transport
  cuts them, and that the location of a redirect leads to the result that was materialized.
\<close>

subsection \<open>\<open>String::from_utf8_lossy\<close>\<close>

text \<open>
  The bytes that may follow a lead byte: \<open>utf8_next b\<close> are the ranges of the continuation bytes.
  An incomplete or ill-formed sequence is replaced by one replacement character per maximal part.
\<close>

definition cont :: "nat \<times> nat" where
  "cont = (0x80, 0xBF)"

definition utf8_next :: "nat \<Rightarrow> (nat \<times> nat) list option" where
  "utf8_next b =
     (if b < 0x80 then Some []
      else if 0xC2 \<le> b \<and> b \<le> 0xDF then Some [cont]
      else if b = 0xE0 then Some [(0xA0, 0xBF), cont]
      else if 0xE1 \<le> b \<and> b \<le> 0xEC \<or> 0xEE \<le> b \<and> b \<le> 0xEF then Some [cont, cont]
      else if b = 0xED then Some [(0x80, 0x9F), cont]
      else if b = 0xF0 then Some [(0x90, 0xBF), cont, cont]
      else if 0xF1 \<le> b \<and> b \<le> 0xF3 then Some [cont, cont, cont]
      else if b = 0xF4 then Some [(0x80, 0x8F), cont, cont]
      else None)"

fun utf8_tail :: "(nat \<times> nat) list \<Rightarrow> string \<Rightarrow> nat \<times> bool" where
  "utf8_tail [] s = (0, True)"
| "utf8_tail ((lo, hi) # rs) [] = (0, False)"
| "utf8_tail ((lo, hi) # rs) (c # s) =
     (if lo \<le> of_char c \<and> of_char c \<le> hi then (case utf8_tail rs s of (n, ok) \<Rightarrow> (Suc n, ok)) else (0, False))"

definition replacement :: string where
  "replacement = [CHR 0xEF, CHR 0xBF, CHR 0xBD]"

function from_utf8_lossy :: "string \<Rightarrow> string" where
  "from_utf8_lossy [] = []"
| "from_utf8_lossy (c # s) =
     (case utf8_next (of_char c) of
        None \<Rightarrow> replacement @ from_utf8_lossy s
      | Some rs \<Rightarrow>
          (case utf8_tail rs s of
             (n, ok) \<Rightarrow> (if ok then c # take n s else replacement) @ from_utf8_lossy (drop n s)))"
  by pat_completeness auto
termination
  by (relation "measure length") (simp_all add: less_Suc_eq_le)

lemma from_utf8_lossy_ascii: "\<forall>c \<in> set s. (of_char c :: nat) < 0x80 \<Longrightarrow> from_utf8_lossy s = s"
  by (induction s) (simp_all add: utf8_next_def)

subsection \<open>The reader of the event stream\<close>

text \<open>\<open>str::find\<close> with a string pattern: the position of its first occurrence.\<close>

fun find_str :: "string \<Rightarrow> string \<Rightarrow> nat option" where
  "find_str pat [] = (if pat = [] then Some 0 else None)"
| "find_str pat (c # s) = (if prefix pat (c # s) then Some 0 else map_option Suc (find_str pat s))"

definition blank_line :: string where
  "blank_line = [CHR 0x0A, CHR 0x0A]"

lemma find_str_Some: "find_str pat s = Some p \<Longrightarrow> p + length pat \<le> length s"
proof (induction pat s arbitrary: p rule: find_str.induct)
  case (2 pat c s)
  then show ?case by (auto split: if_splits dest: prefix_length_le)
qed (auto split: if_splits)

text \<open>
  The chunks of the response: \<open>None\<close> is a transport error, the end of the list the end of the stream.
  Besides the event the reader leaves the chunks and the buffer it has not used.
\<close>

datatype read_failure = Transport | StreamClosed

function next_event :: "string option list \<Rightarrow> string \<Rightarrow> (read_failure + string) \<times> string option list \<times> string" where
  "next_event chunks buf =
     (case find_str blank_line buf of
        Some pos \<Rightarrow>
          (let evt = trim (take (pos + 2) buf); buf' = drop (pos + 2) buf
           in if evt = [] then next_event chunks buf' else (Inr evt, chunks, buf'))
      | None \<Rightarrow>
          (case chunks of
             [] \<Rightarrow> (Inl StreamClosed, [], buf)
           | None # rest \<Rightarrow> (Inl Transport, rest, buf)
           | Some chunk # rest \<Rightarrow> next_event rest (buf @ from_utf8_lossy chunk)))"
  by pat_completeness auto
termination
proof (relation "measures [\<lambda>(chunks, buf). length chunks, \<lambda>(chunks, buf). length buf]")
  fix chunks :: "string option list" and buf pos evt buf'
  assume "find_str blank_line buf = Some pos" "buf' = drop (pos + 2) buf"
  then show "((chunks, buf'), chunks, buf) \<in> measures [\<lambda>(chunks, buf). length chunks, \<lambda>(chunks, buf). length buf]"
    using find_str_Some [of blank_line buf pos] by (auto simp: blank_line_def)
qed auto

declare next_event.simps [simp del]

fun read_events :: "nat \<Rightarrow> string option list \<Rightarrow> string \<Rightarrow> (read_failure + string) list" where
  "read_events 0 chunks buf = []"
| "read_events (Suc n) chunks buf =
     (case next_event chunks buf of (r, chunks', buf') \<Rightarrow> r # read_events n chunks' buf')"

text \<open>The inner loop of the realtime measurement: skip events until one carries a row operation.\<close>

definition is_row_event :: "string \<Rightarrow> bool" where
  "is_row_event evt \<longleftrightarrow>
     contains_str evt ([CHR 0x22] @ ''op'' @ [CHR 0x22]) \<and> \<not> contains_str evt ''up-to-date''"

lemma next_event_shorter:
  "next_event chunks buf = (Inr evt, chunks', buf') \<Longrightarrow>
     length chunks' < length chunks \<or> length chunks' = length chunks \<and> length buf' < length buf"
proof (induction chunks buf rule: next_event.induct)
  case (1 chunks buf)
  show ?case
  proof (cases "find_str blank_line buf")
    case (Some pos)
    have le: "pos + 2 \<le> length buf" using find_str_Some [OF Some] by (simp add: blank_line_def)
    show ?thesis
    proof (cases "trim (take (pos + 2) buf) = []")
      case True
      then show ?thesis using "1.IH"(2) [OF Some refl refl True] "1.prems" Some le
        by (subst (asm) next_event.simps) (auto simp: Let_def)
    next
      case False
      then show ?thesis using "1.prems" Some le by (subst (asm) next_event.simps) (auto simp: Let_def)
    qed
  next
    case None
    then obtain chunk rest where c: "chunks = Some chunk # rest" "next_event rest (buf @ from_utf8_lossy chunk) = (Inr evt, chunks', buf')"
      using "1.prems" by (subst (asm) next_event.simps) (auto split: list.splits option.splits)
    from "1.IH"(1) [OF None c(1) refl c(2)] show ?thesis using c(1) by auto
  qed
qed

function await_row_event :: "string option list \<Rightarrow> string \<Rightarrow> (read_failure + string) \<times> string option list \<times> string" where
  "await_row_event chunks buf =
     (case next_event chunks buf of
        (Inr evt, chunks', buf') \<Rightarrow> if is_row_event evt then (Inr evt, chunks', buf') else await_row_event chunks' buf'
      | (Inl e, chunks', buf') \<Rightarrow> (Inl e, chunks', buf'))"
  by pat_completeness auto
termination
  by (relation "measures [\<lambda>(chunks, buf). length chunks, \<lambda>(chunks, buf). length buf]") (auto dest: next_event_shorter [OF sym])

declare await_row_event.simps [simp del]

lemma find_str_blank: "CHR 0x0A \<notin> set a \<Longrightarrow> find_str blank_line (a @ CHR 0x0A # CHR 0x0A # b) = Some (length a)"
  by (induction a) (auto simp: blank_line_def)

lemma find_str_none: "CHR 0x0A \<notin> set a \<Longrightarrow> find_str blank_line a = None \<and> find_str blank_line (a @ [CHR 0x0A]) = None"
  by (induction a) (auto simp: blank_line_def prefix_Cons)

text \<open>A frame whose payload is the text of an object on one line.\<close>

definition object_frame :: "string \<Rightarrow> bool" where
  "object_frame frame \<longleftrightarrow> (\<exists>t. frame = sse_frame (CHR ''{'' # t @ [CHR ''}'']) \<and> CHR 0x0A \<notin> set t)"

lemma object_frame_shape:
  assumes "object_frame frame"
  obtains a where "frame = a @ [CHR 0x0A, CHR 0x0A]" "CHR 0x0A \<notin> set a" "trim frame = a" "a \<noteq> []"
proof -
  from assms obtain t where t: "frame = sse_frame (CHR ''{'' # t @ [CHR ''}''])" "CHR 0x0A \<notin> set t"
    unfolding object_frame_def by blast
  have "trim frame = ''data: '' @ CHR ''{'' # t @ [CHR ''}'']" unfolding t(1) by (rule trim_frame) blast
  then show ?thesis using that [of "''data: '' @ CHR ''{'' # t @ [CHR ''}'']"] t by (simp add: sse_frame_def)
qed

lemma next_event_frame:
  assumes "object_frame frame" and "\<forall>c \<in> set chunks. from_utf8_lossy c = c" and "buf @ concat chunks = frame @ rest"
  shows "\<exists>chunks' buf'. next_event (map Some chunks) buf = (Inr (trim frame), map Some chunks', buf') \<and>
    set chunks' \<subseteq> set chunks \<and> buf' @ concat chunks' = rest"
  using assms(2,3)
proof (induction chunks arbitrary: buf)
  case Nil
  from assms(1) obtain a where a: "frame = a @ [CHR 0x0A, CHR 0x0A]" "CHR 0x0A \<notin> set a" "trim frame = a" "a \<noteq> []"
    by (rule object_frame_shape)
  have "next_event (map Some []) buf = (Inr (trim frame), map Some [], rest)"
    using Nil a find_str_blank [OF a(2), of rest] by (subst next_event.simps) (simp add: Let_def)
  then show ?case by (intro exI [of _ "[]"] exI [of _ rest]) simp
next
  case (Cons c cs)
  from assms(1) obtain a where a: "frame = a @ [CHR 0x0A, CHR 0x0A]" "CHR 0x0A \<notin> set a" "trim frame = a" "a \<noteq> []"
    by (rule object_frame_shape)
  show ?case
  proof (cases "length frame \<le> length buf")
    case True
    then obtain b where b: "buf = frame @ b" "b @ concat (c # cs) = rest"
      using Cons.prems(2) by (auto simp: append_eq_append_conv2)
    have "next_event (map Some (c # cs)) buf = (Inr (trim frame), map Some (c # cs), b)"
      using a b(1) find_str_blank [OF a(2), of b] by (subst next_event.simps) (simp add: Let_def)
    then show ?thesis using b(2) by blast
  next
    case False
    then obtain d where d: "frame = buf @ d" "d \<noteq> []"
      using Cons.prems(2) by (auto simp: append_eq_append_conv2)
    then have "(a @ [CHR 0x0A]) @ [CHR 0x0A] = (buf @ butlast d) @ [last d]" using a(1) by simp
    then have "a @ [CHR 0x0A] = buf @ butlast d" by blast
    then have "find_str blank_line buf = None"
    proof (cases "butlast d" rule: rev_cases)
      case Nil
      then have "buf = a @ [CHR 0x0A]" using \<open>a @ [CHR 0x0A] = buf @ butlast d\<close> by simp
      then show ?thesis using find_str_none [OF a(2)] by simp
    next
      case (snoc e x)
      then have "a = buf @ e" using \<open>a @ [CHR 0x0A] = buf @ butlast d\<close> by simp
      then show ?thesis using find_str_none [of buf] a(2) by simp
    qed
    then have step: "next_event (map Some (c # cs)) buf = next_event (map Some cs) (buf @ c)"
      using Cons.prems(1) by (subst next_event.simps) simp
    have "\<forall>c \<in> set cs. from_utf8_lossy c = c" "(buf @ c) @ concat cs = frame @ rest" using Cons.prems by simp_all
    from Cons.IH [OF this] show ?thesis unfolding step by auto
  qed
qed

lemma next_event_closed: "concat chunks = [] \<Longrightarrow> fst (next_event (map Some chunks) []) = Inl StreamClosed"
  by (induction chunks) (subst next_event.simps, simp add: blank_line_def)+

lemma read_frames:
  assumes "\<forall>frame \<in> set frames. object_frame frame" and "\<forall>c \<in> set chunks. from_utf8_lossy c = c"
    and "buf @ concat chunks = concat frames"
  shows "read_events (Suc (length frames)) (map Some chunks) buf = map (\<lambda>frame. Inr (trim frame)) frames @ [Inl StreamClosed]"
  using assms
proof (induction frames arbitrary: chunks buf)
  case Nil
  then show ?case using next_event_closed [of chunks] by (cases "next_event (map Some chunks) []") simp
next
  case (Cons frame frames)
  from next_event_frame [of frame chunks buf "concat frames"] Cons.prems obtain chunks' buf' where
      n: "next_event (map Some chunks) buf = (Inr (trim frame), map Some chunks', buf')"
      "set chunks' \<subseteq> set chunks" "buf' @ concat chunks' = concat frames" by auto
  have "read_events (Suc (length frames)) (map Some chunks') buf' = map (\<lambda>frame. Inr (trim frame)) frames @ [Inl StreamClosed]"
    using Cons.prems n(2,3) by (intro Cons.IH) auto
  then show ?case by (simp add: n(1))
qed

text \<open>The frames of a word are object frames.\<close>

lemma object_frame_mk:
  assumes "json_roundtrip json_text from_str" and "json_compact json_text" and "\<forall>p \<in> set kvs. json_plain (snd p)"
  shows "object_frame (sse_frame (json_text (mk_object kvs)))"
proof -
  have plain: "json_plain (mk_object kvs)" using json_plain_mk_object [OF assms(3)] .
  then obtain t where t: "json_text (mk_object kvs) = CHR ''{'' # t @ [CHR ''}'']"
    using assms(2) unfolding mk_object_def json_compact_def by blast
  have "CHR 0x0A \<notin> set (json_text (mk_object kvs))" using assms(1) plain by (simp add: json_roundtrip_def)
  then show ?thesis unfolding object_frame_def t by auto
qed

lemma stream_word_object_frames:
  assumes "stream_word json_text from_str ended frames"
    and "json_roundtrip json_text from_str" and "json_compact json_text"
  shows "\<forall>frame \<in> set frames. object_frame frame"
  using assms(1)
proof induction
  case (word_start scoped hash version snapshot_body)
  have "json_plain (case from_str snapshot_body of Some rows \<Rightarrow> rows | None \<Rightarrow> Array [])"
    using json_roundtrip_read [OF assms(2)] by (auto split: option.splits)
  then show ?case by (cases scoped) (simp_all add: snapshot_frame_def object_frame_mk [OF assms(2,3)])
next
  case (word_block frames ds txid)
  have "object_frame (encode json_text d txid)" if "d \<in> set ds" for d
  proof -
    have "json_member (delta_row d)" using word_block.hyps(2) that by blast
    from delta_payload_object [OF this] obtain kvs where
        kvs: "delta_payload d txid = mk_object kvs" "\<forall>p \<in> set kvs. json_member (snd p)" by blast
    then show ?thesis using object_frame_mk [OF assms(2,3), of kvs] by (simp add: encode_def json_member_def)
  qed
  moreover have "object_frame (up_to_date json_text txid)" unfolding up_to_date_def by (rule object_frame_mk [OF assms(2,3)]) simp
  ultimately show ?case using word_block.IH by auto
next
  case (word_reset frames)
  have "reset = sse_frame reset_text" by (simp add: reset_def reset_text_def sse_frame_def)
  moreover have "object_frame (sse_frame reset_text)"
    unfolding object_frame_def by (rule exI [of _ "[CHR 0x22] @ ''op'' @ [CHR 0x22] @ '':'' @ [CHR 0x22] @ ''reset'' @ [CHR 0x22]"])
      (simp add: reset_text_def)
  ultimately show ?case using word_reset.IH by auto
qed

lemma reachable_word:
  assumes "json_roundtrip json_text from_str" and "live_init s0"
    and "(live_step eng json_text from_str finish)\<^sup>*\<^sup>* s0 s"
    and "length (h_chans (st_hub s)) \<le> 2 ^ 64" and "i < length (h_chans (st_hub s))"
  shows "\<exists>ended. stream_word json_text from_str ended (ch_frames (h_chans (st_hub s) ! i))"
proof -
  have "(\<lambda>s t. json_roundtrip json_text from_str \<and> live_step eng json_text from_str finish s t)\<^sup>*\<^sup>* s0 s"
    using assms(1,3) by simp
  from sess.inv_reachable [OF assms(2) this] show ?thesis
    using assms(4,5) by (auto simp: session_inv_def streams_ok_def chan_ok_def)
qed

subsection \<open>The client of the tests\<close>

text \<open>\<open>bearer_auth\<close> writes the token behind the scheme; the client does not follow redirects itself.\<close>

definition bearer_header :: "string option \<Rightarrow> string option" where
  "bearer_header token = map_option (\<lambda>t. ''Bearer '' @ t) token"

definition client_query ::
  "('w, 'm) read_lib \<Rightarrow> 'k jwt_lib \<Rightarrow> (string \<Rightarrow> string option) \<Rightarrow> bool option \<Rightarrow> string \<Rightarrow> string option \<Rightarrow>
   ('w, 'm, 'k) read_state \<Rightarrow> outcome \<times> ('w, 'm, 'k) read_state" where
  "client_query lib jwt to_str live sql header s =
     http_query lib live sql (authenticate_request jwt (l_json_text lib) to_str (Some (rs_verifier s)) header) s"

definition client_live ::
  "('w, 'm) read_lib \<Rightarrow> 'k jwt_lib \<Rightarrow> (string \<Rightarrow> string option) \<Rightarrow> string \<Rightarrow> string option \<Rightarrow>
   ('w, 'm, 'k) read_state \<Rightarrow> outcome \<times> ('w, 'm, 'k) read_state" where
  "client_live lib jwt to_str sql token s = client_query lib jwt to_str (Some True) sql (bearer_header token) s"

definition client_query_auth ::
  "('w, 'm) read_lib \<Rightarrow> 'k jwt_lib \<Rightarrow> (string \<Rightarrow> string option) \<Rightarrow> string \<Rightarrow> string \<Rightarrow>
   ('w, 'm, 'k) read_state \<Rightarrow> outcome \<times> ('w, 'm, 'k) read_state" where
  "client_query_auth lib jwt to_str sql authorization s = client_query lib jwt to_str None sql (Some authorization) s"

text \<open>The route \<open>/q/{hash}/{version}\<close>: two further segments, neither empty.\<close>

definition cursor_route :: "string \<Rightarrow> (string \<times> string) option" where
  "cursor_route path =
     (case split_on (\<lambda>c. c = CHR ''/'') path of
        [a, q, hash, version] \<Rightarrow> if a = [] \<and> q = ''q'' \<and> hash \<noteq> [] \<and> version \<noteq> [] then Some (hash, version) else None
      | _ \<Rightarrow> None)"

definition client_cursor ::
  "('w, 'm) read_lib \<Rightarrow> string \<Rightarrow> ('w, 'm, 'k) read_state \<Rightarrow> outcome \<times> ('w, 'm, 'k) read_state" where
  "client_cursor lib location s =
     (case cursor_route location of
        Some (hash, version) \<Rightarrow> http_cursor lib hash version s
      | None \<Rightarrow> (Some \<lparr>resp_status = 404, resp_headers = [], resp_content = NoContent\<rparr>, s))"

definition resp_header :: "string \<Rightarrow> http_response \<Rightarrow> string option" where
  "resp_header name resp = map_option snd (List.find (\<lambda>(n, v). eq_ignore_ascii_case n name) (resp_headers resp))"

definition cache_control :: "http_response \<Rightarrow> string" where
  "cache_control resp = (case resp_header ''cache-control'' resp of Some v \<Rightarrow> v | None \<Rightarrow> [])"

text \<open>\<open>None\<close> is a panic: no answer, or a body that is not a JSON array.\<close>

definition array_of :: "json_parser \<Rightarrow> outcome \<Rightarrow> json list option" where
  "array_of from_str out =
     (case out of
        Some resp \<Rightarrow> (case resp_content resp of Content t \<Rightarrow> Option.bind (from_str t) as_array | _ \<Rightarrow> None)
      | None \<Rightarrow> None)"

definition client_rows ::
  "('w, 'm) read_lib \<Rightarrow> 'k jwt_lib \<Rightarrow> (string \<Rightarrow> string option) \<Rightarrow> string \<Rightarrow> string option \<Rightarrow>
   ('w, 'm, 'k) read_state \<Rightarrow> json list option \<times> ('w, 'm, 'k) read_state" where
  "client_rows lib jwt to_str sql token s =
     (case client_query lib jwt to_str None sql (bearer_header token) s of
        (None, s1) \<Rightarrow> (None, s1)
      | (Some resp, s1) \<Rightarrow>
          if resp_status resp = 303 then
            (case resp_header ''location'' resp of
               None \<Rightarrow> (None, s1)
             | Some location \<Rightarrow>
                 (case client_cursor lib location s1 of (followed, s2) \<Rightarrow> (array_of (l_from_str lib) followed, s2)))
          else if resp_status resp = 200 then (array_of (l_from_str lib) (Some resp), s1)
          else (None, s1))"

lemma split_on_slash:
  "CHR ''/'' \<notin> set a \<Longrightarrow> split_on (\<lambda>c. c = CHR ''/'') (a @ CHR ''/'' # b) = a # split_on (\<lambda>c. c = CHR ''/'') b"
  by (induction a) auto

lemma show_nat_no_slash: "CHR ''/'' \<notin> set (show_nat n)"
  unfolding show_nat_def using digit_chars_code [of "CHR ''/''" 10 n] by auto

lemma cursor_route_location:
  "cursor_route (''/q/'' @ show_hex f @ ''/'' @ show_nat n) = Some (show_hex f, show_nat n)"
proof -
  have "split_on (\<lambda>c. c = CHR ''/'') (show_hex f @ CHR ''/'' # show_nat n) = [show_hex f, show_nat n]"
    using split_on_slash [OF show_hex_no_slash, of f "show_nat n"] split_on_no_sep [of "show_nat n" "\<lambda>c. c = CHR ''/''"]
      show_nat_no_slash by auto
  then show ?thesis by (simp add: cursor_route_def show_hex_def show_nat_def)
qed

definition content_text :: "outcome \<Rightarrow> string option" where
  "content_text out =
     (case out of
        Some resp \<Rightarrow>
          (case resp_content resp of Content t \<Rightarrow> if resp_status resp < 400 then Some t else None | _ \<Rightarrow> None)
      | None \<Rightarrow> None)"

text \<open>
  An entry that was just inserted or found is found again: the documented behaviour of the map while
  nothing is evicted in between.
\<close>

definition moka_keeps :: "'m moka \<Rightarrow> bool" where
  "moka_keeps mk \<longleftrightarrow>
     (\<forall>k v m. fst (m_get mk k (m_insert mk k v m)) = Some v) \<and>
     (\<forall>k m v m'. m_get mk k m = (Some v, m') \<longrightarrow> fst (m_get mk k m') = Some v)"

lemma get_or_compute_found:
  assumes "moka_keeps mk" and "get_or_compute mk key compute (m, s) = (Inr v, m', s')"
  shows "fst (m_get mk key m') = Some v"
proof -
  obtain hit m1 where g: "m_get mk key m = (hit, m1)" by (cases "m_get mk key m")
  then show ?thesis
    using assms by (cases hit) (auto simp: get_or_compute_def moka_keeps_def Let_def split: prod.splits sum.splits)
qed

lemma materialize_found:
  assumes "moka_keeps (l_moka lib)" and "materialize lib read s = (Inr (hash, v, snap), t)"
  shows "\<exists>u. cursor lib hash (show_nat (unat v)) t = (Some snap, u) \<and> hash = show_hex (fingerprint (pr_query read))"
proof -
  let ?hash = "show_hex (fingerprint (pr_query read))" and ?v = "query_version read s"
  let ?key = "cursor_key ?hash (show_nat (unat ?v))"
  let ?q = "query_json_scoped (l_engine lib) None None (q_sql (pr_query read)) (q_params (pr_query read))"
  obtain q m io where g: "get_or_compute (l_moka lib) ?key ?q (rs_cache s, rs_io s) = (q, m, io)"
    by (cases "get_or_compute (l_moka lib) ?key ?q (rs_cache s, rs_io s)")
  with assms(2) have q: "q = Inr snap" "hash = ?hash" "v = ?v" "t = s\<lparr>rs_cache := m, rs_io := io\<rparr>"
    by (auto simp: materialize_def Let_def bind_res_Inr_iff)
  from get_or_compute_found [OF assms(1) g [unfolded q(1)]] show ?thesis
    by (cases "m_get (l_moka lib) ?key m") (simp add: q cursor_def query_cache_get_def)
qed

text \<open>Materializing again what was just materialized costs no query.\<close>

lemma materialize_again:
  assumes "moka_keeps (l_moka lib)" and "materialize lib read s = (Inr (hash, v, snap), t)"
  shows "\<exists>u. materialize lib read t = (Inr (hash, v, snap), u) \<and> rs_io u = rs_io t"
proof -
  have v: "v = query_version read t" "hash = show_hex (fingerprint (pr_query read))"
    using assms(2) by (auto simp: materialize_def Let_def bind_res_Inr_iff query_version_def split: prod.splits)
  from materialize_found [OF assms] obtain u where "cursor lib hash (show_nat (unat v)) t = (Some snap, u)" by blast
  then obtain m where "m_get (l_moka lib) (cursor_key hash (show_nat (unat v))) (rs_cache t) = (Some snap, m)"
    by (auto simp: cursor_def query_cache_get_def split: prod.splits)
  then show ?thesis unfolding v by (simp add: materialize_def Let_def get_or_compute_def)
qed

text \<open>
  The client of the load generator follows redirects itself and takes any status below 400 as
  success; \<open>None\<close> is an error.
\<close>

definition bench_query ::
  "('w, 'm) read_lib \<Rightarrow> 'k jwt_lib \<Rightarrow> (string \<Rightarrow> string option) \<Rightarrow> string \<Rightarrow> ('w, 'm, 'k) read_state \<Rightarrow>
   string option \<times> ('w, 'm, 'k) read_state" where
  "bench_query lib jwt to_str sql s =
     (case client_query lib jwt to_str None sql None s of
        (None, s1) \<Rightarrow> (None, s1)
      | (Some resp, s1) \<Rightarrow>
          (case (if resp_status resp = 303 then resp_header ''location'' resp else None) of
             None \<Rightarrow> (content_text (Some resp), s1)
           | Some location \<Rightarrow> (case client_cursor lib location s1 of (followed, s2) \<Rightarrow> (content_text followed, s2))))"

subsection \<open>Waiting for the server\<close>

text \<open>
  The loops that ask again until an answer comes or the deadline has passed: \<open>polls k\<close> is what the
  question number \<open>k\<close> is answered, \<open>expired k\<close> whether the deadline has passed by then.  The value
  \<open>Some None\<close> is the panic at the deadline, \<open>None\<close> a loop that never ends.
\<close>

partial_function (option) poll_until :: "(nat \<Rightarrow> 'a option) \<Rightarrow> (nat \<Rightarrow> bool) \<Rightarrow> nat \<Rightarrow> 'a option option" where
  "poll_until polls expired k =
     (case polls k of
        Some a \<Rightarrow> Some (Some a)
      | None \<Rightarrow> if expired k then Some None else poll_until polls expired (Suc k))"

text \<open>
  What one question to the server shows.  \<open>states k\<close> is the state of the server when it is asked for
  the \<open>k\<close>-th time; other clients and the replication have acted since the last time.  The polled value
  \<open>False\<close> is the panic of an answer that is missing or not a JSON array.
\<close>

definition status_seen ::
  "('w, 'm) read_lib \<Rightarrow> 'k jwt_lib \<Rightarrow> (string \<Rightarrow> string option) \<Rightarrow> string \<Rightarrow> string option \<Rightarrow> ('w, 'm, 'k) read_state \<Rightarrow> nat option" where
  "status_seen lib jwt to_str sql token s =
     map_option resp_status (fst (client_query lib jwt to_str None sql (bearer_header token) s))"

definition wait_status ::
  "('w, 'm) read_lib \<Rightarrow> 'k jwt_lib \<Rightarrow> (string \<Rightarrow> string option) \<Rightarrow> string \<Rightarrow> string option \<Rightarrow> nat \<Rightarrow>
   (nat \<Rightarrow> ('w, 'm, 'k) read_state) \<Rightarrow> (nat \<Rightarrow> bool) \<Rightarrow> bool option option" where
  "wait_status lib jwt to_str sql token want states expired =
     poll_until (\<lambda>k. case status_seen lib jwt to_str sql token (states k) of
                       None \<Rightarrow> Some False
                     | Some got \<Rightarrow> if got = want then Some True else None) expired 0"

definition rows_seen ::
  "('w, 'm) read_lib \<Rightarrow> 'k jwt_lib \<Rightarrow> (string \<Rightarrow> string option) \<Rightarrow> string \<Rightarrow> string option \<Rightarrow> ('w, 'm, 'k) read_state \<Rightarrow>
   nat option option" where
  "rows_seen lib jwt to_str sql token s =
     (case client_query lib jwt to_str None sql (bearer_header token) s of
        (None, s1) \<Rightarrow> None
      | (Some resp, s1) \<Rightarrow>
          if resp_status resp = 200 then map_option (\<lambda>rows. Some (length rows)) (array_of (l_from_str lib) (Some resp))
          else if resp_status resp = 303 then
            (case resp_header ''location'' resp of
               Some location \<Rightarrow>
                 map_option (\<lambda>rows. Some (length rows)) (array_of (l_from_str lib) (fst (client_cursor lib location s1)))
             | None \<Rightarrow> Some None)
          else Some None)"

definition wait_rows ::
  "('w, 'm) read_lib \<Rightarrow> 'k jwt_lib \<Rightarrow> (string \<Rightarrow> string option) \<Rightarrow> string \<Rightarrow> string option \<Rightarrow> nat \<Rightarrow>
   (nat \<Rightarrow> ('w, 'm, 'k) read_state) \<Rightarrow> (nat \<Rightarrow> bool) \<Rightarrow> bool option option" where
  "wait_rows lib jwt to_str sql token want states expired =
     poll_until (\<lambda>k. case rows_seen lib jwt to_str sql token (states k) of
                       None \<Rightarrow> Some False
                     | Some got \<Rightarrow> if got = Some want then Some True else None) expired 0"

text \<open>The start of a test server: it may exit, become healthy, or neither until the deadline.\<close>

datatype launch_poll = ServerExited | Healthy

definition launch_wait :: "(nat \<Rightarrow> bool) \<Rightarrow> (nat \<Rightarrow> nat option) \<Rightarrow> (nat \<Rightarrow> bool) \<Rightarrow> launch_poll option option" where
  "launch_wait exited status expired =
     poll_until (\<lambda>k. if exited k then Some ServerExited
                      else case status k of
                        Some code \<Rightarrow> if 200 \<le> code \<and> code < 300 then Some Healthy else None
                      | None \<Rightarrow> None) expired 0"

text \<open>The load generator asks at most 1200 times.\<close>

definition wait_ready :: "(nat \<Rightarrow> nat option) \<Rightarrow> bool" where
  "wait_ready status = (\<exists>k < 1200. case status k of Some code \<Rightarrow> 200 \<le> code \<and> code < 300 | None \<Rightarrow> False)"

lemma poll_until_ends:
  assumes "expired n" and "k \<le> n"
  shows "\<exists>j r. k \<le> j \<and> j \<le> n \<and> poll_until polls expired k = Some r \<and> (\<forall>a. r = Some a \<longrightarrow> polls j = Some a) \<and>
    (\<forall>i. k \<le> i \<and> i < j \<longrightarrow> polls i = None \<and> \<not> expired i) \<and> (r = None \<longrightarrow> polls j = None \<and> expired j)"
  using assms(2)
proof (induction "n - k" arbitrary: k)
  case 0
  then have "k = n" by simp
  then show ?case using assms(1) by (intro exI [of _ k]) (subst poll_until.simps, cases "polls k", auto)
next
  case (Suc d)
  show ?case
  proof (cases "polls k = None \<and> \<not> expired k")
    case True
    have "d = n - Suc k" "Suc k \<le> n" using Suc.hyps(2) by simp_all
    from Suc.hyps(1) [OF this] obtain j r where
        j: "Suc k \<le> j" "j \<le> n" "poll_until polls expired (Suc k) = Some r" "\<forall>a. r = Some a \<longrightarrow> polls j = Some a"
        "\<forall>i. Suc k \<le> i \<and> i < j \<longrightarrow> polls i = None \<and> \<not> expired i" "r = None \<longrightarrow> polls j = None \<and> expired j" by blast
    have "poll_until polls expired k = Some r" using True j(3) by (subst poll_until.simps) simp
    moreover have "\<forall>i. k \<le> i \<and> i < j \<longrightarrow> polls i = None \<and> \<not> expired i"
      using j(5) True by (metis le_eq_less_or_eq not_less_eq_eq order.strict_trans1 nle_le)
    ultimately show ?thesis using j by (intro exI [of _ j] exI [of _ r]) auto
  next
    case False
    then show ?thesis using Suc.prems by (intro exI [of _ k]) (subst poll_until.simps, cases "polls k", auto)
  qed
qed

text \<open>When the wait for rows succeeds, some question was answered with exactly the wanted number of them.\<close>

lemma rows_seen_rows:
  "rows_seen lib jwt to_str sql token s = Some (Some n) \<Longrightarrow>
     \<exists>rows t. client_rows lib jwt to_str sql token s = (Some rows, t) \<and> length rows = n"
  by (auto simp: rows_seen_def client_rows_def split: prod.splits option.splits if_splits)

lemma wait_rows_sound:
  assumes "wait_rows lib jwt to_str sql token want states expired = Some (Some True)" and "expired n"
  shows "\<exists>k \<le> n. \<exists>rows t. client_rows lib jwt to_str sql token (states k) = (Some rows, t) \<and> length rows = want"
proof -
  let ?polls = "\<lambda>k. case rows_seen lib jwt to_str sql token (states k) of
      None \<Rightarrow> Some False | Some got \<Rightarrow> if got = Some want then Some True else None"
  obtain j r where j: "j \<le> n" "poll_until ?polls expired 0 = Some r" and found: "\<And>a. r = Some a \<Longrightarrow> ?polls j = Some a"
    using poll_until_ends [where expired = expired and n = n and k = 0 and polls = ?polls] assms(2) by blast
  have "r = Some True" using j(2) assms(1) by (simp add: wait_rows_def)
  from found [OF this] have "?polls j = Some True" .
  then have "rows_seen lib jwt to_str sql token (states j) = Some (Some want)" by (auto split: option.splits if_splits)
  from rows_seen_rows [OF this] show ?thesis using j(1) by blast
qed

subsection \<open>The load generator\<close>

definition USERS :: int where "USERS = 5000"
definition ORDERS :: int where "ORDERS = 25000"
definition READ_ITERS :: nat where "READ_ITERS = 300"
definition RT_ITERS :: nat where "RT_ITERS = 50"

text \<open>The ids the read measurements ask for, and the two texts they ask with (decimal numbers).\<close>

definition read_ids :: "int list" where
  "read_ids = map (\<lambda>i. 1 + int i mod USERS) [0..<READ_ITERS]"

definition no_join_sql :: "string \<Rightarrow> string" where
  "no_join_sql sid = ''SELECT id, name, status FROM bench_users WHERE id = '' @ sid"

definition with_join_sql :: "string \<Rightarrow> string" where
  "with_join_sql sid =
     ''SELECT u.id, u.name, o.amount FROM bench_users u JOIN bench_orders o ON o.user_id = u.id WHERE u.id = '' @ sid"

text \<open>
  One pass of the read measurements, without the clock: every text directly upstream, every text
  through the server, then one of them again and again.  A pass stops at the first error.
\<close>

fun each_until_failure :: "('a \<Rightarrow> 's \<Rightarrow> bool \<times> 's) \<Rightarrow> 'a list \<Rightarrow> 's \<Rightarrow> bool \<times> 's" where
  "each_until_failure run [] s = (True, s)"
| "each_until_failure run (x # xs) s =
     (case run x s of (False, s') \<Rightarrow> (False, s') | (True, s') \<Rightarrow> each_until_failure run xs s')"

definition direct_query :: "'w host \<Rightarrow> string \<Rightarrow> ('w, 'm, 'k) read_state \<Rightarrow> bool \<times> ('w, 'm, 'k) read_state" where
  "direct_query hst q s = (case on_io (perform hst upstream_error (UpQuery q [])) s of (r, t) \<Rightarrow> (is_ok r, t))"

definition served_query ::
  "('w, 'm) read_lib \<Rightarrow> 'k jwt_lib \<Rightarrow> (string \<Rightarrow> string option) \<Rightarrow> string \<Rightarrow> ('w, 'm, 'k) read_state \<Rightarrow>
   bool \<times> ('w, 'm, 'k) read_state" where
  "served_query lib jwt to_str q s = (case bench_query lib jwt to_str q s of (r, t) \<Rightarrow> (r \<noteq> None, t))"

definition bench_reads ::
  "('w, 'm) read_lib \<Rightarrow> 'w host \<Rightarrow> 'k jwt_lib \<Rightarrow> (string \<Rightarrow> string option) \<Rightarrow> (int \<Rightarrow> string) \<Rightarrow> ('w, 'm, 'k) read_state \<Rightarrow>
   bool \<times> ('w, 'm, 'k) read_state" where
  "bench_reads lib hst jwt to_str sql_for s =
     (case each_until_failure (direct_query hst) (map sql_for read_ids) s of
        (False, s1) \<Rightarrow> (False, s1)
      | (True, s1) \<Rightarrow>
          each_until_failure (served_query lib jwt to_str)
            (map sql_for read_ids @ sql_for 1 # replicate READ_ITERS (sql_for 1)) s1)"

text \<open>
  The realtime measurement, without the clock and its deadlines: the snapshot is read first; then
  one row event is awaited for each of the updates.
\<close>

definition realtime_update :: "nat \<Rightarrow> string" where
  "realtime_update i =
     ''UPDATE bench_users SET status = '' @ [CHR 0x27] @ ''rt'' @ show_nat i @ [CHR 0x27] @ '' WHERE id = '' @ show_nat 1"

fun await_row_events :: "nat \<Rightarrow> string option list \<Rightarrow> string \<Rightarrow> (read_failure + string) list" where
  "await_row_events 0 chunks buf = []"
| "await_row_events (Suc n) chunks buf =
     (case await_row_event chunks buf of
        (Inr evt, chunks', buf') \<Rightarrow> Inr evt # await_row_events n chunks' buf'
      | (Inl e, _, _) \<Rightarrow> [Inl e])"

definition bench_realtime :: "string option list \<Rightarrow> (read_failure + string) list" where
  "bench_realtime chunks =
     (case next_event chunks [] of
        (Inl e, _, _) \<Rightarrow> [Inl e]
      | (Inr _, chunks', buf) \<Rightarrow> await_row_events RT_ITERS chunks' buf)"

lemma await_row_event_sound: "await_row_event chunks buf = (Inr evt, chunks', buf') \<Longrightarrow> is_row_event evt"
proof (induction chunks buf rule: await_row_event.induct)
  case (1 chunks buf)
  obtain r c b where n: "next_event chunks buf = (r, c, b)" by (cases "next_event chunks buf")
  show ?case
  proof (cases r)
    case (Inl e)
    have "await_row_event chunks buf = (Inl e, c, b)" by (subst await_row_event.simps) (simp add: n Inl)
    then show ?thesis using 1(2) by simp
  next
    case (Inr e)
    have step: "await_row_event chunks buf = (if is_row_event e then (Inr e, c, b) else await_row_event c b)"
      by (subst await_row_event.simps) (simp add: n Inr)
    show ?thesis
    proof (cases "is_row_event e")
      case True
      then show ?thesis using 1(2) step by simp
    next
      case False
      then have "await_row_event c b = (Inr evt, chunks', buf')" using 1(2) step by simp
      with 1(1) [OF n [symmetric] Inr refl False] show ?thesis .
    qed
  qed
qed

lemma await_row_events_counts: "\<not> (\<exists>e. Inl e \<in> set (await_row_events n chunks buf)) \<Longrightarrow> length (await_row_events n chunks buf) = n"
proof (induction n arbitrary: chunks buf)
  case (Suc n)
  obtain r c b where n: "await_row_event chunks buf = (r, c, b)" by (cases "await_row_event chunks buf")
  show ?case
  proof (cases r)
    case (Inl e)
    then show ?thesis using Suc.prems n by simp
  next
    case (Inr evt)
    then show ?thesis using Suc.prems Suc.IH [of c b] n by simp
  qed
qed simp

lemma bench_realtime_counts:
  assumes "\<not> (\<exists>e. Inl e \<in> set (bench_realtime chunks))"
  shows "length (bench_realtime chunks) = RT_ITERS"
proof -
  obtain r c b where n: "next_event chunks [] = (r, c, b)" by (cases "next_event chunks []")
  then show ?thesis using assms await_row_events_counts [of RT_ITERS c b] by (cases r) (simp_all add: bench_realtime_def)
qed

text \<open>
  The report over the measured durations, in nanoseconds.  The index of a quantile is computed with
  exact numbers; for the two sample counts of the program, 300 and 50, the floating-point products
  round to the same indices.  \<open>None\<close> is the panic of an empty sample, whose last index underflows.
\<close>

record bench_report =
  br_count :: nat
  br_total :: nat
  br_p50 :: nat
  br_p95 :: nat
  br_p99 :: nat

definition quantile :: "nat \<Rightarrow> nat list \<Rightarrow> nat" where
  "quantile percent samples = samples ! min (length samples * percent div 100) (length samples - 1)"

definition report :: "nat list \<Rightarrow> bench_report option" where
  "report samples =
     (let sorted = sort samples
      in if samples = [] then None
         else Some \<lparr>br_count = length sorted, br_total = sum_list sorted,
                    br_p50 = quantile 50 sorted, br_p95 = quantile 95 sorted, br_p99 = quantile 99 sorted\<rparr>)"

lemma report_sound:
  assumes "report samples = Some r"
  shows "{br_p50 r, br_p95 r, br_p99 r} \<subseteq> set samples \<and> br_p50 r \<le> br_p95 r \<and> br_p95 r \<le> br_p99 r"
proof -
  have ne: "samples \<noteq> []" and r: "r = \<lparr>br_count = length (sort samples), br_total = sum_list (sort samples),
      br_p50 = quantile 50 (sort samples), br_p95 = quantile 95 (sort samples), br_p99 = quantile 99 (sort samples)\<rparr>"
    using assms by (auto simp: report_def Let_def split: if_splits)
  have ix: "min (length samples * p div 100) (length samples - 1) < length samples" for p
    using ne by (cases samples) simp_all
  have mem: "quantile p (sort samples) \<in> set samples" for p
    using nth_mem [of "min (length samples * p div 100) (length samples - 1)" "sort samples"] ix by (simp add: quantile_def)
  have mono: "quantile p (sort samples) \<le> quantile p' (sort samples)" if "p \<le> p'" for p p'
  proof -
    have "length samples * p div 100 \<le> length samples * p' div 100" using that by (intro div_le_mono mult_le_mono2)
    then have "min (length samples * p div 100) (length samples - 1) \<le> min (length samples * p' div 100) (length samples - 1)" by simp
    then show ?thesis unfolding quantile_def using ix [of p'] by (simp add: sorted_nth_mono)
  qed
  show ?thesis unfolding r using mem mono [of 50 95] mono [of 95 99] by simp
qed

subsection \<open>The upstream server\<close>

definition PUBLICATION :: string where "PUBLICATION = ''pgpaw_pub''"

record upstream_server =
  us_host :: string
  us_port :: u16
  us_user :: string
  us_password :: string
  us_database :: string

text \<open>The host of the embedded server, which may be empty.\<close>

definition upstream_start :: "string \<Rightarrow> u16 \<Rightarrow> string \<Rightarrow> string \<Rightarrow> upstream_server" where
  "upstream_start host port user pass =
     \<lparr>us_host = if host = [] then ''127.0.0.1'' else host, us_port = port, us_user = user, us_password = pass,
      us_database = ''postgres''\<rparr>"

definition upstream_config_of :: "upstream_server \<Rightarrow> upstream_config" where
  "upstream_config_of up =
     \<lparr>up_host = us_host up, up_port = us_port up, up_user = us_user up, up_password = us_password up,
      up_database = us_database up, up_sslmode = ''disable''\<rparr>"

text \<open>Both programs open a connection of their own for the statements they send; a failure is a panic.\<close>

definition upstream_client :: "'w host \<Rightarrow> upstream_server \<Rightarrow> ('w, unit) prog" where
  "upstream_client hst up = connect hst (upstream_config_of up)"

definition run_sql :: "'w host \<Rightarrow> upstream_server \<Rightarrow> string \<Rightarrow> ('w, unit) prog" where
  "run_sql hst up sql =
     bind_prog (upstream_client hst up) (\<lambda>_. bind_prog (perform hst upstream_error (UpExec sql)) (\<lambda>_. return_prog ()))"

definition upstream_install_ddl_trigger :: "'w host \<Rightarrow> string \<Rightarrow> upstream_server \<Rightarrow> ('w, unit) prog" where
  "upstream_install_ddl_trigger hst signal_prefix up = run_sql hst up (ddl_trigger_sql signal_prefix)"

definition upstream_setting :: "'w host \<Rightarrow> upstream_server \<Rightarrow> string \<Rightarrow> ('w, string) prog" where
  "upstream_setting hst up name = bind_prog (upstream_client hst up) (\<lambda>_. setting hst name)"

definition publish_all_sql :: string where
  "publish_all_sql = ''CREATE PUBLICATION '' @ PUBLICATION @ '' FOR ALL TABLES''"

definition seed_tables :: string where
  "seed_tables =
     ''CREATE TABLE bench_users (id bigint PRIMARY KEY, name text NOT NULL, status text NOT NULL);'' @ CHR 0x0A #
     ''         CREATE TABLE bench_orders (id bigint PRIMARY KEY, user_id bigint NOT NULL, amount numeric NOT NULL);'' @ CHR 0x0A #
     ''         CREATE INDEX bench_orders_user ON bench_orders (user_id);''"

definition seed_rows :: "string \<Rightarrow> string \<Rightarrow> string" where
  "seed_rows users orders =
     ''INSERT INTO bench_users SELECT g, '' @ [CHR 0x27] @ ''user'' @ [CHR 0x27] @ '' || g, '' @ [CHR 0x27] @ ''active'' @ [CHR 0x27] @
     '' FROM generate_series(1, '' @ users @ '') g;'' @ CHR 0x0A #
     ''         INSERT INTO bench_orders SELECT g, ((g - 1) % '' @ users @ '') + 1, (g % 100)::numeric FROM generate_series(1, '' @
     orders @ '') g;''"

definition seed :: "'w host \<Rightarrow> string \<Rightarrow> u16 \<Rightarrow> string \<Rightarrow> string \<Rightarrow> ('w, unit) prog" where
  "seed hst host port user pass =
     bind_prog (connect hst \<lparr>up_host = host, up_port = port, up_user = user, up_password = pass, up_database = ''bench'',
                             up_sslmode = ''disable''\<rparr>) (\<lambda>_.
     bind_prog (perform hst upstream_error (UpExec seed_tables)) (\<lambda>_.
     bind_prog (perform hst upstream_error (UpExec (seed_rows (show_nat (nat USERS)) (show_nat (nat ORDERS))))) (\<lambda>_.
     bind_prog (perform hst upstream_error (UpExec ''CREATE PUBLICATION pgpaw_pub FOR ALL TABLES;'')) (\<lambda>_.
       return_prog ()))))"

lemma neutral_run_sql: "neutral (run_sql hst up sql)"
  unfolding run_sql_def upstream_client_def connect_def by (intro neutral_bind neutral_perform neutral_return) simp_all

subsection \<open>Starting a server\<close>

definition bench_source :: "string \<Rightarrow> u16 \<Rightarrow> string \<Rightarrow> string \<Rightarrow> string \<Rightarrow> replica_source" where
  "bench_source host port user pass data_dir =
     \<lparr>rsrc_upstream = \<lparr>up_host = host, up_port = port, up_user = user, up_password = pass, up_database = ''bench'', up_sslmode = ''disable''\<rparr>,
      rsrc_data_dir = data_dir, rsrc_publication = ''pgpaw_pub'', rsrc_slot = ''pgpaw_bench_slot'', rsrc_max_connections = 8\<rparr>"

definition bench_builder :: "string \<Rightarrow> u16 \<Rightarrow> string \<Rightarrow> string \<Rightarrow> string \<Rightarrow> string \<Rightarrow> pgpaw_builder" where
  "bench_builder host port user pass data_dir addr =
     with_http \<lparr>hc_addr = addr, hc_cors = None\<rparr>
       (with_cache (256 * 1024 * 1024) (with_source (ReplicaOf (bench_source host port user pass data_dir)) builder))"

definition test_source :: "upstream_server \<Rightarrow> string \<Rightarrow> replica_source" where
  "test_source up data_dir =
     \<lparr>rsrc_upstream = upstream_config_of up, rsrc_data_dir = data_dir, rsrc_publication = PUBLICATION, rsrc_slot = ''pgpaw_slot'',
      rsrc_max_connections = 8\<rparr>"

definition test_builder :: "upstream_server \<Rightarrow> string \<Rightarrow> string option \<Rightarrow> string option \<Rightarrow> string \<Rightarrow> pgpaw_builder" where
  "test_builder up data_dir secret jwks_url addr =
     with_http \<lparr>hc_addr = addr, hc_cors = None\<rparr>
       (with_auth (auth_none\<lparr>jwt_secret := secret, jwt_jwks_url := jwks_url\<rparr>)
         (with_cache (64 * 1024 * 1024) (with_source (ReplicaOf (test_source up data_dir)) builder)))"

text \<open>The thread of a server: it opens the instance and waits; unlike the command line it does not shut it down.\<close>

definition open_and_wait ::
  "('w, 'm, 'k) rt_lib \<Rightarrow> pgpaw_builder \<Rightarrow> (nat \<Rightarrow> poll) \<Rightarrow> 'w io \<Rightarrow> (unit result \<times> 'w io) option" where
  "open_and_wait lib b polls s =
     (case open_pgpaw lib b s of
        (Inl e, t) \<Rightarrow> Some (Inl e, t)
      | (Inr pp, t) \<Rightarrow> map_option (\<lambda>e. fst (wait_result (rt_host lib) pp e) t) (wait_for polls pp))"

text \<open>\<open>Server::start\<close>: publish all tables, then launch.\<close>

definition server_start ::
  "('w, 'm, 'k) rt_lib \<Rightarrow> upstream_server \<Rightarrow> string \<Rightarrow> string option \<Rightarrow> string \<Rightarrow> (nat \<Rightarrow> poll) \<Rightarrow> 'w io \<Rightarrow>
   (unit result \<times> 'w io) option" where
  "server_start lib up data_dir secret addr polls s =
     (case run_sql (rt_host lib) up publish_all_sql s of
        (Inl e, t) \<Rightarrow> Some (Inl e, t)
      | (Inr _, t) \<Rightarrow> open_and_wait lib (test_builder up data_dir secret None addr) polls t)"

text \<open>\<open>expect_err\<close>: the error of the start, or a panic if it succeeds.\<close>

definition run_and_capture_error ::
  "('w, 'm, 'k) rt_lib \<Rightarrow> upstream_server \<Rightarrow> string \<Rightarrow> string option \<Rightarrow> string option \<Rightarrow> string \<Rightarrow> 'w io \<Rightarrow> cache_error option \<times> 'w io" where
  "run_and_capture_error lib up data_dir secret jwks_url addr s =
     (case run_sql (rt_host lib) up publish_all_sql s of
        (Inl _, s1) \<Rightarrow> (None, s1)
      | (Inr _, s1) \<Rightarrow>
          (case open_pgpaw lib (test_builder up data_dir secret jwks_url addr) s1 of
             (Inl e, t) \<Rightarrow> (Some e, t)
           | (Inr _, t) \<Rightarrow> (None, t)))"

lemma captured_error_releases:
  assumes "run_and_capture_error lib up data_dir secret jwks_url addr s = (Some e, t)"
  shows "\<exists>cs. trace t = trace s @ cs \<and> still_held cs {} = {}"
proof -
  from assms obtain s1 where sql: "run_sql (rt_host lib) up publish_all_sql s = (Inr (), s1)"
      and op: "open_pgpaw lib (test_builder up data_dir secret jwks_url addr) s1 = (Inl e, t)"
    by (auto simp: run_and_capture_error_def split: prod.splits sum.splits)
  from leavesD [OF neutralD [OF neutral_run_sql] sql, of "{}"] obtain cs where cs: "trace s1 = trace s @ cs" "still_held cs {} = {}" by blast
  from leavesD [OF open_pgpaw_opened op] obtain ds where ds: "trace t = trace s1 @ ds" "still_held ds {} = {}"
    by (auto simp: opened_simps)
  show ?thesis using cs ds by (intro exI [of _ "cs @ ds"]) simp
qed

subsection \<open>What a client of the server reads\<close>

lemma http_query_303:
  assumes "http_query lib live sql auth s = (Some resp, t)" and "resp_status resp = 303"
  obtains read s1 version snap who where "auth = Some (Inr who)" "prepare lib sql who None [] s = (Inr read, s1)"
    "\<not> pr_private read" "materialize lib read s1 = (Inr (show_hex (fingerprint (pr_query read)), version, snap), t)"
    "resp = redirect_response (show_hex (fingerprint (pr_query read))) version"
proof -
  from assms obtain who where who: "auth = Some (Inr who)"
    using error_response_not_served [of lib] by (auto simp: http_query_def split: option.splits sum.splits)
  with assms(1) have "http_query lib live sql (Some (Inr who)) s = (Some resp, t)" by simp
  then show ?thesis
  proof (cases rule: http_query_cases)
    case (failed e)
    then show ?thesis using assms(2) error_response_not_served [of lib e] by simp
  next
    case (redirected read s1 hash version snap)
    then have "hash = show_hex (fingerprint (pr_query read))"
      by (auto simp: materialize_def Let_def bind_res_Inr_iff split: prod.splits)
    then show ?thesis using redirected that [OF who redirected(2,3)] by blast
  qed (use assms(2) in \<open>auto simp: event_stream_def inline_private_def\<close>)
qed

lemma redirect_location:
  "resp_header ''location'' (redirect_response hash version) = Some (''/q/'' @ hash @ ''/'' @ show_nat (unat version)) \<and>
   cache_control (redirect_response hash version) = ''no-store''"
proof -
  have "eq_ignore_ascii_case ''Location'' ''location''" "eq_ignore_ascii_case ''Cache-Control'' ''cache-control''"
    "\<not> eq_ignore_ascii_case ''Location'' ''cache-control''" by code_simp+
  then show ?thesis by (simp add: resp_header_def cache_control_def redirect_response_def)
qed

definition cursor_response :: "cached_result \<Rightarrow> http_response" where
  "cursor_response snap =
     \<lparr>resp_status = 200,
      resp_headers = [(''ETag'', etag snap), (''Cache-Control'', ''public, max-age=259200''), (''Content-Type'', ''application/json'')],
      resp_content = Content (c_body snap)\<rparr>"

text \<open>
  C17: a redirect leads to the result it stands for.  When the client is answered 303, the redirect
  itself may not be stored and carries a location; asking the route of that location while nothing
  was evicted from the cache gives 200 with the body and the etag of exactly the result that the
  request has materialized, for a query that is public, cacheable for three days.  The client that
  follows the redirect reads the rows of that body.
\<close>

theorem redirect_leads_to_the_result:
  assumes "moka_keeps (l_moka lib)"
    and "client_query lib jwt to_str None sql (bearer_header token) s = (Some resp, t)" and "resp_status resp = 303"
  shows "cache_control resp = ''no-store'' \<and>
    (\<exists>who read s1 version snap location u.
       prepare lib sql who None [] s = (Inr read, s1) \<and> \<not> pr_private read \<and>
       materialize lib read s1 = (Inr (show_hex (fingerprint (pr_query read)), version, snap), t) \<and>
       resp_header ''location'' resp = Some location \<and>
       client_cursor lib location t = (Some (cursor_response snap), u) \<and>
       client_rows lib jwt to_str sql token s = (Option.bind (l_from_str lib (c_body snap)) as_array, u))"
proof -
  from assms(2) have "http_query lib None sql
      (authenticate_request jwt (l_json_text lib) to_str (Some (rs_verifier s)) (bearer_header token)) s = (Some resp, t)"
    by (simp add: client_query_def)
  from http_query_303 [OF this assms(3)] obtain read s1 version snap who where
      r: "prepare lib sql who None [] s = (Inr read, s1)" "\<not> pr_private read"
         "materialize lib read s1 = (Inr (show_hex (fingerprint (pr_query read)), version, snap), t)"
         "resp = redirect_response (show_hex (fingerprint (pr_query read))) version" .
  let ?hash = "show_hex (fingerprint (pr_query read))"
  let ?location = "''/q/'' @ ?hash @ ''/'' @ show_nat (unat version)"
  from materialize_found [OF assms(1) r(3)] obtain u where "cursor lib ?hash (show_nat (unat version)) t = (Some snap, u)" by blast
  then have "client_cursor lib ?location t = (Some (cursor_response snap), u)"
    unfolding client_cursor_def cursor_route_location by (simp add: http_cursor_def cursor_response_def)
  moreover from this have "client_rows lib jwt to_str sql token s = (Option.bind (l_from_str lib (c_body snap)) as_array, u)"
    using assms(2,3) redirect_location [of ?hash version] r(4)
    by (simp add: client_rows_def array_of_def cursor_response_def)
  ultimately show ?thesis using r redirect_location by blast
qed

lemma alist_moka_keeps: "moka_keeps alist_moka"
  by (auto simp: moka_keeps_def alist_moka_def)

theorem redirect_leads_to_the_result_witness:
  "\<exists>resp location snap t u.
     client_query (sample_lib (sample_front (sample_query [] None) [] [[''users'']]) [CText ''users'', CInt 0]) sample_jwt Some None
       ''select * from users'' None (sample_state [''users'']) = (Some resp, t) \<and>
     resp_header ''location'' resp = Some location \<and>
     client_cursor (sample_lib (sample_front (sample_query [] None) [] [[''users'']]) [CText ''users'', CInt 0]) location t =
       (Some (cursor_response snap), u)"
proof -
  let ?f = "sample_front (sample_query [] None) [] [[''users'']]"
  let ?lib = "sample_lib ?f [CText ''users'', CInt 0]"
  let ?run = "client_query ?lib sample_jwt Some None ''select * from users'' (bearer_header None) (sample_state [''users''])"
  have keeps: "moka_keeps (l_moka ?lib)" by (simp add: sample_lib_def alist_moka_keeps)
  obtain out t where run: "?run = (out, t)" by (cases ?run)
  obtain read s1 where prep: "prepare ?lib ''select * from users'' None None [] (sample_state [''users'']) = (Inr read, s1)"
      "\<not> pr_private read"
  proof -
    let ?prep = "prepare ?lib ''select * from users'' None None [] (sample_state [''users''])"
    have "is_ok (fst ?prep)"
      by (simp add: prepare_def halt_error_def sample_state_def read_operations_primary_def sample_lib_def sample_users_classified
          is_private_def classify_security_def sample_users_tables bind_read_def on_io_def bind_prog_def issue_def
          one_row_engine_def get_text_def get_int_def cell_at_def merge_verdicts_def)
    then obtain read where r: "?prep = (Inr read, snd ?prep)" by (cases "fst ?prep") (auto simp: prod_eq_iff)
    with anonymous_prepared(1) [OF r] that show thesis by blast
  qed
  have text_cell: "query_json_scoped (l_engine ?lib) None None sql params io = (Inr ''users'', io\<lparr>trace := trace io @ [Query (wrap_json sql) (to_sql_params params)]\<rparr>)" for sql params io
    by (simp add: sample_lib_def query_json_scoped_def bind_prog_def issue_def one_row_engine_def first_text_def
        get_opt_text_def cell_at_def or_empty_def)
  have "is_ok (fst (materialize ?lib read s1))"
    by (simp add: materialize_def get_or_compute_def text_cell Let_def split: prod.split option.split)
  then have "\<exists>resp. out = Some resp \<and> resp_status resp = 303"
    using run prep
    by (auto simp: client_query_def bearer_header_def authenticate_request_def http_query_def redirect_response_def
        split: prod.splits sum.splits)
  then obtain resp where "?run = (Some resp, t)" "resp_status resp = 303" using run by blast
  from redirect_leads_to_the_result [OF keeps this] this(1) show ?thesis
    unfolding bearer_header_def option.map by blast
qed

text \<open>The reader keeps what the decoder of an event looks at.\<close>

lemma decode_trimmed:
  assumes "object_frame frame"
  shows "decode_event from_str json_error (trim frame) = decode_event from_str json_error frame"
proof -
  from assms obtain t where "frame = sse_frame (CHR ''{'' # t @ [CHR ''}''])" unfolding object_frame_def by blast
  then have f: "trim frame = ''data: '' @ CHR ''{'' # t @ [CHR ''}'']" by (simp add: trim_frame)
  have start: "trim_start (''data: '' @ CHR ''{'' # t @ [CHR ''}'']) = ''data: '' @ CHR ''{'' # t @ [CHR ''}'']"
    by (subst trim_start.simps) (simp add: leading_ws_def ws_chars_def)
  have "trim_end ((''data: '' @ CHR ''{'' # t) @ [CHR ''}'']) = (''data: '' @ CHR ''{'' # t) @ [CHR ''}'']" by (rule trim_end_brace)
  then have "trim (''data: '' @ CHR ''{'' # t @ [CHR ''}'']) = ''data: '' @ CHR ''{'' # t @ [CHR ''}'']"
    unfolding trim_def start by simp
  then have "trim (trim frame) = trim frame" unfolding f .
  then show ?thesis unfolding decode_event_def by (cases "strip_prefix ''data: '' (trim frame)") simp_all
qed



end
