(* ===== verification/Freshness.thy ===== *)
theory Freshness
  imports Http
begin

text \<open>
  Materialized reads under concurrency: \<open>ReadOperations::materialize\<close> of \<open>src/capability/read.rs\<close> and
  \<open>QueryCache::get_or_compute\<close> of \<open>src/capability/cache.rs\<close>, cut at their await points.  Any number of
  reads are in flight at the same time, while the bridge advances the version index over committed
  transactions, clients fetch cursors and the cache evicts what it likes.

  The lemmas show that a cut read run alone is \<open>materialize\<close>, and the invariant behind the
  freshness of cached answers.
\<close>

subsection \<open>One read, cut at its await points\<close>

datatype fetch =
    FVersion prepared_read
  | FLookup prepared_read u64
  | FCompute prepared_read u64
  | FStore prepared_read u64 string
  | FDone prepared_read u64 cached_result
  | FFailed prepared_read cache_error

definition read_key :: "cacheable_query \<Rightarrow> u64 \<Rightarrow> string" where
  "read_key q v = cursor_key (show_hex (fingerprint q)) (show_nat (unat v))"

fun fetch_step :: "('w, 'm) read_lib \<Rightarrow> version_index \<Rightarrow> fetch \<Rightarrow> 'm \<times> 'w io \<Rightarrow> fetch \<times> 'm \<times> 'w io" where
  "fetch_step lib vi (FVersion read) (m, io) =
     (FLookup read (version_of vi (q_tables (pr_query read)) (eq_filters (pr_query read))), m, io)"
| "fetch_step lib vi (FLookup read v) (m, io) =
     (case m_get (l_moka lib) (read_key (pr_query read) v) m of
        (Some hit, m') \<Rightarrow> (FDone read v hit, m', io)
      | (None, m') \<Rightarrow> (FCompute read v, m', io))"
| "fetch_step lib vi (FCompute read v) (m, io) =
     (case query_json_scoped (l_engine lib) None None (q_sql (pr_query read)) (q_params (pr_query read)) io of
        (Inl e, io') \<Rightarrow> (FFailed read e, m, io')
      | (Inr t, io') \<Rightarrow> (FStore read v t, m, io'))"
| "fetch_step lib vi (FStore read v t) (m, io) =
     (let result = \<lparr>etag = read_key (pr_query read) v, c_body = t\<rparr>
      in (FDone read v result, m_insert (l_moka lib) (read_key (pr_query read) v) result m, io))"
| "fetch_step lib vi f (m, io) = (f, m, io)"

fun fetch_result :: "fetch \<Rightarrow> (string \<times> u64 \<times> cached_result) result option" where
  "fetch_result (FDone read v snap) = Some (Inr (show_hex (fingerprint (pr_query read)), v, snap))"
| "fetch_result (FFailed read e) = Some (Inl e)"
| "fetch_result _ = None"

text \<open>Four steps without interference are \<open>materialize\<close>.\<close>

definition fetch_run :: "('w, 'm) read_lib \<Rightarrow> version_index \<Rightarrow> fetch \<times> 'm \<times> 'w io \<Rightarrow> fetch \<times> 'm \<times> 'w io" where
  "fetch_run lib vi = (\<lambda>(f, m, io). ((\<lambda>(f, m, io). fetch_step lib vi f (m, io)) ^^ 4) (f, m, io))"

lemma fetch_run_materialize:
  assumes "fetch_run lib (rs_versions s) (FVersion read, rs_cache s, rs_io s) = (f, m, io)"
  shows "\<exists>r. fetch_result f = Some r \<and> materialize lib read s = (r, s\<lparr>rs_cache := m, rs_io := io\<rparr>)"
proof -
  let ?v = "query_version read s"
  obtain hit m1 where g: "m_get (l_moka lib) (read_key (pr_query read) ?v) (rs_cache s) = (hit, m1)"
    by (cases "m_get (l_moka lib) (read_key (pr_query read) ?v) (rs_cache s)")
  obtain q io1 where c: "query_json_scoped (l_engine lib) None None (q_sql (pr_query read)) (q_params (pr_query read)) (rs_io s) = (q, io1)"
    by (cases "query_json_scoped (l_engine lib) None None (q_sql (pr_query read)) (q_params (pr_query read)) (rs_io s)")
  show ?thesis
    using assms g c
    by (cases hit; cases q)
      (auto simp: fetch_run_def eval_nat_numeral materialize_def get_or_compute_def read_key_def query_version_def Let_def bind_res_def)
qed

subsection \<open>Many reads\<close>

text \<open>
  A record of every query run: when its version was read and when it ran, in numbers of transactions
  the index had advanced over.  It is history only: no step depends on it.
\<close>

record computation =
  cp_query :: cacheable_query
  cp_version :: u64
  cp_body :: string
  cp_read :: nat
  cp_run :: nat

record ('w, 'm) server =
  fr_versions :: version_index
  fr_cache :: 'm
  fr_io :: "'w io"
  fr_fetches :: "(fetch \<times> nat) list"
  fr_log :: "committed_transaction list"
  fr_history :: "computation list"

definition server_init :: "('w, 'm) read_lib \<Rightarrow> version_index \<Rightarrow> ('w, 'm) server \<Rightarrow> bool" where
  "server_init lib vi s \<longleftrightarrow>
     fr_versions s = vi \<and> (\<exists>cap. fr_cache s = query_cache_new (l_moka lib) cap) \<and>
     fr_fetches s = [] \<and> fr_log s = [] \<and> fr_history s = []"

definition last_lsn :: "committed_transaction list \<Rightarrow> u64" where
  "last_lsn log = (if log = [] then 0 else end_lsn (last log))"

fun note_run :: "nat \<Rightarrow> nat \<Rightarrow> fetch \<Rightarrow> fetch \<Rightarrow> computation list" where
  "note_run now n (FCompute read v) (FStore _ _ t) =
     [\<lparr>cp_query = pr_query read, cp_version = v, cp_body = t, cp_read = n, cp_run = now\<rparr>]"
| "note_run now n _ _ = []"

fun read_at :: "nat \<Rightarrow> nat \<Rightarrow> fetch \<Rightarrow> nat" where
  "read_at now n (FVersion _) = now"
| "read_at now n _ = n"

inductive server_step :: "('w, 'm) read_lib \<Rightarrow> ('m \<Rightarrow> (string \<times> cached_result) set) \<Rightarrow> ('w, 'm) server \<Rightarrow> ('w, 'm) server \<Rightarrow> bool"
  for lib stored where
  server_read:
    "server_step lib stored s (s\<lparr>fr_fetches := fr_fetches s @ [(FVersion read, 0)]\<rparr>)"
| server_fetch:
    "i < length (fr_fetches s) \<Longrightarrow> fr_fetches s ! i = (f, n) \<Longrightarrow>
     fetch_step lib (fr_versions s) f (fr_cache s, fr_io s) = (f', m, io) \<Longrightarrow>
     server_step lib stored s
       (s\<lparr>fr_fetches := (fr_fetches s)[i := (f', read_at (length (fr_log s)) n f)], fr_cache := m, fr_io := io,
          fr_history := fr_history s @ note_run (length (fr_log s)) n f f'\<rparr>)"
| server_commit:
    "last_lsn (fr_log s) < end_lsn txn \<Longrightarrow>
     server_step lib stored s (s\<lparr>fr_versions := advance (fr_versions s) txn, fr_log := fr_log s @ [txn]\<rparr>)"
| server_cursor:
    "query_cache_get (l_moka lib) key (fr_cache s) = (r, m) \<Longrightarrow>
     server_step lib stored s (s\<lparr>fr_cache := m\<rparr>)"
| server_evict:
    "stored m \<subseteq> stored (fr_cache s) \<Longrightarrow> server_step lib stored s (s\<lparr>fr_cache := m\<rparr>)"
| server_world:
    "server_step lib stored s (s\<lparr>fr_io := io\<rparr>)"

inductive_cases server_stepE: "server_step lib stored s t"

subsection \<open>The invariant\<close>

definition version_at :: "version_index \<Rightarrow> committed_transaction list \<Rightarrow> nat \<Rightarrow> cacheable_query \<Rightarrow> u64" where
  "version_at vi log n q = version_of (foldl advance vi (take n log)) (q_tables q) (eq_filters q)"

definition computation_ok :: "version_index \<Rightarrow> committed_transaction list \<Rightarrow> computation \<Rightarrow> bool" where
  "computation_ok vi log c \<longleftrightarrow>
     cp_read c \<le> cp_run c \<and> cp_run c \<le> length log \<and> cp_version c = version_at vi log (cp_read c) (cp_query c)"

definition answers :: "computation list \<Rightarrow> u64 \<Rightarrow> u64 \<Rightarrow> string \<Rightarrow> bool" where
  "answers history f v t \<longleftrightarrow> (\<exists>c \<in> set history. fingerprint (cp_query c) = f \<and> cp_version c = v \<and> cp_body c = t)"

fun fetch_ok :: "version_index \<Rightarrow> committed_transaction list \<Rightarrow> computation list \<Rightarrow> fetch \<Rightarrow> nat \<Rightarrow> bool" where
  "fetch_ok vi log history (FLookup read v) n = (n \<le> length log \<and> v = version_at vi log n (pr_query read))"
| "fetch_ok vi log history (FCompute read v) n = (n \<le> length log \<and> v = version_at vi log n (pr_query read))"
| "fetch_ok vi log history (FStore read v t) n =
     (n \<le> length log \<and> v = version_at vi log n (pr_query read) \<and> answers history (fingerprint (pr_query read)) v t)"
| "fetch_ok vi log history (FDone read v snap) n =
     (n \<le> length log \<and> v = version_at vi log n (pr_query read) \<and>
      answers history (fingerprint (pr_query read)) v (c_body snap) \<and> etag snap = read_key (pr_query read) v)"
| "fetch_ok vi log history f n = True"

definition server_inv ::
  "version_index \<Rightarrow> ('m \<Rightarrow> (string \<times> cached_result) set) \<Rightarrow> ('w, 'm) server \<Rightarrow> bool" where
  "server_inv vi stored s \<longleftrightarrow>
     fr_versions s = foldl advance vi (fr_log s) \<and> sorted_wrt (<) (0 # map end_lsn (fr_log s)) \<and>
     (\<forall>(f, n) \<in> set (fr_fetches s). fetch_ok vi (fr_log s) (fr_history s) f n) \<and>
     (\<forall>c \<in> set (fr_history s). computation_ok vi (fr_log s) c) \<and>
     cache_inv stored (computed_for (answers (fr_history s))) (fr_cache s)"

lemma version_at_append: "n \<le> length log \<Longrightarrow> version_at vi (log @ us) n q = version_at vi log n q"
  by (simp add: version_at_def)

lemma answers_append: "answers history f v t \<Longrightarrow> answers (history @ cs) f v t"
  by (auto simp: answers_def)

lemma fetch_ok_mono: "fetch_ok vi log history f n \<Longrightarrow> fetch_ok vi (log @ us) (history @ cs) f n"
  by (cases f) (auto simp: version_at_append answers_append)

lemma computation_ok_mono: "computation_ok vi log c \<Longrightarrow> computation_ok vi (log @ us) c"
  by (simp add: computation_ok_def version_at_append)

lemma cache_inv_mono: "cache_inv stored P m \<Longrightarrow> (\<And>k t. P k t \<Longrightarrow> Q k t) \<Longrightarrow> cache_inv stored Q m"
  unfolding cache_inv_def by fast

lemma computed_for_mono: "computed_for A k t \<Longrightarrow> (\<And>f v t. A f v t \<Longrightarrow> B f v t) \<Longrightarrow> computed_for B k t"
  unfolding computed_for_def by blast

lemma last_lsn_sorted:
  "sorted_wrt (<) (0 # map end_lsn log) \<Longrightarrow> last_lsn log < end_lsn txn \<Longrightarrow> sorted_wrt (<) (0 # map end_lsn (log @ [txn]))"
proof -
  assume srt: "sorted_wrt (<) (0 # map end_lsn log)" and lt: "last_lsn log < end_lsn txn"
  have "l < end_lsn txn" if "l \<in> set (0 # map end_lsn log)" for l
  proof (cases log rule: rev_cases)
    case Nil
    then show ?thesis using that lt by (simp add: last_lsn_def)
  next
    case (snoc xs x)
    then have "l \<le> end_lsn x" using that srt by (auto simp: sorted_wrt_append less_imp_le)
    then show ?thesis using lt snoc by (simp add: last_lsn_def)
  qed
  then show ?thesis using srt by (simp add: sorted_wrt_append)
qed

lemma version_at_now: "version_of (foldl advance vi log) (q_tables q) (eq_filters q) = version_at vi log (length log) q"
  by (simp add: version_at_def)

lemma cache_inv_answers:
  "cache_inv stored (computed_for (answers history)) m \<Longrightarrow> cache_inv stored (computed_for (answers (history @ cs))) m"
  by (erule cache_inv_mono, erule computed_for_mono, rule answers_append)

lemma fetch_step_ok:
  assumes moka: "moka_ok (l_moka lib) stored"
    and cache: "cache_inv stored (computed_for (answers history)) m"
    and ok: "fetch_ok vi log history f n"
    and step: "fetch_step lib (foldl advance vi log) f (m, io) = (f', m', io')"
  shows "let cs = note_run (length log) n f f'
         in fetch_ok vi log (history @ cs) f' (read_at (length log) n f) \<and>
            cache_inv stored (computed_for (answers (history @ cs))) m' \<and> (\<forall>c \<in> set cs. computation_ok vi log c)"
proof (cases f)
  case (FVersion read)
  then show ?thesis using step cache by (auto simp: version_at_now)
next
  case (FLookup read v)
  obtain hit m1 where g: "m_get (l_moka lib) (read_key (pr_query read) v) m = (hit, m1)"
    by (cases "m_get (l_moka lib) (read_key (pr_query read) v) m")
  from cache_inv_get [OF moka cache this] show ?thesis
    using step FLookup ok g by (cases hit) (auto simp: read_key_def computed_for_key)
next
  case (FCompute read v)
  then show ?thesis using step ok cache
    by (auto simp: computation_ok_def cache_inv_answers split: prod.splits sum.splits) (simp add: answers_def)
next
  case (FStore read v t)
  have "computed_for (answers history) (read_key (pr_query read) v) t"
    using ok FStore by (auto simp: read_key_def computed_for_key)
  from cache_inv_insert [OF moka cache this] show ?thesis using step ok FStore by (auto simp: Let_def)
qed (use step cache ok in auto)

lemma server_inv_step:
  assumes moka: "moka_ok (l_moka lib) stored" and inv: "server_inv vi stored s" and step: "server_step lib stored s t"
  shows "server_inv vi stored t"
  using step
proof cases
  case (server_read read)
  then show ?thesis using inv by (auto simp: server_inv_def)
next
  case (server_fetch i f n f' m io)
  let ?cs = "note_run (length (fr_log s)) n f f'"
  have mem: "(f, n) \<in> set (fr_fetches s)" using server_fetch(2,3) nth_mem by metis
  have vs: "fr_versions s = foldl advance vi (fr_log s)"
    and cache: "cache_inv stored (computed_for (answers (fr_history s))) (fr_cache s)"
    and ok: "fetch_ok vi (fr_log s) (fr_history s) f n"
    using inv mem unfolding server_inv_def by blast+
  note new = fetch_step_ok [OF moka cache ok server_fetch(4) [unfolded vs], unfolded Let_def]
  have fetches: "fetch_ok vi (fr_log s) (fr_history s @ ?cs) g k"
    if "(g, k) \<in> set ((fr_fetches s)[i := (f', read_at (length (fr_log s)) n f)])" for g k
  proof (cases "(g, k) = (f', read_at (length (fr_log s)) n f)")
    case True
    then show ?thesis using new by simp
  next
    case False
    then have "(g, k) \<in> set (fr_fetches s)" using that set_update_subset_insert by fast
    then have "fetch_ok vi (fr_log s) (fr_history s) g k" using inv unfolding server_inv_def by blast
    from fetch_ok_mono [OF this, of "[]" ?cs] show ?thesis by simp
  qed
  have "\<forall>c \<in> set (fr_history s @ ?cs). computation_ok vi (fr_log s) c" using inv new unfolding server_inv_def by auto
  then show ?thesis using inv new fetches server_fetch(1) unfolding server_inv_def by auto
next
  case (server_commit txn)
  have "sorted_wrt (<) (0 # map end_lsn (fr_log s @ [txn]))"
    using inv last_lsn_sorted [OF _ server_commit(2)] unfolding server_inv_def by blast
  moreover have "fetch_ok vi (fr_log s @ [txn]) (fr_history s) g k" if "(g, k) \<in> set (fr_fetches s)" for g k
  proof -
    have "fetch_ok vi (fr_log s) (fr_history s) g k" using inv that unfolding server_inv_def by blast
    from fetch_ok_mono [OF this, of "[txn]" "[]"] show ?thesis by simp
  qed
  moreover have "\<forall>c \<in> set (fr_history s). computation_ok vi (fr_log s @ [txn]) c"
    using inv computation_ok_mono unfolding server_inv_def by blast
  ultimately show ?thesis using inv server_commit(1) unfolding server_inv_def by auto
next
  case (server_cursor key r m)
  then have "m_get (l_moka lib) key (fr_cache s) = (r, m)" by (simp add: query_cache_get_def)
  moreover have "cache_inv stored (computed_for (answers (fr_history s))) (fr_cache s)" using inv by (simp add: server_inv_def)
  ultimately show ?thesis using inv server_cursor(1) cache_inv_get [OF moka] unfolding server_inv_def by auto
next
  case (server_evict m)
  then have "cache_inv stored (computed_for (answers (fr_history s))) m"
    using inv unfolding server_inv_def cache_inv_def by blast
  then show ?thesis using inv server_evict(1) by (simp add: server_inv_def)
next
  case (server_world io)
  then show ?thesis using inv by (simp add: server_inv_def)
qed

lemma server_inv_init:
  assumes "moka_ok (l_moka lib) stored" and "server_init lib vi s"
  shows "server_inv vi stored s"
  using assms cache_inv_new [OF assms(1)] by (auto simp: server_inv_def server_init_def)

interpretation srv: invariant_system "\<lambda>s. moka_ok (l_moka lib) stored \<and> server_init lib vi s"
  "\<lambda>s t. moka_ok (l_moka lib) stored \<and> server_step lib stored s t" "server_inv vi stored"
  by unfold_locales (auto intro: server_inv_init server_inv_step)

lemma server_reachable_inv:
  assumes "moka_ok (l_moka lib) stored" and "server_init lib vi s0" and "(server_step lib stored)\<^sup>*\<^sup>* s0 s"
  shows "server_inv vi stored s"
proof -
  have "(\<lambda>s t. moka_ok (l_moka lib) stored \<and> server_step lib stored s t)\<^sup>*\<^sup>* s0 s" using assms(1,3) by simp
  with srv.inv_reachable [of lib stored vi s0 s] assms(1,2) show ?thesis by blast
qed

text \<open>Equal versions at two moments: nothing relevant was committed between them.\<close>

lemma nothing_between:
  assumes "vi_bounded vi 0" and "sorted_wrt (<) (0 # map end_lsn log)" and "n \<le> k" and "k \<le> length log"
    and "version_at vi log n q = version_at vi log k q"
  shows "\<forall>txn \<in> set (drop n (take k log)). \<not> relevant vi txn (q_tables q, eq_filters q)"
proof -
  let ?past = "take n log" and ?gap = "drop n (take k log)"
  have split: "take k log = ?past @ ?gap" using append_take_drop_id [of n "take k log"] assms(3) by (simp add: min_def)
  have "sorted_wrt (<) (0 # map end_lsn (take k log))"
    using sorted_wrt_take [OF assms(2), of "Suc k"] by (simp add: take_map)
  then have srt: "sorted_wrt (<) ((0 # map end_lsn ?past) @ map end_lsn ?gap)" using split by (metis append_Cons map_append)
  let ?l = "last (0 # map end_lsn ?past)"
  have "sorted (0 # map end_lsn ?past)" using srt by (meson sorted_wrt_append strict_sorted_imp_sorted)
  from vidx.version_log_bounded [OF assms(1) this] have bounded: "vi_bounded (foldl advance vi ?past) ?l" .
  have "?l \<in> set (0 # map end_lsn ?past)" by (rule last_in_set) simp
  then have gap: "sorted_wrt (<) (?l # map end_lsn ?gap)" using srt by (auto simp: sorted_wrt_append)
  have "version_of (foldl advance (foldl advance vi ?past) ?gap) (q_tables q) (eq_filters q) = version_of (foldl advance vi ?past) (q_tables q) (eq_filters q)"
    using assms(5) split unfolding version_at_def by (metis foldl_append)
  then have same: "version_of (foldl advance (foldl advance vi ?past) ?gap) (fst (q_tables q, eq_filters q)) (snd (q_tables q, eq_filters q)) =
      version_of (foldl advance vi ?past) (fst (q_tables q, eq_filters q)) (snd (q_tables q, eq_filters q))" by simp
  have rel: "relevant (foldl advance vi ts) txn qq = relevant vi txn qq" for ts txn qq
    by (induction ts rule: rev_induct) (simp_all add: relevant_advance)
  from vidx.version_gap [OF bounded gap same] show ?thesis unfolding rel .
qed

text \<open>A recorded run that answers a query: it ran the same text, after everything relevant before \<open>k\<close>.\<close>

definition fresh_answer :: "version_index \<Rightarrow> committed_transaction list \<Rightarrow> nat \<Rightarrow> cacheable_query \<Rightarrow> computation \<Rightarrow> bool" where
  "fresh_answer vi log k q c \<longleftrightarrow>
     fingerprint (cp_query c) = fingerprint q \<and>
     (cp_query c = q \<longrightarrow> (\<forall>txn \<in> set (drop (cp_run c) (take k log)). \<not> relevant vi txn (q_tables q, eq_filters q)))"

lemma answer_fresh:
  assumes "vi_bounded vi 0" and "sorted_wrt (<) (0 # map end_lsn log)" and "k \<le> length log"
    and "computation_ok vi log c" and "fingerprint (cp_query c) = fingerprint q" and "cp_version c = version_at vi log k q"
  shows "fresh_answer vi log k q c"
proof -
  have "\<not> relevant vi txn (q_tables q, eq_filters q)" if "cp_query c = q" "txn \<in> set (drop (cp_run c) (take k log))" for txn
  proof (cases "cp_read c \<le> k")
    case True
    have "version_at vi log (cp_read c) q = version_at vi log k q" using assms(4,6) that(1) by (simp add: computation_ok_def)
    from nothing_between [OF assms(1,2) True assms(3) this]
    have none: "\<forall>txn \<in> set (drop (cp_read c) (take k log)). \<not> relevant vi txn (q_tables q, eq_filters q)" .
    have "cp_read c \<le> cp_run c" using assms(4) by (simp add: computation_ok_def)
    then have "set (drop (cp_run c) (take k log)) \<subseteq> set (drop (cp_read c) (take k log))" by (rule set_drop_subset_set_drop)
    then show ?thesis using none that(2) by blast
  next
    case False
    then have "drop (cp_run c) (take k log) = []" using assms(4) by (simp add: computation_ok_def)
    then show ?thesis using that(2) by simp
  qed
  then show ?thesis using assms(5) by (simp add: fresh_answer_def)
qed

subsection \<open>Properties\<close>


text \<open>A run in which a read is computed and stored.\<close>

definition fresh_read :: prepared_read where
  "fresh_read =
     \<lparr>pr_query = \<lparr>fingerprint = 31, q_tables = [''users''], eq_filters = [], q_sql = ''select * from users'', q_params = []\<rparr>,
      pr_who = None, pr_headers = None, pr_private = False\<rparr>"

definition fresh_lib :: "(unit, (string \<times> cached_result) list) read_lib" where
  "fresh_lib = sample_lib (sample_front (sample_query [] None) [] [[''users'']]) [CText ''[]'']"

definition fresh_server ::
  "(fetch \<times> nat) list \<Rightarrow> (string \<times> cached_result) list \<Rightarrow> db_cmd list \<Rightarrow> computation list \<Rightarrow> (unit, (string \<times> cached_result) list) server" where
  "fresh_server fs m tr h = \<lparr>fr_versions = version_index_new [] [], fr_cache = m, fr_io = \<lparr>world = (), trace = tr\<rparr>,
     fr_fetches = fs, fr_log = [], fr_history = h\<rparr>"

abbreviation map_stored :: "(string \<times> cached_result) list \<Rightarrow> (string \<times> cached_result) set" where
  "map_stored m \<equiv> {(k, v). map_of m k = Some v}"

abbreviation fresh_snap :: cached_result where
  "fresh_snap \<equiv> \<lparr>etag = read_key (pr_query fresh_read) 0, c_body = ''[]''\<rparr>"

lemma fresh_run:
  "\<exists>m tr h. (server_step fresh_lib map_stored)\<^sup>*\<^sup>* (fresh_server [] [] [] []) (fresh_server [(FDone fresh_read 0 fresh_snap, 0)] m tr h)"
proof -
  let ?step = "server_step fresh_lib map_stored"
  define c where "c = Query (wrap_json (q_sql (pr_query fresh_read))) (to_sql_params (q_params (pr_query fresh_read)))"
  define h where "h = [\<lparr>cp_query = pr_query fresh_read, cp_version = 0, cp_body = ''[]'', cp_read = 0, cp_run = 0\<rparr>]"
  have one: "?step (fresh_server [] [] [] []) (fresh_server [(FVersion fresh_read, 0)] [] [] [])"
    using server_read [of fresh_lib map_stored "fresh_server [] [] [] []" fresh_read] by (simp add: fresh_server_def)
  have v: "version_of (version_index_new [] []) [''users''] [] = 0" by code_simp
  have fetch: "?step (fresh_server [(f, 0)] m tr hist) (fresh_server [(f', 0)] m' tr' (hist @ note_run 0 0 f f'))"
    if "fetch_step fresh_lib (version_index_new [] []) f (m, \<lparr>world = (), trace = tr\<rparr>) = (f', m', \<lparr>world = (), trace = tr'\<rparr>)" for f f' m m' tr tr' hist
  proof -
    have "read_at 0 0 f = 0" by (cases f) simp_all
    then show ?thesis
      using server_fetch [of 0 "fresh_server [(f, 0)] m tr hist" f 0 fresh_lib f' m' "\<lparr>world = (), trace = tr'\<rparr>" map_stored] that
      by (simp add: fresh_server_def)
  qed
  have lookup: "?step (fresh_server [(FVersion fresh_read, 0)] [] [] []) (fresh_server [(FLookup fresh_read 0, 0)] [] [] [])"
    using fetch [of "FVersion fresh_read" "[]" "[]" "FLookup fresh_read 0" "[]" "[]" "[]"] v by (simp add: fresh_read_def)
  have miss: "?step (fresh_server [(FLookup fresh_read 0, 0)] [] [] []) (fresh_server [(FCompute fresh_read 0, 0)] [] [] [])"
    using fetch [of "FLookup fresh_read 0" "[]" "[]" "FCompute fresh_read 0" "[]" "[]" "[]"]
    by (simp add: fresh_lib_def sample_lib_def alist_moka_def)
  have run: "?step (fresh_server [(FCompute fresh_read 0, 0)] [] [] []) (fresh_server [(FStore fresh_read 0 ''[]'', 0)] [] [c] h)"
    using fetch [of "FCompute fresh_read 0" "[]" "[]" "FStore fresh_read 0 ''[]''" "[]" "[c]" "[]"]
    by (simp add: fresh_lib_def sample_lib_def query_json_scoped_def bind_prog_def issue_def one_row_engine_def
        first_text_def get_opt_text_def cell_at_def or_empty_def c_def h_def)
  have store: "?step (fresh_server [(FStore fresh_read 0 ''[]'', 0)] [] [c] h)
      (fresh_server [(FDone fresh_read 0 fresh_snap, 0)] [(read_key (pr_query fresh_read) 0, fresh_snap)] [c] h)"
    using fetch [of "FStore fresh_read 0 ''[]''" "[]" "[c]" "FDone fresh_read 0 fresh_snap" "[(read_key (pr_query fresh_read) 0, fresh_snap)]" "[c]" h]
    by (simp add: fresh_lib_def sample_lib_def alist_moka_def Let_def)
  show ?thesis
    using one lookup miss run store by (meson rtranclp.rtrancl_into_rtrancl rtranclp.rtrancl_refl)
qed


end
