(* ===== verification/Node.thy ===== *)
theory Node
  imports Session
begin

text \<open>
  The live path as a whole: the bridge (\<open>src/capability/cdc.rs\<close>), the worker of the hub
  (\<open>src/capability/live.rs\<close>) and the reads that open subscriptions (\<open>subscribe\<close> of
  \<open>src/capability/read.rs\<close>) run side by side.  A subscribing read asks the engine first and registers
  with the hub later; the worker follows the broadcast channel of the bridge at a position of its
  own and learns when it has fallen behind the capacity of the channel.

  Every component moves as in its own theory: a run of the node projects to a run of the bridge and
  to a run of the hub.  The invariant accounts for every broadcast transaction: the rows of a
  subscriber were asked for after it, unless it was broadcast in the gap between the snapshot of the
  subscription and its registration.
\<close>

subsection \<open>The node\<close>

text \<open>
  An answer of the engine with the query it belongs to; \<open>an_asked\<close> counts the transactions that had
  been broadcast when it was asked.
\<close>

record answer =
  an_sql :: string
  an_who :: "principal option"
  an_headers :: "string option"
  an_params :: "json list"
  an_body :: string
  an_asked :: nat

record started =
  op_answer :: answer
  op_tables :: "string list"
  op_hash :: string
  op_version :: u64

text \<open>
  \<open>nd_next\<close> is the position of the worker's receiver.  The rest are history variables: the answers
  so far; for the current rows of each subscription when they were asked for (\<open>nd_asked\<close>); when its
  snapshot was (\<open>nd_taken\<close>); the position of the receiver when it was registered (\<open>nd_from\<close>); and when
  the answer in the worker's hands was asked for (\<open>nd_query\<close>).
\<close>

record 'w node =
  nd_bridge :: cdc_bridge
  nd_live :: "'w live_state"
  nd_next :: nat
  nd_opening :: "started list"
  nd_answers :: "answer list"
  nd_asked :: "u64 \<Rightarrow> nat"
  nd_taken :: "u64 \<Rightarrow> nat"
  nd_from :: "u64 \<Rightarrow> nat"
  nd_query :: nat

definition CHANNEL_CAPACITY :: nat where
  "CHANNEL_CAPACITY = 1024"

abbreviation node_sent :: "'w node \<Rightarrow> committed_transaction list" where
  "node_sent s \<equiv> c_sent (nd_bridge s)"

abbreviation node_hub :: "'w node \<Rightarrow> live_hub" where
  "node_hub s \<equiv> st_hub (nd_live s)"

definition node_init :: "version_index \<Rightarrow> 'w node \<Rightarrow> bool" where
  "node_init v0 s \<longleftrightarrow>
     (\<exists>input. nd_bridge s = bridge_new input v0) \<and> live_init (nd_live s) \<and>
     nd_next s = bridge_subscribe (nd_bridge s) \<and> nd_opening s = [] \<and> nd_answers s = []"

definition answer_of :: "live_job \<Rightarrow> string \<Rightarrow> nat \<Rightarrow> answer" where
  "answer_of job t n =
     \<lparr>an_sql = job_sql job, an_who = job_who job, an_headers = job_headers job, an_params = job_params job,
      an_body = t, an_asked = n\<rparr>"

definition note_answer :: "live_job \<Rightarrow> string result \<Rightarrow> nat \<Rightarrow> answer list \<Rightarrow> answer list" where
  "note_answer job r n as = (case r of Inr t \<Rightarrow> answer_of job t n # as | Inl _ \<Rightarrow> as)"

text \<open>The moves of the worker.\<close>

definition receive :: "(u64 \<times> subscription) iter \<Rightarrow> 'w node \<Rightarrow> 'w node" where
  "receive its s =
     s\<lparr>nd_live := (nd_live s)\<lparr>st_pc := WJobs (xid (node_sent s ! nd_next s)) (commit_jobs its (node_sent s ! nd_next s) (node_hub s))\<rparr>,
       nd_next := Suc (nd_next s)\<rparr>"

definition lag :: "(u64 \<times> subscription) iter \<Rightarrow> 'w node \<Rightarrow> 'w node" where
  "lag its s =
     s\<lparr>nd_live := (nd_live s)\<lparr>st_hub := reset_all its (node_hub s)\<rparr>, nd_next := length (node_sent s) - CHANNEL_CAPACITY\<rparr>"

definition ask :: "'w engine \<Rightarrow> u32 \<Rightarrow> live_job \<Rightarrow> live_job list \<Rightarrow> 'w node \<Rightarrow> 'w node" where
  "ask eng txid job jobs s =
     (case query_job eng job (st_io (nd_live s)) of
        (r, io) \<Rightarrow>
          s\<lparr>nd_live := (nd_live s)\<lparr>st_pc := WApply txid job r jobs, st_io := io\<rparr>,
            nd_answers := note_answer job r (length (node_sent s)) (nd_answers s), nd_query := length (node_sent s)\<rparr>)"

definition settle_job ::
  "json_printer \<Rightarrow> json_parser \<Rightarrow> (string \<Rightarrow> u64) \<Rightarrow> (string \<times> json) iter \<Rightarrow> u32 \<Rightarrow> live_job \<Rightarrow> string result \<Rightarrow> live_job list \<Rightarrow>
   'w node \<Rightarrow> 'w node" where
  "settle_job json_text from_str finish it txid job r jobs s =
     s\<lparr>nd_live := (nd_live s)\<lparr>st_hub := apply_job json_text from_str finish it txid job r (node_hub s), st_pc := WJobs txid jobs\<rparr>,
       nd_asked := (case r of Inr _ \<Rightarrow> (nd_asked s)(job_id job := nd_query s) | Inl _ \<Rightarrow> nd_asked s)\<rparr>"

definition finish_jobs :: "'w node \<Rightarrow> 'w node" where
  "finish_jobs s = s\<lparr>nd_live := (nd_live s)\<lparr>st_hub := retain_open (node_hub s), st_pc := WIdle\<rparr>\<rparr>"

text \<open>The moves of a subscribing read.\<close>

definition register ::
  "json_printer \<Rightarrow> json_parser \<Rightarrow> (string \<Rightarrow> u64) \<Rightarrow> started \<Rightarrow> 'w node \<Rightarrow> 'w node" where
  "register json_text from_str finish opened s =
     (let a = op_answer opened
      in case hub_subscribe json_text from_str finish (an_sql a) (op_tables opened) (op_hash opened) (op_version opened)
                (an_body a) (an_who a) (an_headers a) (an_params a) (node_hub s) of
           (ls, hub') \<Rightarrow>
             s\<lparr>nd_live := (nd_live s)\<lparr>st_hub := hub', st_handles := ls # st_handles (nd_live s)\<rparr>,
               nd_opening := remove1 opened (nd_opening s),
               nd_asked := (nd_asked s)(ls_id ls := an_asked a), nd_taken := (nd_taken s)(ls_id ls := an_asked a),
               nd_from := (nd_from s)(ls_id ls := nd_next s)\<rparr>)"

inductive node_step ::
  "'w engine \<Rightarrow> json_printer \<Rightarrow> json_parser \<Rightarrow> (string \<Rightarrow> u64) \<Rightarrow> 'w node \<Rightarrow> 'w node \<Rightarrow> bool"
  for eng json_text from_str finish where
  node_bridge: "cdc_step (nd_bridge s) b \<Longrightarrow> node_step eng json_text from_str finish s (s\<lparr>nd_bridge := b\<rparr>)"
| node_snapshot:
    "query_json_scoped eng who headers sql params (st_io (nd_live s)) = (Inr t, io) \<Longrightarrow>
     a = \<lparr>an_sql = sql, an_who = who, an_headers = headers, an_params = params, an_body = t, an_asked = length (node_sent s)\<rparr> \<Longrightarrow>
     node_step eng json_text from_str finish s
       (s\<lparr>nd_live := (nd_live s)\<lparr>st_io := io\<rparr>, nd_answers := a # nd_answers s,
          nd_opening := \<lparr>op_answer = a, op_tables = ts, op_hash = hash, op_version = version\<rparr> # nd_opening s\<rparr>)"
| node_cached:
    "a \<in> set (nd_answers s) \<Longrightarrow> an_who a = None \<Longrightarrow> an_headers a = None \<Longrightarrow>
     node_step eng json_text from_str finish s
       (s\<lparr>nd_opening := \<lparr>op_answer = a, op_tables = ts, op_hash = hash, op_version = version\<rparr> # nd_opening s\<rparr>)"
| node_register:
    "opened \<in> set (nd_opening s) \<Longrightarrow>
     node_step eng json_text from_str finish s (register json_text from_str finish opened s)"
| node_abandon: "node_step eng json_text from_str finish s (s\<lparr>nd_opening := remove1 opened (nd_opening s)\<rparr>)"
| node_receive:
    "st_pc (nd_live s) = WIdle \<Longrightarrow> fair_iter its \<Longrightarrow> nd_next s < length (node_sent s) \<Longrightarrow>
     length (node_sent s) - nd_next s \<le> CHANNEL_CAPACITY \<Longrightarrow>
     node_step eng json_text from_str finish s (receive its s)"
| node_lagged:
    "st_pc (nd_live s) = WIdle \<Longrightarrow> fair_iter its \<Longrightarrow> CHANNEL_CAPACITY < length (node_sent s) - nd_next s \<Longrightarrow>
     node_step eng json_text from_str finish s (lag its s)"
| node_query:
    "st_pc (nd_live s) = WJobs txid (job # jobs) \<Longrightarrow>
     node_step eng json_text from_str finish s (ask eng txid job jobs s)"
| node_apply:
    "st_pc (nd_live s) = WApply txid job r jobs \<Longrightarrow> fair_iter it \<Longrightarrow>
     node_step eng json_text from_str finish s (settle_job json_text from_str finish it txid job r jobs s)"
| node_finish:
    "st_pc (nd_live s) = WJobs txid [] \<Longrightarrow> node_step eng json_text from_str finish s (finish_jobs s)"
| node_drop:
    "ls \<in> set (st_handles (nd_live s)) \<Longrightarrow>
     node_step eng json_text from_str finish s
       (s\<lparr>nd_live := (nd_live s)\<lparr>st_hub := drop_remove ls (node_hub s), st_handles := remove1 ls (st_handles (nd_live s)),
                               st_closing := ls # st_closing (nd_live s)\<rparr>\<rparr>)"
| node_close:
    "ls \<in> set (st_closing (nd_live s)) \<Longrightarrow>
     node_step eng json_text from_str finish s
       (s\<lparr>nd_live := (nd_live s)\<lparr>st_hub := drop_close ls (node_hub s), st_closing := remove1 ls (st_closing (nd_live s))\<rparr>\<rparr>)"
| node_world:
    "node_step eng json_text from_str finish s (s\<lparr>nd_live := (nd_live s)\<lparr>st_io := io\<rparr>\<rparr>)"

inductive_cases node_stepE: "node_step eng json_text from_str finish s t"

subsection \<open>Its components\<close>

text \<open>A subscribing read of \<open>Read\<close> is a snapshot and a registration with nothing in between.\<close>

lemma read_subscribe_parts:
  assumes "read_subscribe lib read s = (Inr ls, t)" and "pr_who read \<noteq> None \<or> pr_headers read \<noteq> None"
  shows "\<exists>answered io. query_json_scoped (l_engine lib) (pr_who read) (pr_headers read) (q_sql (pr_query read)) (q_params (pr_query read))
      (rs_io s) = (Inr answered, io) \<and>
    hub_subscribe (l_json_text lib) (l_from_str lib) (l_finish lib) (q_sql (pr_query read)) (q_tables (pr_query read)) []
      (query_version read s) answered (pr_who read) (pr_headers read) (q_params (pr_query read)) (rs_live s) = (ls, rs_live t)"
proof -
  from assms obtain answered io where q: "query_json_scoped (l_engine lib) (pr_who read) (pr_headers read) (q_sql (pr_query read))
      (q_params (pr_query read)) (rs_io s) = (Inr answered, io)"
    and r: "live_register lib read [] (query_version read s) answered (pr_who read) (pr_headers read) (s\<lparr>rs_io := io\<rparr>) = (Inr ls, t)"
    by (auto simp: read_subscribe_def Let_def bind_read_Inr on_io_eq)
  from r have "hub_subscribe (l_json_text lib) (l_from_str lib) (l_finish lib) (q_sql (pr_query read)) (q_tables (pr_query read)) []
      (query_version read s) answered (pr_who read) (pr_headers read) (q_params (pr_query read)) (rs_live s) = (ls, rs_live t)"
    by (cases "hub_subscribe (l_json_text lib) (l_from_str lib) (l_finish lib) (q_sql (pr_query read)) (q_tables (pr_query read)) []
      (query_version read s) answered (pr_who read) (pr_headers read) (q_params (pr_query read)) (rs_live s)")
      (auto simp: live_register_def)
  then show ?thesis using q by blast
qed

lemma node_projects:
  assumes "node_step eng json_text from_str finish s t"
  shows "(live_step eng json_text from_str finish)\<^sup>*\<^sup>* (nd_live s) (nd_live t) \<and> cdc_step\<^sup>*\<^sup>* (nd_bridge s) (nd_bridge t)"
  using assms
proof cases
  case (node_register opened)
  obtain ls hub' where h: "hub_subscribe json_text from_str finish (an_sql (op_answer opened)) (op_tables opened) (op_hash opened)
      (op_version opened) (an_body (op_answer opened)) (an_who (op_answer opened)) (an_headers (op_answer opened))
      (an_params (op_answer opened)) (node_hub s) = (ls, hub')" by fastforce
  show ?thesis using live_subscribe [OF h, of eng] by (simp add: node_register(1) register_def h Let_def r_into_rtranclp)
next
  case (node_receive its)
  show ?thesis using live_commit [OF node_receive(2,3)] by (simp add: node_receive(1) receive_def r_into_rtranclp)
next
  case (node_lagged its)
  show ?thesis using live_lagged [OF node_lagged(2,3)] by (simp add: node_lagged(1) lag_def r_into_rtranclp)
next
  case (node_query txid job jobs)
  obtain r io where q: "query_job eng job (st_io (nd_live s)) = (r, io)" by fastforce
  show ?thesis using live_query [OF node_query(2) q] by (simp add: node_query(1) ask_def q r_into_rtranclp)
next
  case (node_apply txid job r jobs it)
  show ?thesis using live_apply [OF node_apply(2,3)] by (simp add: node_apply(1) settle_job_def r_into_rtranclp)
next
  case (node_finish txid)
  show ?thesis using live_finish [OF node_finish(2)] by (simp add: node_finish(1) finish_jobs_def r_into_rtranclp)
qed (auto intro: live_step.intros)

lemma node_runs_project:
  assumes "(node_step eng json_text from_str finish)\<^sup>*\<^sup>* s t"
  shows "(live_step eng json_text from_str finish)\<^sup>*\<^sup>* (nd_live s) (nd_live t) \<and> cdc_step\<^sup>*\<^sup>* (nd_bridge s) (nd_bridge t)"
  using assms
proof induction
  case (step t u)
  then show ?case using node_projects [OF step(2)] by (meson rtranclp_trans)
qed simp

lemma sent_grows: "cdc_step b b' \<Longrightarrow> prefix (c_sent b) (c_sent b')"
  by (erule cdc_stepE) (auto simp: publish_def enqueue_def stop_def thread_step_def split: cdc_pc.splits list.splits)

subsection \<open>The invariant\<close>

abbreviation node_pending :: "'w node \<Rightarrow> live_job list" where
  "node_pending s \<equiv> pending (st_pc (nd_live s))"

text \<open>Every handled transaction that changes a table of the subscription is accounted for.\<close>

definition covered :: "'w node \<Rightarrow> u64 \<Rightarrow> subscription \<Rightarrow> bool" where
  "covered s sid sub \<longleftrightarrow>
     (\<forall>k < nd_next s. affected (node_sent s ! k) sub \<longrightarrow>
        k < nd_asked s sid \<or> nd_taken s sid \<le> k \<and> k < nd_from s sid \<or> sid \<in> job_id ` set (node_pending s))"

definition answered ::
  "json_printer \<Rightarrow> json_parser \<Rightarrow> (string \<Rightarrow> u64) \<Rightarrow> answer list \<Rightarrow> nat \<Rightarrow> subscription \<Rightarrow> bool" where
  "answered json_text from_str finish as n sub \<longleftrightarrow>
     (\<exists>a \<in> set as. an_sql a = sub_sql sub \<and> an_who a = sub_who sub \<and> an_headers a = sub_headers sub \<and>
        an_params a = sub_params sub \<and> an_asked a = n \<and>
        sub_last sub = keyed_map json_text from_str finish (an_body a) (sub_pk sub))"

definition job_matches :: "live_job \<Rightarrow> subscription \<Rightarrow> bool" where
  "job_matches job sub \<longleftrightarrow>
     job_sql job = sub_sql sub \<and> job_pk job = sub_pk sub \<and> job_who job = sub_who sub \<and>
     job_headers job = sub_headers sub \<and> job_params job = sub_params sub"

definition sub_inv :: "json_printer \<Rightarrow> json_parser \<Rightarrow> (string \<Rightarrow> u64) \<Rightarrow> 'w node \<Rightarrow> u64 \<Rightarrow> subscription \<Rightarrow> bool" where
  "sub_inv json_text from_str finish s sid sub \<longleftrightarrow>
     covered s sid sub \<and> answered json_text from_str finish (nd_answers s) (nd_asked s sid) sub \<and>
     nd_taken s sid \<le> nd_asked s sid \<and> nd_asked s sid \<le> length (node_sent s) \<and>
     (\<forall>job \<in> set (node_pending s). job_id job = sid \<longrightarrow> job_matches job sub)"

definition query_inv :: "'w node \<Rightarrow> bool" where
  "query_inv s \<longleftrightarrow>
     (case st_pc (nd_live s) of
        WApply _ job r _ \<Rightarrow>
          nd_next s \<le> nd_query s \<and> nd_query s \<le> length (node_sent s) \<and>
          (\<forall>t. r = Inr t \<longrightarrow> answer_of job t (nd_query s) \<in> set (nd_answers s)) \<and>
          (map_of (h_subs (node_hub s)) (job_id job) \<noteq> None \<longrightarrow> nd_taken s (job_id job) \<le> nd_query s)
      | _ \<Rightarrow> True)"

definition node_inv :: "json_printer \<Rightarrow> json_parser \<Rightarrow> (string \<Rightarrow> u64) \<Rightarrow> 'w node \<Rightarrow> bool" where
  "node_inv json_text from_str finish s \<longleftrightarrow>
     live_inv from_str (nd_live s) \<and> nd_next s \<le> length (node_sent s) \<and>
     (\<forall>a \<in> set (nd_answers s). an_asked a \<le> length (node_sent s)) \<and>
     (\<forall>opened \<in> set (nd_opening s). op_answer opened \<in> set (nd_answers s)) \<and>
     (length (h_chans (node_hub s)) \<le> 2 ^ 64 \<longrightarrow>
        query_inv s \<and>
        (\<forall>sid sub. map_of (h_subs (node_hub s)) sid = Some sub \<longrightarrow> sub_inv json_text from_str finish s sid sub))"

lemma answered_mono: "answered json_text from_str finish as n sub \<Longrightarrow> set as \<subseteq> set bs \<Longrightarrow> answered json_text from_str finish bs n sub"
  by (auto simp: answered_def)

text \<open>Steps that leave the worker and the registered subscriptions as they are.\<close>

lemma node_inv_frame:
  assumes inv: "node_inv json_text from_str finish s" and live: "live_inv from_str (nd_live t)"
    and same: "st_pc (nd_live t) = st_pc (nd_live s)" "nd_next t = nd_next s" "nd_asked t = nd_asked s" "nd_taken t = nd_taken s"
      "nd_from t = nd_from s" "nd_query t = nd_query s"
    and subs: "map_of (h_subs (node_hub t)) \<subseteq>\<^sub>m map_of (h_subs (node_hub s))"
      "length (h_chans (node_hub t)) = length (h_chans (node_hub s))"
    and grow: "prefix (node_sent s) (node_sent t)" "set (nd_answers s) \<subseteq> set (nd_answers t)"
    and asked: "\<forall>a \<in> set (nd_answers t). an_asked a \<le> length (node_sent t)"
    and opened: "\<forall>opened \<in> set (nd_opening t). op_answer opened \<in> set (nd_answers t)"
  shows "node_inv json_text from_str finish t"
proof -
  have len: "length (node_sent s) \<le> length (node_sent t)" using grow(1) by (rule prefix_length_le)
  have nth: "k < nd_next s \<Longrightarrow> node_sent t ! k = node_sent s ! k" for k
    using grow(1) inv by (auto simp: node_inv_def prefix_def nth_append)
  have sub: "sub_inv json_text from_str finish t sid sub"
    if "length (h_chans (node_hub s)) \<le> 2 ^ 64" "map_of (h_subs (node_hub t)) sid = Some sub" for sid sub
  proof -
    have "map_of (h_subs (node_hub s)) sid = Some sub" using subs(1) that(2) by (metis domI map_le_def)
    then have s: "sub_inv json_text from_str finish s sid sub" using inv that(1) by (simp add: node_inv_def)
    then have "covered t sid sub" unfolding sub_inv_def covered_def same using nth by simp
    moreover have "answered json_text from_str finish (nd_answers t) (nd_asked s sid) sub"
      using s answered_mono [OF _ grow(2)] by (simp add: sub_inv_def)
    ultimately show ?thesis using s len unfolding sub_inv_def same by simp
  qed
  have query: "query_inv t" if "length (h_chans (node_hub s)) \<le> 2 ^ 64"
  proof -
    have q: "query_inv s" using inv that by (simp add: node_inv_def)
    have gone: "map_of (h_subs (node_hub s)) i = None \<Longrightarrow> map_of (h_subs (node_hub t)) i = None" for i
      using map_le_implies_dom_le [OF subs(1)] by (auto simp: domIff)
    show ?thesis
    proof (cases "st_pc (nd_live s)")
      case (WApply txid job r jobs)
      then show ?thesis using q len grow(2) gone [of "job_id job"] unfolding query_inv_def same by auto
    qed (simp_all add: query_inv_def same)
  qed
  then show ?thesis
    using inv live same(2) len subs(2) asked opened sub query unfolding node_inv_def by simp
qed

lemma node_live_inv:
  assumes "json_roundtrip json_text from_str" and "live_inv from_str (nd_live s)" and "node_step eng json_text from_str finish s t"
  shows "live_inv from_str (nd_live t)"
proof -
  have "(\<lambda>s t. json_roundtrip json_text from_str \<and> live_step eng json_text from_str finish s t)\<^sup>*\<^sup>* (nd_live s) (nd_live t)"
    using node_projects [OF assms(3)] assms(1) by simp
  from live.inv_steps [OF assms(2) this] show ?thesis .
qed

lemma node_state_ok:
  assumes "node_inv json_text from_str finish s" and "length (h_chans (node_hub s)) \<le> 2 ^ 64"
  shows "hub_ok from_str (node_hub s)" "distinct (map job_id (node_pending s))" "\<forall>job \<in> set (node_pending s). job_ok (node_hub s) job"
    "h_next_id (node_hub s) = of_nat (length (h_chans (node_hub s)))" "query_inv s"
    "\<And>sid sub. map_of (h_subs (node_hub s)) sid = Some sub \<Longrightarrow> sub_inv json_text from_str finish s sid sub"
  using assms by (simp_all add: node_inv_def live_inv_def state_ok_def)

lemma node_inv_receive:
  assumes inv: "node_inv json_text from_str finish s" and pc: "st_pc (nd_live s) = WIdle" and it: "fair_iter its"
    and more: "nd_next s < length (node_sent s)" and live: "live_inv from_str (nd_live (receive its s))"
  shows "node_inv json_text from_str finish (receive its s)"
proof -
  let ?txn = "node_sent s ! nd_next s"
  have sub: "sub_inv json_text from_str finish (receive its s) sid sub"
    if len: "length (h_chans (node_hub s)) \<le> 2 ^ 64" and reg: "map_of (h_subs (node_hub s)) sid = Some sub" for sid sub
  proof -
    note ok = node_state_ok [OF inv len]
    have keys: "distinct (map fst (h_subs (node_hub s)))" using ok(1) by (simp add: hub_ok_def)
    have s: "sub_inv json_text from_str finish s sid sub" using ok(6) [OF reg] .
    have job: "sid \<in> job_id ` set (commit_jobs its ?txn (node_hub s))" if "affected ?txn sub"
    proof -
      have "(sid, sub) \<in> set (its (h_subs (node_hub s)))" using fair_iter_set [OF it] map_of_SomeD [OF reg] by metis
      then have "job_of (sid, sub) \<in> set (commit_jobs its ?txn (node_hub s))" using that by (force simp: commit_jobs_def)
      moreover have "job_id (job_of (sid, sub)) = sid" by (simp add: job_of_def)
      ultimately show ?thesis by (metis image_eqI)
    qed
    have "covered (receive its s) sid sub"
      unfolding covered_def
    proof (intro allI impI)
      fix k
      assume k: "k < nd_next (receive its s)" "affected (node_sent (receive its s) ! k) sub"
      show "k < nd_asked (receive its s) sid \<or> nd_taken (receive its s) sid \<le> k \<and> k < nd_from (receive its s) sid \<or>
          sid \<in> job_id ` set (node_pending (receive its s))"
      proof (cases "k = nd_next s")
        case True
        then show ?thesis using k(2) job by (simp add: receive_def)
      next
        case False
        then have "k < nd_next s" using k(1) by (simp add: receive_def)
        moreover have "affected (node_sent s ! k) sub" using k(2) by (simp add: receive_def)
        moreover have "covered s sid sub" using s by (simp add: sub_inv_def)
        ultimately have "k < nd_asked s sid \<or> nd_taken s sid \<le> k \<and> k < nd_from s sid" using pc by (auto simp: covered_def)
        then show ?thesis by (auto simp: receive_def)
      qed
    qed
    moreover have "job_matches j sub" if j: "j \<in> set (commit_jobs its ?txn (node_hub s))" "job_id j = sid" for j
    proof -
      obtain sid' sub' where mem: "(sid', sub') \<in> set (h_subs (node_hub s))" "j = job_of (sid', sub')"
        using j(1) fair_iter_set [OF it] by (auto simp: commit_jobs_def)
      then have "sid' = sid" using j(2) by (simp add: job_of_def)
      then have "sub' = sub" using mem(1) reg keys by (metis map_of_is_SomeI option.inject)
      then show ?thesis using mem(2) by (simp add: job_of_def job_matches_def)
    qed
    ultimately show ?thesis using s by (simp add: sub_inv_def receive_def)
  qed
  have "query_inv (receive its s)" by (simp add: query_inv_def receive_def)
  then show ?thesis using inv live more sub unfolding node_inv_def by (simp add: receive_def)
qed

lemma node_inv_lag:
  assumes inv: "node_inv json_text from_str finish s" and pc: "st_pc (nd_live s) = WIdle"
    and live: "live_inv from_str (nd_live (lag its s))"
  shows "node_inv json_text from_str finish (lag its s)"
  using inv live pc unfolding node_inv_def by (simp add: lag_def reset_all_shape query_inv_def)

lemma node_inv_ask:
  assumes inv: "node_inv json_text from_str finish s" and pc: "st_pc (nd_live s) = WJobs txid (job # jobs)"
    and live: "live_inv from_str (nd_live (ask eng txid job jobs s))"
  shows "node_inv json_text from_str finish (ask eng txid job jobs s)"
proof -
  obtain r io where q: "query_job eng job (st_io (nd_live s)) = (r, io)" by fastforce
  let ?t = "ask eng txid job jobs s"
  have grow: "set (nd_answers s) \<subseteq> set (nd_answers ?t)" "\<forall>a \<in> set (nd_answers ?t). an_asked a \<le> length (node_sent s)"
    using inv by (auto simp: ask_def q note_answer_def answer_of_def node_inv_def split: sum.splits)
  have "sub_inv json_text from_str finish ?t sid sub"
    if "length (h_chans (node_hub s)) \<le> 2 ^ 64" and "map_of (h_subs (node_hub s)) sid = Some sub" for sid sub
  proof -
    have s: "sub_inv json_text from_str finish s sid sub" using node_state_ok(6) [OF inv that] .
    have "answered json_text from_str finish (nd_answers ?t) (nd_asked s sid) sub"
      using s answered_mono [OF _ grow(1)] by (simp add: sub_inv_def)
    then show ?thesis using s pc by (simp add: sub_inv_def covered_def ask_def q)
  qed
  moreover have "query_inv ?t" if len: "length (h_chans (node_hub s)) \<le> 2 ^ 64"
  proof -
    have "nd_taken s (job_id job) \<le> length (node_sent s)" if "map_of (h_subs (node_hub s)) (job_id job) = Some sub" for sub
      using node_state_ok(6) [OF inv len that] by (simp add: sub_inv_def)
    then show ?thesis using inv by (auto simp: query_inv_def ask_def q note_answer_def node_inv_def)
  qed
  ultimately show ?thesis using inv live grow unfolding node_inv_def by (auto simp: ask_def q)
qed

lemma node_inv_settle_job:
  assumes inv: "node_inv json_text from_str finish s" and pc: "st_pc (nd_live s) = WApply txid job r jobs"
    and live: "live_inv from_str (nd_live (settle_job json_text from_str finish it txid job r jobs s))"
  shows "node_inv json_text from_str finish (settle_job json_text from_str finish it txid job r jobs s)"
proof -
  let ?t = "settle_job json_text from_str finish it txid job r jobs s"
  let ?hub = "apply_job json_text from_str finish it txid job r (node_hub s)"
  have "sub_inv json_text from_str finish ?t sid sub"
    if len: "length (h_chans (node_hub s)) \<le> 2 ^ 64" and reg: "map_of (h_subs ?hub) sid = Some sub" for sid sub
  proof (cases "sid = job_id job")
    case False
    note shape = apply_job_shape [OF node_state_ok(1) [OF inv len], of json_text finish it txid job r]
    have "map_of (h_subs (node_hub s)) sid = Some sub" using reg False shape by metis
    from node_state_ok(6) [OF inv len this] show ?thesis
      using False pc by (cases r) (auto simp: sub_inv_def covered_def settle_job_def)
  next
    case True
    note ok = node_state_ok [OF inv len]
    obtain sub0 where sub0: "map_of (h_subs (node_hub s)) (job_id job) = Some sub0"
      using apply_job_shape [OF ok(1), of json_text finish it txid job r] reg True by (metis not_None_eq)
    have s: "sub_inv json_text from_str finish s (job_id job) sub0" using ok(6) [OF sub0] .
    then have match: "job_matches job sub0" using pc by (simp add: sub_inv_def)
    have fresh_ids: "job_id job \<notin> job_id ` set jobs" using ok(2) pc by simp
    obtain fresh where r: "r = Inr fresh"
      using reg True sub0 by (cases r) (simp_all add: apply_job_def fail_job_def)
    have sub: "sub = sub0\<lparr>sub_last := keyed_map json_text from_str finish fresh (job_pk job)\<rparr>"
      using reg True deliver_job_present [OF sub0 hub_okD [OF ok(1) sub0], of json_text finish it txid fresh]
      by (simp add: r apply_job_def Let_def)
    have q: "nd_next s \<le> nd_query s" "nd_query s \<le> length (node_sent s)" "answer_of job fresh (nd_query s) \<in> set (nd_answers s)"
        "nd_taken s (job_id job) \<le> nd_query s"
      using ok(5) sub0 by (simp_all add: query_inv_def pc r)
    have "answered json_text from_str finish (nd_answers s) (nd_query s) sub"
      unfolding answered_def using q(3) match
      by (intro bexI [of _ "answer_of job fresh (nd_query s)"]) (simp_all add: sub job_matches_def answer_of_def)
    moreover have "\<forall>j \<in> set jobs. job_id j \<noteq> job_id job" using fresh_ids by (metis image_eqI)
    ultimately show ?thesis
      using q(1,2,4) True unfolding sub_inv_def covered_def by (simp add: settle_job_def r)
  qed
  moreover have "query_inv ?t" by (simp add: query_inv_def settle_job_def)
  ultimately show ?thesis
    using inv live apply_job_counts [of json_text from_str finish it txid job r "node_hub s"]
    unfolding node_inv_def by (simp add: settle_job_def)
qed

lemma node_inv_finish:
  assumes inv: "node_inv json_text from_str finish s" and pc: "st_pc (nd_live s) = WJobs txid []"
    and live: "live_inv from_str (nd_live (finish_jobs s))"
  shows "node_inv json_text from_str finish (finish_jobs s)"
proof -
  have "sub_inv json_text from_str finish (finish_jobs s) sid sub"
    if "length (h_chans (node_hub s)) \<le> 2 ^ 64" "map_of (h_subs (node_hub (finish_jobs s))) sid = Some sub" for sid sub
  proof -
    have "retain_open (node_hub s) = node_hub s" using retain_open_id node_state_ok(1) [OF inv that(1)] .
    then have "sub_inv json_text from_str finish s sid sub"
      using node_state_ok(6) [OF inv that(1)] that(2) by (simp add: finish_jobs_def)
    then show ?thesis using pc by (simp add: sub_inv_def covered_def finish_jobs_def)
  qed
  moreover have "query_inv (finish_jobs s)" by (simp add: query_inv_def finish_jobs_def)
  moreover have "length (h_chans (retain_open (node_hub s))) = length (h_chans (node_hub s))" by (simp add: retain_open_def)
  ultimately show ?thesis using inv live unfolding node_inv_def by (simp add: finish_jobs_def)
qed

lemma node_inv_register:
  assumes inv: "node_inv json_text from_str finish s" and mem: "opened \<in> set (nd_opening s)"
    and live: "live_inv from_str (nd_live (register json_text from_str finish opened s))"
  shows "node_inv json_text from_str finish (register json_text from_str finish opened s)"
proof -
  let ?t = "register json_text from_str finish opened s"
  let ?a = "op_answer opened"
  let ?id = "h_next_id (node_hub s)"
  define sub' where "sub' = \<lparr>sub_tables = op_tables opened, sub_pk = pk_of_tables (node_hub s) (op_tables opened), sub_sql = an_sql ?a,
      sub_sender = length (h_chans (node_hub s)),
      sub_last = keyed_map json_text from_str finish (an_body ?a) (pk_of_tables (node_hub s) (op_tables opened)),
      sub_who = an_who ?a, sub_headers = an_headers ?a, sub_params = an_params ?a\<rparr>"
  have t: "h_subs (node_hub ?t) = AList.update ?id sub' (h_subs (node_hub s))"
      "length (h_chans (node_hub ?t)) = Suc (length (h_chans (node_hub s)))"
      "st_pc (nd_live ?t) = st_pc (nd_live s)" "nd_next ?t = nd_next s" "nd_answers ?t = nd_answers s" "node_sent ?t = node_sent s"
      "nd_asked ?t = (nd_asked s)(?id := an_asked ?a)" "nd_taken ?t = (nd_taken s)(?id := an_asked ?a)"
      "nd_from ?t = (nd_from s)(?id := nd_next s)" "nd_query ?t = nd_query s" "nd_opening ?t = remove1 opened (nd_opening s)"
    by (simp_all add: register_def hub_subscribe_eq Let_def sub'_def)
  have a: "?a \<in> set (nd_answers s)" "an_asked ?a \<le> length (node_sent s)" using inv mem by (auto simp: node_inv_def)
  have new: "query_inv ?t \<and> (\<forall>sid sub. map_of (h_subs (node_hub ?t)) sid = Some sub \<longrightarrow> sub_inv json_text from_str finish ?t sid sub)"
    if len: "Suc (length (h_chans (node_hub s))) \<le> 2 ^ 64"
  proof -
    have len': "length (h_chans (node_hub s)) \<le> 2 ^ 64" using len by simp
    note ok = node_state_ok [OF inv len']
    have unused: "job_id j \<noteq> ?id" if j: "j \<in> set (node_pending s)" for j
    proof
      assume id: "job_id j = ?id"
      obtain i where i: "i < length (h_chans (node_hub s))" "job_id j = of_nat i" using ok(3) j by (auto simp: job_ok_def)
      then have "i < 2 ^ 64" "length (h_chans (node_hub s)) < 2 ^ 64" using len by linarith+
      from of_nat_u64_inject [OF this] show False using i id ok(4) by simp
    qed
    have "sub_inv json_text from_str finish ?t sid sub" if reg: "map_of (h_subs (node_hub ?t)) sid = Some sub" for sid sub
    proof (cases "sid = ?id")
      case True
      then have sub: "sub = sub'" using reg by (simp add: t)
      have "answered json_text from_str finish (nd_answers s) (an_asked ?a) sub'"
        unfolding answered_def using a(1) by (intro bexI [of _ ?a]) (simp_all add: sub'_def)
      moreover have "covered ?t ?id sub'" by (auto simp: covered_def t)
      ultimately show ?thesis using a(2) unused by (auto simp: sub_inv_def t True sub)
    next
      case False
      then have "map_of (h_subs (node_hub s)) sid = Some sub" using reg by (simp add: t)
      from ok(6) [OF this] show ?thesis using False by (simp add: sub_inv_def covered_def t)
    qed
    moreover have "query_inv ?t"
    proof (cases "st_pc (nd_live s)")
      case (WApply txid job r jobs)
      then have "job_id job \<noteq> ?id" using unused by simp
      then show ?thesis using ok(5) WApply by (simp add: query_inv_def t)
    qed (simp_all add: query_inv_def t)
    ultimately show ?thesis by blast
  qed
  have "set (remove1 opened (nd_opening s)) \<subseteq> set (nd_opening s)" by (rule set_remove1_subset)
  then show ?thesis using inv live new unfolding node_inv_def t by auto
qed

lemma node_inv_step:
  assumes codec: "json_roundtrip json_text from_str" and inv: "node_inv json_text from_str finish s"
    and step: "node_step eng json_text from_str finish s t"
  shows "node_inv json_text from_str finish t"
proof -
  have live: "live_inv from_str (nd_live t)"
    using node_live_inv [OF codec _ step] inv by (simp add: node_inv_def)
  have answers: "\<forall>a \<in> set (nd_answers s). an_asked a \<le> length (node_sent s)"
      "\<forall>opened \<in> set (nd_opening s). op_answer opened \<in> set (nd_answers s)" using inv by (simp_all add: node_inv_def)
  from step show ?thesis
  proof cases
    case (node_bridge b)
    have "prefix (node_sent s) (c_sent b)" using sent_grows [OF node_bridge(2)] .
    moreover from prefix_length_le [OF this] have "\<forall>a \<in> set (nd_answers s). an_asked a \<le> length (c_sent b)" using answers(1) by auto
    ultimately show ?thesis using node_inv_frame [OF inv live] node_bridge(1) answers by simp
  next
    case (node_snapshot who headers sql params t' io a ts hash version)
    then show ?thesis using node_inv_frame [OF inv live] answers by (simp add: subset_insertI)
  next
    case (node_cached a ts hash version)
    then show ?thesis using node_inv_frame [OF inv live] answers by simp
  next
    case (node_register opened)
    then show ?thesis using node_inv_register [OF inv] live by simp
  next
    case (node_abandon opened)
    have "set (remove1 opened (nd_opening s)) \<subseteq> set (nd_opening s)" by (rule set_remove1_subset)
    then show ?thesis using node_inv_frame [OF inv live] node_abandon answers by auto
  next
    case (node_receive its)
    then show ?thesis using node_inv_receive [OF inv] live by simp
  next
    case (node_lagged its)
    then show ?thesis using node_inv_lag [OF inv] live by simp
  next
    case (node_query txid job jobs)
    then show ?thesis using node_inv_ask [OF inv] live by simp
  next
    case (node_apply txid job r jobs it)
    then show ?thesis using node_inv_settle_job [OF inv] live by simp
  next
    case (node_finish txid)
    then show ?thesis using node_inv_finish [OF inv] live by simp
  next
    case (node_drop ls)
    have "map_of (h_subs (node_hub t)) \<subseteq>\<^sub>m map_of (h_subs (node_hub s))" by (simp add: node_drop(1) drop_remove_def map_le_def)
    then show ?thesis using node_inv_frame [OF inv live] node_drop(1) answers by (simp add: drop_remove_def)
  next
    case (node_close ls)
    have "h_subs (node_hub t) = h_subs (node_hub s)" "length (h_chans (node_hub t)) = length (h_chans (node_hub s))"
      by (simp_all add: node_close(1) drop_close_def)
    then show ?thesis using node_inv_frame [OF inv live] node_close(1) answers by simp
  next
    case (node_world io)
    then show ?thesis using node_inv_frame [OF inv live] answers by simp
  qed
qed

lemma node_inv_init: "node_init v0 s \<Longrightarrow> node_inv json_text from_str finish s"
  using live_inv_init by (auto simp: node_init_def node_inv_def live_init_def query_inv_def hub_start_def bridge_subscribe_def bridge_new_def)

interpretation node: invariant_system "node_init v0"
  "\<lambda>s t. json_roundtrip json_text from_str \<and> node_step eng json_text from_str finish s t" "node_inv json_text from_str finish"
  by unfold_locales (auto intro: node_inv_init node_inv_step)

lemma node_inv_run:
  assumes "json_roundtrip json_text from_str" and "node_inv json_text from_str finish s"
    and "(node_step eng json_text from_str finish)\<^sup>*\<^sup>* s t"
  shows "node_inv json_text from_str finish t"
proof -
  have "(\<lambda>s t. json_roundtrip json_text from_str \<and> node_step eng json_text from_str finish s t)\<^sup>*\<^sup>* s t"
    using assms(1,3) by simp
  then show ?thesis by (rule node.inv_steps [OF assms(2)])
qed

lemma node_reachable_inv:
  "json_roundtrip json_text from_str \<Longrightarrow> node_init v0 s0 \<Longrightarrow> (node_step eng json_text from_str finish)\<^sup>*\<^sup>* s0 s \<Longrightarrow>
   node_inv json_text from_str finish s"
  by (rule node_inv_run [OF _ node_inv_init])

subsection \<open>The worker catches up\<close>

definition settled :: "'w node \<Rightarrow> bool" where
  "settled s \<longleftrightarrow> st_pc (nd_live s) = WIdle \<and> nd_next s = length (node_sent s)"

text \<open>The next move of the worker; it waits when there is nothing to receive.\<close>

definition worker_move ::
  "'w engine \<Rightarrow> json_printer \<Rightarrow> json_parser \<Rightarrow> (string \<Rightarrow> u64) \<Rightarrow> (u64 \<times> subscription) iter \<Rightarrow> (string \<times> json) iter \<Rightarrow>
   'w node \<Rightarrow> 'w node" where
  "worker_move eng json_text from_str finish its it s =
     (case st_pc (nd_live s) of
        WIdle \<Rightarrow>
          if length (node_sent s) \<le> nd_next s then s
          else if CHANNEL_CAPACITY < length (node_sent s) - nd_next s then lag its s
          else receive its s
      | WJobs txid [] \<Rightarrow> finish_jobs s
      | WJobs txid (job # jobs) \<Rightarrow> ask eng txid job jobs s
      | WApply txid job r jobs \<Rightarrow> settle_job json_text from_str finish it txid job r jobs s)"

lemma worker_move_step:
  assumes "fair_iter its" and "fair_iter it"
  shows "(node_step eng json_text from_str finish)\<^sup>*\<^sup>* s (worker_move eng json_text from_str finish its it s)"
proof (cases "st_pc (nd_live s)")
  case WIdle
  then show ?thesis
    using node_lagged [OF WIdle assms(1)] node_receive [OF WIdle assms(1)] by (auto simp: worker_move_def)
next
  case (WJobs txid jobs)
  then show ?thesis
    by (cases jobs) (auto simp: worker_move_def intro!: r_into_rtranclp intro: node_finish node_query)
next
  case (WApply txid job r jobs)
  then show ?thesis using node_apply [OF WApply assms(2)] by (auto simp: worker_move_def)
qed

lemma worker_moves_run:
  assumes "fair_iter its" and "fair_iter it"
  shows "(node_step eng json_text from_str finish)\<^sup>*\<^sup>* s ((worker_move eng json_text from_str finish its it ^^ n) s)"
proof (induction n)
  case (Suc n)
  from rtranclp_trans [OF Suc worker_move_step [OF assms]] show ?case by simp
qed simp

text \<open>What the worker leaves alone.\<close>

definition same_frame :: "'w node \<Rightarrow> 'w node \<Rightarrow> bool" where
  "same_frame s t \<longleftrightarrow>
     nd_bridge t = nd_bridge s \<and> nd_opening t = nd_opening s \<and> st_handles (nd_live t) = st_handles (nd_live s) \<and>
     nd_taken t = nd_taken s \<and> nd_from t = nd_from s \<and>
     length (h_chans (node_hub t)) = length (h_chans (node_hub s))"

lemma same_frame_refl [simp]: "same_frame s s"
  by (simp add: same_frame_def)

lemma same_frame_trans: "same_frame s t \<Longrightarrow> same_frame t u \<Longrightarrow> same_frame s u"
  by (simp add: same_frame_def)

lemma worker_move_frame: "same_frame s (worker_move eng json_text from_str finish its it s)"
proof (cases "st_pc (nd_live s)")
  case WIdle
  then show ?thesis by (simp add: worker_move_def same_frame_def receive_def lag_def reset_all_shape)
next
  case (WJobs txid jobs)
  then show ?thesis
    by (cases jobs) (simp_all add: worker_move_def same_frame_def finish_jobs_def retain_open_def ask_def split: prod.split)
next
  case (WApply txid job r jobs)
  then show ?thesis by (simp add: worker_move_def same_frame_def settle_job_def apply_job_counts)
qed

text \<open>The broadcasts still to be received come first, then the moves left for the one in hand.\<close>

fun pc_moves :: "worker_pc \<Rightarrow> nat" where
  "pc_moves WIdle = 0"
| "pc_moves (WJobs _ jobs) = 2 * length jobs + 1"
| "pc_moves (WApply _ _ _ jobs) = 2 * length jobs + 2"

lemma worker_move_measure:
  assumes "\<not> settled s" and "nd_next s \<le> length (node_sent s)"
  shows "(worker_move eng json_text from_str finish its it s, s)
    \<in> measures [\<lambda>s. length (node_sent s) - nd_next s, \<lambda>s. pc_moves (st_pc (nd_live s))]"
proof (cases "st_pc (nd_live s)")
  case WIdle
  then show ?thesis using assms by (auto simp: worker_move_def settled_def receive_def lag_def)
next
  case (WJobs txid jobs)
  then show ?thesis
    by (cases jobs) (simp_all add: worker_move_def finish_jobs_def ask_def split: prod.split)
next
  case (WApply txid job r jobs)
  then show ?thesis by (simp add: worker_move_def settle_job_def)
qed

text \<open>The worker is at rest after finitely many moves, and then stays at rest.\<close>

lemma worker_settles:
  assumes "json_roundtrip json_text from_str" and "node_inv json_text from_str finish s" and "fair_iter its" and "fair_iter it"
  shows "\<exists>n. settled ((worker_move eng json_text from_str finish its it ^^ n) s) \<and>
    same_frame s ((worker_move eng json_text from_str finish its it ^^ n) s)"
  using assms(2)
proof (induction s rule: wf_induct_rule [OF wf_measures [of "[\<lambda>s. length (node_sent s) - nd_next s, \<lambda>s. pc_moves (st_pc (nd_live s))]"]])
  case (1 s)
  let ?move = "worker_move eng json_text from_str finish its it"
  show ?case
  proof (cases "settled s")
    case True
    then show ?thesis by (intro exI [of _ 0]) simp
  next
    case False
    have "nd_next s \<le> length (node_sent s)" using 1(2) by (simp add: node_inv_def)
    note smaller = worker_move_measure [OF False this, of eng json_text from_str finish its it]
    have "node_inv json_text from_str finish (?move s)"
      using node_inv_run [OF assms(1) 1(2) worker_move_step [OF assms(3,4)]] .
    from 1(1) [OF smaller this] obtain n where "settled ((?move ^^ n) (?move s))" "same_frame (?move s) ((?move ^^ n) (?move s))"
      by blast
    then show ?thesis
      using same_frame_trans [OF worker_move_frame]
      by (intro exI [of _ "Suc n"]) (simp add: funpow_Suc_right del: funpow.simps(2))
  qed
qed

lemma settled_rests: "settled s \<Longrightarrow> worker_move eng json_text from_str finish its it s = s"
  by (simp add: settled_def worker_move_def)

subsection \<open>Nobody is forgotten\<close>

text \<open>
  A subscription of channel \<open>i\<close> is still registered, or the channel has ended with a reset and belongs
  to nobody.
\<close>

definition kept_or_reset :: "live_hub \<Rightarrow> u64 \<Rightarrow> nat \<Rightarrow> bool" where
  "kept_or_reset hub sid i \<longleftrightarrow>
     (\<exists>sub. map_of (h_subs hub) sid = Some sub \<and> sub_sender sub = i) \<or>
     (\<forall>sid sub. map_of (h_subs hub) sid = Some sub \<longrightarrow> sub_sender sub \<noteq> i) \<and>
     (\<exists>frames. ch_frames (h_chans hub ! i) = frames @ [reset])"

lemma kept_reset_all:
  assumes "hub_ok from_str hub" and "length (h_chans hub) \<le> 2 ^ 64" and "fair_iter its" and "kept_or_reset hub sid i"
  shows "kept_or_reset (reset_all its hub) sid i"
proof (cases "\<exists>sub. map_of (h_subs hub) sid = Some sub \<and> sub_sender sub = i")
  case True
  then have "i \<in> (\<lambda>(sid, sub). sub_sender sub) ` set (h_subs hub)" by (force dest: map_of_SomeD)
  then show ?thesis using reset_all_sends [OF assms(3,1,2), of i] by (simp add: kept_or_reset_def reset_all_shape)
next
  case False
  then have free: "\<forall>sid sub. map_of (h_subs hub) sid = Some sub \<longrightarrow> sub_sender sub \<noteq> i"
      and frames: "\<exists>frames. ch_frames (h_chans hub ! i) = frames @ [reset]"
    using assms(4) by (auto simp: kept_or_reset_def)
  have "\<forall>(sid, sub) \<in> set (h_subs hub). sub_sender sub \<noteq> i"
    using free assms(1) by (auto simp: hub_ok_def)
  then show ?thesis
    using frames reset_all_frames [OF assms(3)] by (simp add: kept_or_reset_def reset_all_shape)
qed

lemma kept_apply_job:
  assumes "hub_ok from_str hub" and "length (h_chans hub) \<le> 2 ^ 64" and "kept_or_reset hub sid i"
  shows "kept_or_reset (apply_job json_text from_str finish it txid job r hub) sid i"
proof -
  let ?hub = "apply_job json_text from_str finish it txid job r hub"
  have senders: "\<exists>sub0. map_of (h_subs hub) sid' = Some sub0 \<and> sub_sender sub0 = sub_sender sub'"
    if "map_of (h_subs ?hub) sid' = Some sub'" for sid' sub'
  proof (cases "map_of (h_subs hub) (job_id job)")
    case None
    then show ?thesis using that apply_job_shape [OF assms(1), of json_text finish it txid job r] by metis
  next
    case (Some sub)
    note eq = deliver_job_present [OF Some hub_okD [OF assms(1) Some], of json_text finish it txid]
    show ?thesis using that Some by (cases r) (auto simp: apply_job_def fail_job_def eq Let_def split: if_splits)
  qed
  show ?thesis
  proof (cases "\<exists>sub. map_of (h_subs hub) sid = Some sub \<and> sub_sender sub = i")
    case False
    then have free: "\<forall>sid sub. map_of (h_subs hub) sid = Some sub \<longrightarrow> sub_sender sub \<noteq> i"
        and frames: "\<exists>frames. ch_frames (h_chans hub ! i) = frames @ [reset]"
      using assms(3) by (auto simp: kept_or_reset_def)
    have "\<forall>sid sub. map_of (h_subs ?hub) sid = Some sub \<longrightarrow> sub_sender sub \<noteq> i" using free senders by metis
    then show ?thesis
      using frames apply_job_frames [OF assms(1) free] by (simp add: kept_or_reset_def)
  next
    case True
    then obtain sub where sub: "map_of (h_subs hub) sid = Some sub" "sub_sender sub = i" by blast
    note ok = hub_okD [OF assms(1) sub(1)]
    show ?thesis
    proof (cases "sid = job_id job")
      case False
      then show ?thesis
        using sub apply_job_shape [OF assms(1), of json_text finish it txid job r] by (simp add: kept_or_reset_def)
    next
      case job: True
      note sub' = sub(1) [unfolded job] and ok' = ok [unfolded job]
      show ?thesis
      proof (cases r)
        case (Inr fresh)
        then show ?thesis
          using sub(2) deliver_job_present [OF sub' ok', of json_text finish it txid fresh]
          by (simp add: kept_or_reset_def apply_job_def Let_def job)
      next
        case (Inl e)
        have "sub_sender sub0 \<noteq> i" if "map_of (h_subs hub) sid0 = Some sub0" "sid0 \<noteq> sid" for sid0 sub0
          using same_sender [OF assms(2) hub_okD [OF assms(1) that(1)] ok] that(2) sub(2) by auto
        then show ?thesis
          using Inl sub sub' ok by (auto simp: kept_or_reset_def apply_job_def fail_job_def send_open sub_ok_def job)
      qed
    qed
  qed
qed

lemma kept_worker_move:
  assumes "node_inv json_text from_str finish s" and "length (h_chans (node_hub s)) \<le> 2 ^ 64" and "fair_iter its"
    and "kept_or_reset (node_hub s) sid i"
  shows "kept_or_reset (node_hub (worker_move eng json_text from_str finish its it s)) sid i"
proof -
  note hub = node_state_ok(1) [OF assms(1,2)]
  show ?thesis
  proof (cases "st_pc (nd_live s)")
    case WIdle
    then show ?thesis
      using assms(4) kept_reset_all [OF hub assms(2-4)] by (simp add: worker_move_def receive_def lag_def)
  next
    case (WJobs txid jobs)
    then show ?thesis
      using assms(4) retain_open_id [OF hub] by (cases jobs) (simp_all add: worker_move_def finish_jobs_def ask_def split: prod.split)
  next
    case (WApply txid job r jobs)
    then show ?thesis using kept_apply_job [OF hub assms(2,4)] by (simp add: worker_move_def settle_job_def)
  qed
qed

lemma kept_worker_moves:
  assumes "json_roundtrip json_text from_str" and "node_inv json_text from_str finish s"
    and "length (h_chans (node_hub s)) \<le> 2 ^ 64" and "fair_iter its" and "fair_iter it" and "kept_or_reset (node_hub s) sid i"
  shows "kept_or_reset (node_hub ((worker_move eng json_text from_str finish its it ^^ n) s)) sid i \<and>
    length (h_chans (node_hub ((worker_move eng json_text from_str finish its it ^^ n) s))) = length (h_chans (node_hub s))"
proof (induction n)
  case 0
  then show ?case using assms(6) by simp
next
  case (Suc n)
  let ?t = "(worker_move eng json_text from_str finish its it ^^ n) s"
  have inv: "node_inv json_text from_str finish ?t" using node_inv_run [OF assms(1,2) worker_moves_run [OF assms(4,5)]] .
  then have "kept_or_reset (node_hub (worker_move eng json_text from_str finish its it ?t)) sid i"
    using kept_worker_move [OF inv] Suc assms(3,4) by simp
  then show ?case using Suc worker_move_frame [of ?t] by (simp add: same_frame_def)
qed

subsection \<open>Properties\<close>


text \<open>A bridge at rest broadcasts what is published next.\<close>

definition receptive :: "cdc_bridge \<Rightarrow> bool" where
  "receptive b \<longleftrightarrow> c_input b \<and> \<not> c_stop b \<and> c_pc b = Receiving \<and> c_queue b = []"

definition broadcast :: "committed_transaction \<Rightarrow> cdc_bridge \<Rightarrow> cdc_bridge" where
  "broadcast txn b = (thread_step ^^ 4) (publish txn b)"

lemma broadcast_run: "cdc_step\<^sup>*\<^sup>* b (broadcast txn b)"
proof -
  have "cdc_step\<^sup>*\<^sup>* c ((thread_step ^^ n) c)" for c n
    by (induction n) (auto intro: rtranclp.rtrancl_into_rtrancl step_thread)
  then show ?thesis unfolding broadcast_def by (blast intro: converse_rtranclp_into_rtranclp step_publish)
qed

lemma broadcast_sent:
  assumes "receptive b"
  shows "c_sent (broadcast txn b) = c_sent b @ [txn]" "c_versions (broadcast txn b) = advance (c_versions b) txn"
  using assms by (simp_all add: receptive_def broadcast_def numeral_eq_Suc thread_step_def publish_def enqueue_def)

lemma bridge_run: "cdc_step\<^sup>*\<^sup>* (nd_bridge s) b \<Longrightarrow> (node_step eng json_text from_str finish)\<^sup>*\<^sup>* s (s\<lparr>nd_bridge := b\<rparr>)"
proof (induction rule: rtranclp_induct)
  case (step b c)
  have "node_step eng json_text from_str finish (s\<lparr>nd_bridge := b\<rparr>) (s\<lparr>nd_bridge := b\<rparr>\<lparr>nd_bridge := c\<rparr>)"
    using step(2) by (intro node_bridge) simp
  with step(3) show ?case by simp
qed simp


subsection \<open>A concrete node\<close>

definition sample_node :: "unit node" where
  "sample_node =
     \<lparr>nd_bridge = bridge_primary (version_index_new [] []), nd_live = sample_live, nd_next = 0, nd_opening = [], nd_answers = [],
      nd_asked = (\<lambda>_. 0), nd_taken = (\<lambda>_. 0), nd_from = (\<lambda>_. 0), nd_query = 0\<rparr>"

definition sample_opened :: started where
  "sample_opened =
     \<lparr>op_answer = \<lparr>an_sql = ''select 1'', an_who = None, an_headers = Some ''{}'', an_params = [], an_body = ''[1]'', an_asked = 0\<rparr>,
      op_tables = [''users''], op_hash = [], op_version = 0\<rparr>"

abbreviation sample_node_step :: "unit node \<Rightarrow> unit node \<Rightarrow> bool" where
  "sample_node_step \<equiv> node_step (one_row_engine [CText ''[1]'']) sample_json_text sample_from_str (\<lambda>_. 0)"

lemma sample_node_init: "node_init (version_index_new [] []) sample_node"
  using sample_live_init by (auto simp: node_init_def sample_node_def bridge_primary_def bridge_subscribe_def bridge_new_def)

definition sample_opening :: "unit node" where
  "sample_opening =
     sample_node\<lparr>nd_live := sample_live\<lparr>st_io := snd (query_json_scoped (one_row_engine [CText ''[1]'']) None (Some ''{}'') ''select 1'' []
                   (st_io sample_live))\<rparr>,
                 nd_answers := [op_answer sample_opened], nd_opening := [sample_opened]\<rparr>"

lemma sample_opening_step: "sample_node_step sample_node sample_opening"
proof -
  let ?run = "query_json_scoped (one_row_engine [CText ''[1]'']) None (Some ''{}'') ''select 1'' [] (st_io (nd_live sample_node))"
  have "?run = (Inr ''[1]'', snd ?run)"
    by (simp add: query_json_scoped_def begin_scoped_def bind_prog_def issue_def one_row_engine_def tx_query_def
        in_tx_def first_text_def get_opt_text_def cell_at_def or_empty_def sample_node_def sample_live_def)
  from node_snapshot [OF this refl, of sample_json_text sample_from_str "\<lambda>_. 0" "[''users'']" "[]" 0] show ?thesis
    by (simp add: sample_opening_def sample_node_def sample_opened_def bridge_primary_def bridge_new_def)
qed

definition sample_behind :: "unit node" where
  "sample_behind =
     (register sample_json_text sample_from_str (\<lambda>_. 0) sample_opened sample_opening)
       \<lparr>nd_bridge := broadcast (sample_txn ''users'' 9) (nd_bridge sample_opening)\<rparr>"

lemma sample_behind_reachable: "sample_node_step\<^sup>*\<^sup>* sample_node sample_behind"
proof -
  let ?s = "register sample_json_text sample_from_str (\<lambda>_. 0) sample_opened sample_opening"
  have "nd_bridge ?s = nd_bridge sample_opening" by (simp add: register_def hub_subscribe_eq Let_def)
  then have "sample_node_step\<^sup>*\<^sup>* ?s sample_behind"
    unfolding sample_behind_def by (intro bridge_run) (simp add: broadcast_run)
  moreover have "sample_node_step sample_opening ?s" by (intro node_register) (simp add: sample_opening_def)
  ultimately show ?thesis using sample_opening_step by (meson converse_rtranclp_into_rtranclp)
qed



end
