(* ===== verification/Spec2Isabelle.thy ===== *)
theory Spec2Isabelle
  imports Client Freshness Node
begin

text \<open>
  PgPaw, a server that answers read-only PostgreSQL queries over HTTP and a message protocol: a
  verification development.  A copy of the data is kept by an embedded engine (\<open>pglite\<close>), either a
  replica of an upstream server or a primary; results of public queries are cached under a version
  that logical replication advances, and live subscriptions receive the changes as deltas.

  \<^bold>\<open>The program and its theories.\<close>  Paths are relative to \<open>src/\<close>; definitions keep the names of the
  functions they translate.
    \<^item> \<open>Prelude\<close>, \<open>Json\<close>, \<open>Sqlast\<close>, \<open>Engine\<close>: strings as bytes, results as sums, hash maps with
      observable order, JSON values, the syntax tree of the SQL parser, and the command interface to
      the engine and the host.  \<open>Error\<close> is \<open>error.rs\<close>.
    \<^item> \<open>Classify\<close> (\<open>capability/classify.rs\<close>): is a text one cacheable read, and over which tables,
      filters and fingerprint.  \<open>SqlValidate\<close> (\<open>capability/sql_validate.rs\<close>) and \<open>Sql\<close>
      (\<open>capability/sql.rs\<close>): the endpoint that runs one statement for a caller.
    \<^item> \<open>Auth\<close> (\<open>capability/auth.rs\<close>) and \<open>Rows\<close> (\<open>capability/rows.rs\<close>): token verification, and the
      transactions in which a scoped statement runs.
    \<^item> \<open>Version\<close> (\<open>capability/version.rs\<close>), \<open>Cdc\<close> (\<open>capability/cdc.rs\<close>), \<open>Cache\<close> (\<open>capability/cache.rs\<close>),
      \<open>Read\<close> (\<open>capability/read.rs\<close>): a committed transaction goes through the bridge into the version
      index and then to the subscribers; \<open>materialize\<close> caches a result under fingerprint and version
      and \<open>cursor\<close> finds it there.  \<open>Freshness\<close> cuts \<open>materialize\<close> at its awaits and runs any number
      of reads beside commits and evictions.
    \<^item> \<open>Diff\<close> (\<open>capability/diff.rs\<close>), \<open>Live\<close> (\<open>capability/live.rs\<close>), \<open>Session\<close>: the deltas between two
      snapshots, the hub that sends them, and the typed protocol of a stream.  \<open>Node\<close> composes the
      bridge, the worker of the hub with its position on the broadcast channel (\<open>LiveHub::start\<close>), and
      the subscribing reads of \<open>capability/read.rs\<close>, cut between their snapshot and their registration.
    \<^item> \<open>Http\<close> (\<open>binding/http/\<close>), \<open>Unb\<close> (\<open>binding/unb.rs\<close>), \<open>Wire\<close> (\<open>protocol/payload.rs\<close>): the two bindings
      and the JSON form of the payloads.
    \<^item> \<open>Schema\<close> (\<open>schema/mod.rs\<close>): migration chains and their ledger.  \<open>Primary\<close> (\<open>db/primary.rs\<close>,
      \<open>capability/schema.rs\<close>), \<open>Setup\<close> (\<open>db/setup.rs\<close>, \<open>db/shadow.rs\<close>): opening and recovering a
      primary, its observer, and the preparation of an upstream server.
    \<^item> \<open>Runtime\<close> (\<open>api/\<close>, \<open>source/\<close>), \<open>Cli\<close> (\<open>main.rs\<close>): builder, assembly, waiting, shutdown, and
      the commands.  \<open>Client\<close>: the load generator (\<open>bench/src/main.rs\<close>) and the test client
      (\<open>integration-tests/src/lib.rs\<close>), which read what the server writes.

  \<^bold>\<open>State and effects.\<close>  A program of type \<open>('w, 'a) prog\<close> threads the world of the engine and the
  trace of the commands it has issued, including the acquisition of resources; every reply of the
  engine and the host is a function of command and world, so a theorem about a trace holds for every
  sequence of replies and failures.  Read operations thread their caches, version index and hub
  beside it.  Machine integers are words.  Panics are \<open>None\<close>, errors the left side of a sum.

  \<^bold>\<open>What the lemmas show.\<close>  Each component has its functional behaviour on every branch and its
  invariant.  State machines (hub, bridge, sessions, concurrent reads, node, primary) are \<open>inductive\<close>
  step relations with one step per critical section; their invariants come from the locale
  \<open>invariant_system\<close>.  A run of the node projects to a run of the bridge and one of the hub, and the
  worker is shown to reach rest by a measure on its moves.  Further interfaces are locales with interpretations on the model's own
  operations: \<open>delta_stream\<close> (Diff), \<open>quoting\<close> (Rows), \<open>bearer_gate\<close> (Auth), \<open>watermark_index\<close>
  (Version).  Resources are tracked by \<open>leaves\<close>, a calculus over traces in \<open>Engine\<close>.  The
  properties are numbered C1 to C40 in the order of their importance; the last of them describe
  behaviour that deviates from what the documentation promises.

  \<^bold>\<open>Parameters and their hypotheses.\<close>  Packages are parameters: the SQL parser and its visitors
  (\<open>sql_front\<close>), token decoding (\<open>jwt_lib\<close>, \<open>jwt_pins\<close>), the cache map (\<open>moka\<close>: \<open>moka_ok\<close>, and \<open>moka_keeps\<close>
  while nothing is evicted), the hasher (\<open>finish\<close>), the order of hash maps (\<open>fair_iter\<close>), the
  operating system (\<open>os\<close>, \<open>fs\<close>), and JSON text (\<open>json_roundtrip\<close>, \<open>json_compact\<close>).  The JSON laws are
  those of the package for values without fractional numbers nested at most 127 levels deep; deeper
  values fail to parse, and the theorems say what happens then.  Each hypothesis has an instance in
  a witness.

  \<^bold>\<open>Bounds and termination.\<close>  Functions terminate by structural recursion or a measure; no fuel is
  used except the number of frames a reader is asked for.  \<open>wait_loop\<close> and \<open>poll_until\<close> may run
  forever and are partial functions whose result \<open>None\<close> is that; when they return is proved.
  Theorems about the hub assume at most \<open>2 ^ 64\<close> subscriptions over its life, the range of its id
  counter, and refinement theorems of the version index assume that transactions arrive in the order
  of their log positions, as the replication stream delivers them.

  \<^bold>\<open>Not modelled.\<close>  Argument parsing (\<open>clap\<close> attributes, defaults and environment variables), the
  output of log lines, request matching and extractors of \<open>actix\<close> beyond the route table, the
  message transport of \<open>unb\<close>, the engine itself, the HTTP client, clock, free ports and embedded
  server of the benchmark and of the tests, re-exports and \<open>Debug\<close> implementations.  The positional
  form of a JSON payload is not modelled.
\<close>

subsection \<open>Lemmas across components\<close>

lemma distinct_singleton: "distinct xs \<Longrightarrow> set xs = {x} \<Longrightarrow> xs = [x]"
  by (cases xs; cases "tl xs") auto

lemma classified_one_table:
  assumes "cacheable front cl q" and "relation_name ` set (visit_relations front (SQuery q)) = {t}" and "t \<notin> cte_names q"
  shows "q_tables (classified front json_text finish sql params q) = [t]"
proof (rule distinct_singleton)
  show "distinct (q_tables (classified front json_text finish sql params q))"
    by (simp add: classified_def distinct_collect_tables)
  show "set (q_tables (classified front json_text finish sql params q)) = {t}"
    using assms(2,3) by (auto simp: classified_def set_collect_tables)
qed

lemma untouched_version:
  assumes "vi_bounded vi l" and "l \<le> end_lsn txn" and "anchor vi ts fs = Some k"
    and "\<forall>ch \<in> set (changes txn). \<not> is_truncate ch \<and> k \<notin> set (written_keys vi ch)"
  shows "version_of (advance vi txn) ts fs = version_of vi ts fs"
proof -
  have "\<not> relevant vi txn (ts, fs)"
    using assms(3,4) by (cases k) (auto simp: relevant_def change_relevant_def Let_def)
  then show ?thesis using vidx.version_stable [OF assms(1,2), of "(ts, fs)"] by auto
qed

subsection \<open>Properties that span components\<close>

text \<open>
  C35: a table named like a CTE of the statement escapes access control.  On a primary, a query
  without locks, functions and \<open>INTO\<close> whose relations all have the bare name of one of its CTEs is
  prepared for a caller without any identity, as public, without asking the catalogue about any
  table, whatever the tables it really reads; materializing it on an empty cache sends the text to
  the engine outside of any scope.
\<close>

theorem cte_name_bypasses_access_control:
  assumes "rs_replica s = None" and "rs_security_cache s = None"
    and "parse_sql (l_front lib) sql = Inr [SQuery q]"
    and "locks q = []" and "\<forall>x. query_body q = Select x \<longrightarrow> \<not> into_present x"
    and "\<forall>name. Function name \<notin> set (visit_expressions (l_front lib) (SQuery q))"
    and "relation_name ` set (visit_relations (l_front lib) (SQuery q)) \<subseteq> cte_names q"
    and "\<forall>key. fst (m_get (l_moka lib) key (rs_cache s)) = None"
  shows "\<exists>read. prepare lib sql None None params s = (Inr read, s) \<and> \<not> pr_private read \<and>
           trace (rs_io (snd (materialize lib read s))) = trace (rs_io s) @ [Query (wrap_json sql) (to_sql_params params)]"
proof -
  have c: "cacheable (l_front lib) (rs_classifier s) q" using assms(4-7) by (auto simp: cacheable_def)
  let ?query = "classified (l_front lib) (l_json_text lib) (l_finish lib) sql params q"
  let ?read = "\<lparr>pr_query = ?query, pr_who = None, pr_headers = None, pr_private = False\<rparr>"
  have "set (q_tables ?query) = {}" using assms(7) by (auto simp: classified_def set_collect_tables)
  then have ts: "q_tables ?query = []" by simp
  have "prepare lib sql None None params s = (Inr ?read, s)"
    using classify_query(1) [OF assms(3) c] assms(1,2) ts
    by (simp add: prepare_def halt_error_def is_private_def classify_security_def bind_read_def on_io_def merge_verdicts_def)
  moreover have "trace (rs_io (snd (materialize lib ?read s))) = trace (rs_io s) @ [Query (wrap_json sql) (to_sql_params params)]"
  proof -
    let ?m = "query_json_scoped (l_engine lib) None None sql params"
    obtain hit m where g: "m_get (l_moka lib) (cursor_key (show_hex (fingerprint ?query)) (show_nat (unat (query_version ?read s)))) (rs_cache s) = (hit, m)"
      by fastforce
    have "hit = None" using assms(8) g by (metis fst_conv)
    then have "rs_io (snd (materialize lib ?read s)) = snd (?m (rs_io s))"
      using g by (simp add: materialize_def Let_def get_or_compute_def classified_def split: prod.split sum.split)
    moreover have "trace (snd (?m (rs_io s))) = trace (rs_io s) @ [Query (wrap_json sql) (to_sql_params params)]"
      by (cases "issue (l_engine lib) (Query (wrap_json sql) (to_sql_params params)) (rs_io s)")
        (auto simp: query_json_scoped_def bind_prog_def split: sum.split dest: issue_traceD)
    ultimately show ?thesis by simp
  qed
  ultimately show ?thesis by (intro exI [of _ ?read]) simp
qed

theorem cte_name_bypasses_access_control_witness:
  "\<exists>read. prepare (sample_lib (sample_front (sample_query [''secrets''] None) [] [[''public'', ''secrets'']]) [CText ''[1]''])
            ''with secrets as (select 1) select * from public.secrets'' None None [] (sample_state []) = (Inr read, sample_state [])
          \<and> \<not> pr_private read"
proof -
  let ?q = "sample_query [''secrets''] None"
  let ?lib = "sample_lib (sample_front ?q [] [[''public'', ''secrets'']]) [CText ''[1]'']"
  have n: "relation_name [''public'', ''secrets''] = bare_lower ''secrets''" by code_simp
  have "\<exists>read. prepare ?lib ''with secrets as (select 1) select * from public.secrets'' None None [] (sample_state []) = (Inr read, sample_state []) \<and>
      \<not> pr_private read \<and> trace (rs_io (snd (materialize ?lib read (sample_state [])))) = trace (rs_io (sample_state [])) @
        [Query (wrap_json ''with secrets as (select 1) select * from public.secrets'') (to_sql_params [])]"
    by (rule cte_name_bypasses_access_control [where q = ?q])
      (simp_all add: sample_lib_def sample_front_def sample_query_def sample_state_def read_operations_primary_def cte_names_def n alist_moka_def)
  then show ?thesis by blast
qed

text \<open>
  C37: the anchor of a query does not account for repeated references.  A query that refers to one
  table any number of times (a self-join, a subquery) has that one table as its table list, so an
  equality on one of the references anchors the version of the whole query: a transaction that
  changes other rows of the table, which the other references may read, leaves the version and
  hence the cursor of the cached result unchanged.
\<close>

theorem repeated_table_keeps_anchor:
  assumes "classify front json_text finish cl sql params = Inr r" and "parse_sql front sql = Inr [SQuery q]"
    and "relation_name ` set (visit_relations front (SQuery q)) = {t}" and "t \<notin> cte_names q"
    and "vi_bounded vi l" and "l \<le> end_lsn txn" and "anchor vi [t] (eq_filters r) = Some k"
    and "\<forall>ch \<in> set (changes txn). \<not> is_truncate ch \<and> k \<notin> set (written_keys vi ch)"
  shows "q_tables r = [t] \<and>
         version_of (advance vi txn) (q_tables r) (eq_filters r) = version_of vi (q_tables r) (eq_filters r)"
  using assms(1)
proof (rule classify_Inr)
  fix q'
  assume "parse_sql front sql = Inr [SQuery q']" "cacheable front cl q'" and r: "r = classified front json_text finish sql params q'"
  with assms(2) have "q' = q" and "cacheable front cl q" by simp_all
  then have "q_tables r = [t]" using classified_one_table [OF _ assms(3,4)] r by simp
  then show ?thesis using untouched_version [OF assms(5-8)] by simp
qed

definition self_join :: sql_query where
  "self_join = sample_query [] (Some (BinaryOp (CompoundIdentifier [''a'', ''id'']) Eq (Value (VNumber ''1'' False))))"

definition self_join_front :: sql_front where
  "self_join_front = sample_front self_join [] [[''users''], [''users'']]"

theorem repeated_table_keeps_anchor_witness:
  "let vi = version_index_new [(''users'', ''id'')] []; fs = [(''id'', ''1'')]
   in version_of (advance vi (sample_update ''2'' 100)) [''users''] fs = version_of vi [''users''] fs"
proof -
  let ?vi = "version_index_new [(''users'', ''id'')] []"
  have rel: "relation_name [''users''] = ''users''" and bare: "bare_lower ''users'' = ''users''" and low: "to_ascii_lowercase ''id'' = ''id''" by code_simp+
  have c: "cacheable self_join_front (read_classifier_new [''users'']) self_join"
    by (simp add: cacheable_def self_join_front_def sample_front_def self_join_def sample_query_def read_classifier_new_def rel bare)
  have p: "parse_sql self_join_front ''q'' = Inr [SQuery self_join]" by (simp add: self_join_front_def sample_front_def)
  note cl = classify_query(1) [OF p c, of "\<lambda>_. []" "\<lambda>_. 0" "[]"]
  have fs: "eq_filters (classified self_join_front (\<lambda>_. []) (\<lambda>_. 0) ''q'' [] self_join) = [(''id'', ''1'')]"
    by (simp add: classified_def query_filters_def select_of_def self_join_def sample_query_def collect_eq_filters_def
        collect_loop_spec eq_filter_def filter_value_def low)
  have a: "anchor ?vi [''users''] [(''id'', ''1'')] = Some (''users'', ''id'', ''1'')" by code_simp
  have rest: "relation_name ` set (visit_relations self_join_front (SQuery self_join)) = {''users''}" "''users'' \<notin> cte_names self_join"
    by (simp_all add: self_join_front_def sample_front_def self_join_def sample_query_def cte_names_def rel)
  have w: "written_keys ?vi (Change_Update ''public'' ''Users'' [(''id'', Some ''2'')] [(''id'', Some ''2''), (''name'', Some ''x'')]) =
      [(''users'', ''id'', ''2''), (''users'', ''id'', ''2'')]" by code_simp
  have ch: "\<forall>ch \<in> set (changes (sample_update ''2'' 100)). \<not> is_truncate ch \<and> (''users'', ''id'', ''1'') \<notin> set (written_keys ?vi ch)"
    by (simp add: sample_update_def w)
  have l: "(0 :: u64) \<le> end_lsn (sample_update ''2'' 100)" by simp
  note main = repeated_table_keeps_anchor [OF cl p rest version_index_new_bounded l a [folded fs] ch]
  show ?thesis
    using main [THEN conjunct2] unfolding main [THEN conjunct1] fs Let_def .
qed

text \<open>
  C38: a boolean literal anchors a query with the text \<open>true\<close> or \<open>false\<close>.  The replication stream
  carries booleans as \<open>t\<close> and \<open>f\<close>, so on a table with full replica identity a change of a row that
  satisfies the filter leaves the version of the query unchanged.
\<close>

theorem boolean_anchor_misses_changes:
  assumes "vi_bounded vi l" and "l \<le> end_lsn txn"
    and "filter_value json_text (Value (Boolean b)) params = Some v"
    and "anchor vi [t] [(c, v)] = Some (tb, c', v)" and "tb \<in> vi_full vi"
    and "\<forall>ch \<in> set (changes txn). \<not> is_truncate ch \<and>
           (\<forall>(n, x) \<in> set (change_columns ch). to_ascii_lowercase n = c' \<longrightarrow> x \<in> {''t'', ''f''})"
  shows "version_of (advance vi txn) [t] [(c, v)] = version_of vi [t] [(c, v)]"
proof (rule untouched_version [OF assms(1,2,4)])
  have v: "v \<notin> {''t'', ''f''}" using assms(3) by (auto simp: filter_value_def split: if_splits)
  show "\<forall>ch \<in> set (changes txn). \<not> is_truncate ch \<and> (tb, c', v) \<notin> set (written_keys vi ch)"
  proof (intro ballI conjI notI)
    fix ch
    assume ch: "ch \<in> set (changes txn)"
    then show False if "is_truncate ch" using assms(6) that by blast
    assume "(tb, c', v) \<in> set (written_keys vi ch)"
    with assms(5) obtain n where "(n, v) \<in> set (change_columns ch)" "to_ascii_lowercase n = c'"
      by (auto simp: written_keys_def Let_def split: if_splits option.splits)
    then show False using assms(6) ch v by fastforce
  qed
qed

theorem boolean_anchor_misses_changes_witness:
  "let vi = version_index_new [] [''todos'']; fs = [(''done'', ''true'')];
       txn = \<lparr>xid = 1, commit_lsn = 5, end_lsn = 5, commit_ts = 0,
              changes = [Change_Insert ''public'' ''todos'' [(''id'', Some ''1''), (''done'', Some ''t'')]]\<rparr>
   in version_of (advance vi txn) [''todos''] fs = version_of vi [''todos''] fs"
proof -
  let ?vi = "version_index_new [] [''todos'']"
  have a: "anchor ?vi [''todos''] [(''done'', ''true'')] = Some (''todos'', ''done'', ''true'')" by code_simp
  have f: "''todos'' \<in> vi_full ?vi" by code_simp
  have v: "filter_value (\<lambda>_. []) (Value (Boolean True)) [] = Some ''true''" by (simp add: filter_value_def)
  have low: "to_ascii_lowercase ''id'' = ''id''" "to_ascii_lowercase ''done'' = ''done''" by code_simp+
  show ?thesis
    unfolding Let_def
    by (rule boolean_anchor_misses_changes [OF version_index_new_bounded _ v a f])
      (simp_all add: add_columns_def List.map_filter_simps low)
qed

text \<open>The first redirect of an instance that was just opened.\<close>

lemma prepare_keeps:
  "prepare lib sql who headers params s = (Inr read, t) \<Longrightarrow> rs_versions t = rs_versions s \<and> rs_cache t = rs_cache s"
  by (auto simp: prepare_def is_private_def bind_read_Inr on_io_eq Let_def split: option.splits sum.splits if_splits)

lemma fresh_redirect:
  assumes "starts_fresh rt cap read" and "rt_moka_new rt = query_cache_new (l_moka lib)"
    and "moka_ok (l_moka lib) held" and "moka_keeps (l_moka lib)"
    and "client_query lib jwt to_str None sql header (read io) = (Some resp, t)" and "resp_status resp = 303"
  obtains q who prepared s1 answered u where "parse_sql (l_front lib) sql = Inr [SQuery q]"
    "resp_header ''location'' resp =
       Some (''/q/'' @ show_hex (fingerprint (classified (l_front lib) (l_json_text lib) (l_finish lib) sql [] q)) @ ''/'' @ show_nat 0)"
    "prepare lib sql who None [] (read io) = (Inr prepared, s1)"
    "query_json_scoped (l_engine lib) None None sql [] (rs_io s1) = (Inr answered, rs_io t)"
    "client_cursor lib (''/q/'' @ show_hex (fingerprint (classified (l_front lib) (l_json_text lib) (l_finish lib) sql [] q)) @ ''/'' @ show_nat 0) t =
       (Some (cursor_response
          \<lparr>etag = cursor_key (show_hex (fingerprint (classified (l_front lib) (l_json_text lib) (l_finish lib) sql [] q))) (show_nat 0),
           c_body = answered\<rparr>), u)"
proof -
  from assms(5) have "http_query lib None sql
      (authenticate_request jwt (l_json_text lib) to_str (Some (rs_verifier (read io))) header) (read io) = (Some resp, t)"
    by (simp add: client_query_def)
  from http_query_303 [OF this assms(6)] obtain prepared s1 version snap who where
      r: "prepare lib sql who None [] (read io) = (Inr prepared, s1)"
         "materialize lib prepared s1 = (Inr (show_hex (fingerprint (pr_query prepared)), version, snap), t)"
         "resp = redirect_response (show_hex (fingerprint (pr_query prepared))) version" .
  obtain q where q: "parse_sql (l_front lib) sql = Inr [SQuery q]"
      "pr_query prepared = classified (l_front lib) (l_json_text lib) (l_finish lib) sql [] q"
    using r(1) by (auto elim!: prepare_Inr classify_Inr)
  let ?f = "fingerprint (classified (l_front lib) (l_json_text lib) (l_finish lib) sql [] q)"
  have sql_text: "q_sql (pr_query prepared) = sql" "q_params (pr_query prepared) = []" by (simp_all add: q(2) classified_def)
  have kept: "rs_versions s1 = rs_versions (read io)" "rs_cache s1 = query_cache_new (l_moka lib) cap"
    using prepare_keeps [OF r(1)] assms(1,2) by (simp_all add: starts_fresh_def)
  have "query_version prepared s1 \<le> 0"
    unfolding query_version_def kept(1) using assms(1) vi_bounded_version [OF version_index_new_bounded] by (auto simp: starts_fresh_def) metis
  then have zero: "query_version prepared s1 = 0" by simp
  obtain hit m where g: "m_get (l_moka lib) (cursor_key (show_hex ?f) (show_nat 0)) (rs_cache s1) = (hit, m)" by fastforce
  have "hit = None"
    using assms(3) g unfolding kept(2) query_cache_new_def moka_ok_def by (metis empty_iff option.exhaust)
  then obtain answered where m: "version = 0" "query_json_scoped (l_engine lib) None None sql [] (rs_io s1) = (Inr answered, rs_io t)"
      "snap = \<lparr>etag = cursor_key (show_hex ?f) (show_nat 0), c_body = answered\<rparr>"
    using r(2) g by (auto simp: materialize_def Let_def get_or_compute_def zero q(2)[symmetric] sql_text bind_res_Inr_iff split: prod.splits sum.splits)
  from materialize_found [OF assms(4) r(2)] obtain u where "cursor lib (show_hex ?f) (show_nat 0) t = (Some snap, u)"
    by (auto simp: q(2) m(1))
  then have "client_cursor lib (''/q/'' @ show_hex ?f @ ''/'' @ show_nat 0) t = (Some (cursor_response snap), u)"
    unfolding client_cursor_def cursor_route_location by (simp add: http_cursor_def cursor_response_def)
  moreover have "resp_header ''location'' resp = Some (''/q/'' @ show_hex ?f @ ''/'' @ show_nat 0)"
    using redirect_location [of "show_hex ?f" version] unfolding r(3) q(2) m(1) by simp
  ultimately show ?thesis using that [OF q(1) _ r(1) m(2)] m(3) by simp
qed

text \<open>
  C39: a restart reuses the addresses of cached results.  Two instances opened one after the other
  start with an empty version index, so before the first relevant change both redirect a query to
  the same location, the one of version 0, and serve under it, with the same etag and as public for
  three days, whatever the engine answers at that time.  What a browser or proxy has kept from
  before the restart is thus taken for the current result, also when the data has changed.
\<close>

theorem restart_reuses_cursor_urls:
  assumes "open_pgpaw rt b1 w1 = (Inr p1, w1')" and "open_pgpaw rt b2 w2 = (Inr p2, w2')"
    and "rt_moka_new rt = query_cache_new (l_moka lib)" and "moka_ok (l_moka lib) held" and "moka_keeps (l_moka lib)"
    and "client_query lib jwt to_str None sql header1 (pp_read p1 io1) = (Some resp1, t1)" and "resp_status resp1 = 303"
    and "client_query lib jwt to_str None sql header2 (pp_read p2 io2) = (Some resp2, t2)" and "resp_status resp2 = 303"
  shows "\<exists>location tag who1 read1 s1 answer1 u1 who2 read2 s2 answer2 u2.
    resp_header ''location'' resp1 = Some location \<and> resp_header ''location'' resp2 = Some location \<and>
    client_cursor lib location t1 = (Some (cursor_response \<lparr>etag = tag, c_body = answer1\<rparr>), u1) \<and>
    client_cursor lib location t2 = (Some (cursor_response \<lparr>etag = tag, c_body = answer2\<rparr>), u2) \<and>
    prepare lib sql who1 None [] (pp_read p1 io1) = (Inr read1, s1) \<and>
    query_json_scoped (l_engine lib) None None sql [] (rs_io s1) = (Inr answer1, rs_io t1) \<and>
    prepare lib sql who2 None [] (pp_read p2 io2) = (Inr read2, s2) \<and>
    query_json_scoped (l_engine lib) None None sql [] (rs_io s2) = (Inr answer2, rs_io t2)"
proof -
  obtain q1 who1 read1 s1 answer1 u1 where
      1: "parse_sql (l_front lib) sql = Inr [SQuery q1]"
         "resp_header ''location'' resp1 =
            Some (''/q/'' @ show_hex (fingerprint (classified (l_front lib) (l_json_text lib) (l_finish lib) sql [] q1)) @ ''/'' @ show_nat 0)"
         "prepare lib sql who1 None [] (pp_read p1 io1) = (Inr read1, s1)"
         "query_json_scoped (l_engine lib) None None sql [] (rs_io s1) = (Inr answer1, rs_io t1)"
         "client_cursor lib (''/q/'' @ show_hex (fingerprint (classified (l_front lib) (l_json_text lib) (l_finish lib) sql [] q1)) @ ''/'' @ show_nat 0) t1 =
            (Some (cursor_response
               \<lparr>etag = cursor_key (show_hex (fingerprint (classified (l_front lib) (l_json_text lib) (l_finish lib) sql [] q1))) (show_nat 0),
                c_body = answer1\<rparr>), u1)"
    by (rule fresh_redirect [OF open_pgpaw_fresh [OF assms(1)] assms(3-5,6,7)])
  obtain q2 who2 read2 s2 answer2 u2 where
      2: "parse_sql (l_front lib) sql = Inr [SQuery q2]"
         "resp_header ''location'' resp2 =
            Some (''/q/'' @ show_hex (fingerprint (classified (l_front lib) (l_json_text lib) (l_finish lib) sql [] q2)) @ ''/'' @ show_nat 0)"
         "prepare lib sql who2 None [] (pp_read p2 io2) = (Inr read2, s2)"
         "query_json_scoped (l_engine lib) None None sql [] (rs_io s2) = (Inr answer2, rs_io t2)"
         "client_cursor lib (''/q/'' @ show_hex (fingerprint (classified (l_front lib) (l_json_text lib) (l_finish lib) sql [] q2)) @ ''/'' @ show_nat 0) t2 =
            (Some (cursor_response
               \<lparr>etag = cursor_key (show_hex (fingerprint (classified (l_front lib) (l_json_text lib) (l_finish lib) sql [] q2))) (show_nat 0),
                c_body = answer2\<rparr>), u2)"
    by (rule fresh_redirect [OF open_pgpaw_fresh [OF assms(2)] assms(3-5,8,9)])
  have q: "q2 = q1" using 1(1) 2(1) by simp
  show ?thesis
    by (intro exI conjI) (rule 1(2) 2(2) [unfolded q] 1(5) 2(5) [unfolded q] 1(3,4) 2(3,4))+
qed

text \<open>An engine whose world is the answer to one query.\<close>

definition echo_sql :: string where
  "echo_sql = ''select 1''"

definition echo_lib :: "(string, (string \<times> cached_result) list) read_lib" where
  "echo_lib =
     \<lparr>l_engine = deaf_engine (wrap_json echo_sql) (\<lambda>w. Inr [\<lparr>row_columns = [], row_cells = [CText w]\<rparr>]), l_front = sample_front (sample_query [] None) [] [],
      l_json_text = sample_json_text, l_from_str = sample_from_str, l_finish = (\<lambda>s. of_nat (length s)), l_pg_display = (\<lambda>_. []),
      l_moka = alist_moka\<rparr>"

definition echo_rt :: "(string, (string \<times> cached_result) list, unit) rt_lib" where
  "echo_rt = deaf_lib (wrap_json echo_sql) (\<lambda>w. Inr [\<lparr>row_columns = [], row_cells = [CText w]\<rparr>]) (query_cache_new alist_moka)"

definition echo_builder :: pgpaw_builder where
  "echo_builder = with_source (PrimaryOf (migrate_source sample_mo)) builder"

lemma echo_classified: "classify (l_front echo_lib) (l_json_text echo_lib) (l_finish echo_lib) cl echo_sql [] =
    Inr (classified (l_front echo_lib) (l_json_text echo_lib) (l_finish echo_lib) echo_sql [] (sample_query [] None))"
  by (rule classify_query(1)) (simp_all add: echo_lib_def sample_front_def sample_query_def cacheable_def)

lemma echo_text: "query_json_scoped (l_engine echo_lib) None None echo_sql [] io =
    (Inr (world io), io\<lparr>trace := trace io @ [Query (wrap_json echo_sql) (to_sql_params [])]\<rparr>)"
  by (simp add: echo_lib_def query_json_scoped_def bind_prog_def issue_def deaf_engine_def first_text_def get_opt_text_def cell_at_def
      or_empty_def)

lemma echo_answer: "query_json_scoped (l_engine echo_lib) None None echo_sql [] i = (Inr a, j) \<Longrightarrow> a = world j"
  unfolding echo_text by auto

lemma echo_prepared:
  assumes "starts_fresh echo_rt cap read"
  shows "\<exists>prepared s1. prepare echo_lib echo_sql None None [] (read io) = (Inr prepared, s1) \<and> \<not> pr_private prepared \<and>
    q_sql (pr_query prepared) = echo_sql \<and> q_params (pr_query prepared) = [] \<and> rs_io s1 = io"
proof -
  have rep: "rp_halted (rt_replica quiet_lib) = False" "rp_security (rt_replica quiet_lib) = Inr 0" "rt_replica echo_rt = rt_replica quiet_lib"
    by (simp_all add: quiet_lib_def echo_rt_def deaf_lib_def)
  have ts: "q_tables (classified (l_front echo_lib) (l_json_text echo_lib) (l_finish echo_lib) echo_sql [] (sample_query [] None)) = []"
    by (simp add: classified_def echo_lib_def sample_front_def)
  have f: "rs_io (read io) = io" "rs_replica (read io) \<in> {None, Some (rt_replica quiet_lib)}" "rs_security_cache (read io) \<in> {None, Some (0, Map.empty)}"
    using assms rep(3) by (auto simp: starts_fresh_def)
  have halt: "halt_error (read io) = None"
    using f(2) rep(1) by (auto simp: halt_error_def)
  have priv: "\<exists>s1. is_private (l_engine echo_lib) [] (read io) = (Inr False, s1) \<and> rs_io s1 = io"
    using f rep(2)
    by (auto simp: is_private_def classify_security_def bind_read_def on_io_def return_prog_def merge_verdicts_def
        current_security_def Let_def split: option.splits)
  then obtain s1 where "is_private (l_engine echo_lib) [] (read io) = (Inr False, s1)" "rs_io s1 = io" by blast
  then show ?thesis
    by (simp add: prepare_def halt echo_classified ts bind_read_def) (simp add: classified_def)
qed

lemma echo_answered:
  assumes "open_pgpaw echo_rt echo_builder s = (Inr pp, s')"
  shows "\<exists>resp t. client_query echo_lib (rt_jwt quiet_lib) Some None echo_sql None (pp_read pp io) = (Some resp, t) \<and>
    resp_status resp = 303 \<and> world (rs_io t) = world io"
proof -
  from echo_prepared [OF open_pgpaw_fresh [OF assms], of io] obtain prepared s1 where
      p: "prepare echo_lib echo_sql None None [] (pp_read pp io) = (Inr prepared, s1)" "\<not> pr_private prepared"
         "q_sql (pr_query prepared) = echo_sql" "q_params (pr_query prepared) = []" "rs_io s1 = io" by blast
  have "\<exists>x t. materialize echo_lib prepared s1 = (Inr x, t) \<and> world (rs_io t) = world io"
    by (simp add: materialize_def get_or_compute_def p echo_text Let_def split: prod.split option.split)
  then show ?thesis
    using p(1,2) by (auto simp: client_query_def authenticate_request_def http_query_def redirect_response_def split: prod.splits)
qed

theorem restart_reuses_cursor_urls_witness:
  "\<exists>location tag (t1 :: (string, (string \<times> cached_result) list, unit) read_state) (t2 :: (string, (string \<times> cached_result) list, unit) read_state) u1 u2.
     client_cursor echo_lib location t1 = (Some (cursor_response \<lparr>etag = tag, c_body = ''[1]''\<rparr>), u1) \<and>
     client_cursor echo_lib location t2 = (Some (cursor_response \<lparr>etag = tag, c_body = ''[2]''\<rparr>), u2)"
proof -
  have q: "wrap_json echo_sql \<notin> {scan_tables_query, scan_pk_query, scan_full_query}"
    by (simp add: wrap_json_def echo_sql_def scan_tables_query_def scan_pk_query_def scan_full_query_def)
  obtain pp s' where opened: "open_pgpaw echo_rt echo_builder \<lparr>world = [], trace = []\<rparr> = (Inr pp, s')"
    unfolding echo_rt_def echo_builder_def using deaf_open_pgpaw [OF q] by blast
  have new: "rt_moka_new echo_rt = query_cache_new (l_moka echo_lib)" by (simp add: echo_rt_def echo_lib_def)
  have moka: "moka_ok (l_moka echo_lib) map_stored" "moka_keeps (l_moka echo_lib)"
    by (simp_all add: echo_lib_def alist_moka_ok alist_moka_keeps)
  obtain resp1 t1 where 1: "client_query echo_lib (rt_jwt quiet_lib) Some None echo_sql None (pp_read pp \<lparr>world = ''[1]'', trace = []\<rparr>) = (Some resp1, t1)"
      "resp_status resp1 = 303" "world (rs_io t1) = ''[1]''"
    using echo_answered [OF opened, of "\<lparr>world = ''[1]'', trace = []\<rparr>"] by auto
  obtain resp2 t2 where 2: "client_query echo_lib (rt_jwt quiet_lib) Some None echo_sql None (pp_read pp \<lparr>world = ''[2]'', trace = []\<rparr>) = (Some resp2, t2)"
      "resp_status resp2 = 303" "world (rs_io t2) = ''[2]''"
    using echo_answered [OF opened, of "\<lparr>world = ''[2]'', trace = []\<rparr>"] by auto
  from restart_reuses_cursor_urls [OF opened opened new moka 1(1,2) 2(1,2)] obtain location tag s1 answer1 u1 s2 answer2 u2 where
      c: "client_cursor echo_lib location t1 = (Some (cursor_response \<lparr>etag = tag, c_body = answer1\<rparr>), u1)"
         "client_cursor echo_lib location t2 = (Some (cursor_response \<lparr>etag = tag, c_body = answer2\<rparr>), u2)"
      and a: "query_json_scoped (l_engine echo_lib) None None echo_sql [] s1 = (Inr answer1, rs_io t1)"
         "query_json_scoped (l_engine echo_lib) None None echo_sql [] s2 = (Inr answer2, rs_io t2)" by blast
  have "answer1 = ''[1]''" "answer2 = ''[2]''" using echo_answer [OF a(1)] echo_answer [OF a(2)] 1(3) 2(3) by simp_all
  then show ?thesis using c by blast
qed

end
